(* ===== verification/Prelude.thy ===== *)
theory Prelude
  imports Main "HOL-Library.Word" "HOL-Library.List_Lexorder" "HOL-Library.Char_ord"
    "HOL-Library.Product_Lexorder" "HOL-Library.Sublist"
begin

text \<open>
  What the components share: the names of the program's basic types, the error-or-value
  results of the source's \<open>?\<close> operator, machine integers and their casts, the fact
  collections the proofs use, and the two generic interfaces (a state machine with an
  invariant, a text codec) that several components provide.
\<close>

section \<open>Names of types\<close>

text \<open>
  Byte slices and strings are lists of \<open>char\<close>, which are bytes: a Rust \<open>String\<close> is its
  UTF-8 encoding, so lengths and comparisons count bytes as the source's do. \<open>usize\<close>
  counters that count elements held in memory are \<open>nat\<close>; integers that are stored, cast or
  multiplied are words of their width, and SQLite's signed 64-bit columns are \<open>int\<close> with the
  casts written out.
\<close>

type_synonym bytes = "char list"
type_synonym u32 = "32 word"
type_synonym u64 = "64 word"
type_synonym i64 = int

abbreviation Ok :: "'a \<Rightarrow> 'e + 'a" where "Ok \<equiv> Inr"
abbreviation Err :: "'e \<Rightarrow> 'e + 'a" where "Err \<equiv> Inl"

named_theorems fmt_simps "rewriting of the text formats (decimal numbers, trimming, splitting)"
named_theorems f64_simps "evaluation of the floating point model"
named_theorems sql_defs "the SQL statements of the store as functions on rows"
named_theorems inv_intros "preservation of component invariants"

section \<open>Machine integers\<close>

text \<open>\<open>as i64\<close> and \<open>as u64\<close> reinterpret the 64 bits; \<open>as u32\<close> truncates.\<close>

definition u64_as_i64 :: "u64 \<Rightarrow> i64" where
  "u64_as_i64 w = sint w"

definition i64_as_u64 :: "i64 \<Rightarrow> u64" where
  "i64_as_u64 i = word_of_int i"

definition i64_as_u32 :: "i64 \<Rightarrow> u32" where
  "i64_as_u32 i = word_of_int i"

text \<open>\<open>i64\<close> addition as release builds compile it: wrapping in two's complement.\<close>

definition i64_add :: "i64 \<Rightarrow> i64 \<Rightarrow> i64" where
  "i64_add a b = signed_take_bit 63 (a + b)"

definition u32_add1 :: "u32 \<Rightarrow> u32" where
  "u32_add1 w = w + 1"

lemma i64_as_u64_cast [simp]: "i64_as_u64 (u64_as_i64 w) = w"
  by (simp add: i64_as_u64_def u64_as_i64_def)

lemma i64_as_u32_uint: "0 \<le> i \<Longrightarrow> i < 2 ^ 32 \<Longrightarrow> uint (i64_as_u32 i) = i"
  by (simp add: i64_as_u32_def uint_word_of_int)

lemma i64_add_exact: "- (2 ^ 63) \<le> a + b \<Longrightarrow> a + b < 2 ^ 63 \<Longrightarrow> i64_add a b = a + b"
  unfolding i64_add_def by (rule signed_take_bit_int_eq_self) simp_all

section \<open>Results and the question-mark operator\<close>

text \<open>
  A fallible computation on a world \<open>'s\<close> returns an error or a value and the new world.
  \<open>and_then m f\<close> is \<open>let x = m?; f x\<close>: an error of \<open>m\<close> returns at once.
\<close>

type_synonym ('s, 'e, 'a) io = "'s \<Rightarrow> ('e + 'a) \<times> 's"

definition and_then :: "('s, 'e, 'a) io \<Rightarrow> ('a \<Rightarrow> ('s, 'e, 'b) io) \<Rightarrow> ('s, 'e, 'b) io" where
  "and_then m f s = (case m s of (Err e, s') \<Rightarrow> (Err e, s') | (Ok a, s') \<Rightarrow> f a s')"

definition io_ok :: "'a \<Rightarrow> ('s, 'e, 'a) io" where
  "io_ok a s = (Ok a, s)"

definition io_err :: "'e \<Rightarrow> ('s, 'e, 'a) io" where
  "io_err e s = (Err e, s)"

lemma and_then_OkE:
  assumes "and_then m f s = (Ok b, s'')"
  obtains a s' where "m s = (Ok a, s')" and "f a s' = (Ok b, s'')"
  using assms by (auto simp: and_then_def split: prod.splits sum.splits)

lemma and_then_ok [simp]: "m s = (Ok a, s') \<Longrightarrow> and_then m f s = f a s'"
  by (simp add: and_then_def)

lemma and_then_err [simp]: "m s = (Err e, s') \<Longrightarrow> and_then m f s = (Err e, s')"
  by (simp add: and_then_def)

lemma io_ok_apply [simp]: "io_ok a s = (Ok a, s)"
  by (simp add: io_ok_def)

lemma io_err_apply [simp]: "io_err e s = (Err e, s)"
  by (simp add: io_err_def)

text \<open>The same without a world: \<open>?\<close> in a function of its arguments, and a loop that stops at the
first error.\<close>

definition try_then :: "'e + 'a \<Rightarrow> ('a \<Rightarrow> 'e + 'b) \<Rightarrow> 'e + 'b" where
  "try_then r f = (case r of Err e \<Rightarrow> Err e | Ok a \<Rightarrow> f a)"

definition map_err :: "('e \<Rightarrow> 'd) \<Rightarrow> 'e + 'a \<Rightarrow> 'd + 'a" where
  "map_err h r = (case r of Err e \<Rightarrow> Err (h e) | Ok a \<Rightarrow> Ok a)"

fun try_all :: "('a \<Rightarrow> 'e + 'b) \<Rightarrow> 'a list \<Rightarrow> 'e + 'b list" where
  "try_all f [] = Ok []"
| "try_all f (x # xs) = try_then (f x) (\<lambda>y. try_then (try_all f xs) (\<lambda>ys. Ok (y # ys)))"

lemma try_then_simps [simp]: "try_then (Err e) f = Err e" "try_then (Ok a) f = f a"
  by (simp_all add: try_then_def)

lemma map_err_simps [simp]: "map_err h (Err e) = Err (h e)" "map_err h (Ok a) = Ok a"
  by (simp_all add: map_err_def)

lemma try_then_Ok_iff: "try_then r f = Ok b \<longleftrightarrow> (\<exists>a. r = Ok a \<and> f a = Ok b)"
  by (cases r) auto

lemma try_then_Err_iff: "try_then r f = Err e \<longleftrightarrow> r = Err e \<or> (\<exists>a. r = Ok a \<and> f a = Err e)"
  by (cases r) auto

lemma map_err_Ok_iff [simp]: "map_err h r = Ok a \<longleftrightarrow> r = Ok a"
  by (cases r) auto

lemma map_err_Err_iff: "map_err h r = Err d \<longleftrightarrow> (\<exists>e. r = Err e \<and> d = h e)"
  by (cases r) auto

lemma try_all_Ok_iff: "try_all f xs = Ok ys \<longleftrightarrow> list_all2 (\<lambda>x y. f x = Ok y) xs ys"
  by (induction xs arbitrary: ys) (auto simp: try_then_Ok_iff list_all2_Cons1)

lemma try_all_Err:
  "try_all f xs = Err e \<Longrightarrow> \<exists>pre x post. xs = pre @ x # post \<and> f x = Err e \<and>
     (\<forall>y \<in> set pre. \<exists>b. f y = Ok b)"
proof (induction xs)
  case (Cons x xs)
  show ?case
  proof (cases "f x")
    case (Inl d)
    with Cons.prems have "d = e" by simp
    with Inl show ?thesis by (intro exI [of _ "[]"]) auto
  next
    case (Inr b)
    with Cons.prems have "try_all f xs = Err e" by (simp add: try_then_Err_iff)
    with Cons.IH obtain pre y post where "xs = pre @ y # post" "f y = Err e"
      "\<forall>y \<in> set pre. \<exists>b. f y = Ok b" by blast
    with Inr show ?thesis by (intro exI [of _ "x # pre"]) auto
  qed
qed simp

section \<open>Lists\<close>

lemma find_map_comp: "find P (map f xs) = map_option f (find (P \<circ> f) xs)"
  by (induction xs) auto

lemma find_append: "find P (xs @ ys) = (case find P xs of None \<Rightarrow> find P ys | Some x \<Rightarrow> Some x)"
  by (induction xs) auto

lemma distinct_map_filter_other:
  "distinct (map f xs) \<Longrightarrow> distinct (map f (filter P xs))"
  by (induction xs) auto

lemma filter_neq_distinct_map:
  assumes "distinct (map f xs)" and "x \<in> set xs"
  shows "filter (\<lambda>y. f y = f x) xs = [x]"
  using assms
proof (induction xs)
  case Nil
  then show ?case by simp
next
  case (Cons y ys)
  show ?case
  proof (cases "x = y")
    case True
    with Cons.prems(1) have "filter (\<lambda>z. f z = f x) ys = []"
      by (auto simp: filter_empty_conv image_iff)
    with True show ?thesis by simp
  next
    case False
    with Cons.prems have "f y \<noteq> f x" and "x \<in> set ys" by (auto simp: image_iff)
    with Cons show ?thesis by simp
  qed
qed

lemma distinct_map_eq:
  "distinct (map f xs) \<Longrightarrow> x \<in> set xs \<Longrightarrow> y \<in> set xs \<Longrightarrow> f x = f y \<Longrightarrow> x = y"
  by (auto simp: distinct_map inj_on_def)

section \<open>State machines with an invariant\<close>

text \<open>
  The interface of every stateful component: operations that step a state, and an invariant
  each operation keeps. A client reasons about whole histories of operations.
\<close>

fun exec_all :: "('op \<Rightarrow> 's \<Rightarrow> 's) \<Rightarrow> 'op list \<Rightarrow> 's \<Rightarrow> 's" where
  "exec_all stp [] s = s"
| "exec_all stp (x # xs) s = exec_all stp xs (stp x s)"

fun all_admissible ::
  "('op \<Rightarrow> 's \<Rightarrow> bool) \<Rightarrow> ('op \<Rightarrow> 's \<Rightarrow> 's) \<Rightarrow> 'op list \<Rightarrow> 's \<Rightarrow> bool" where
  "all_admissible adm stp [] s = True"
| "all_admissible adm stp (x # xs) s = (adm x s \<and> all_admissible adm stp xs (stp x s))"

lemma exec_all_append: "exec_all stp (xs @ ys) s = exec_all stp ys (exec_all stp xs s)"
  by (induction xs arbitrary: s) simp_all

lemma all_admissible_append:
  "all_admissible adm stp (xs @ ys) s =
     (all_admissible adm stp xs s \<and> all_admissible adm stp ys (exec_all stp xs s))"
  by (induction xs arbitrary: s) simp_all

locale stepper =
  fixes step :: "'op \<Rightarrow> 's \<Rightarrow> 's"
    and good :: "'s \<Rightarrow> bool"
    and admissible :: "'op \<Rightarrow> 's \<Rightarrow> bool"
  assumes step_good: "good s \<Longrightarrow> admissible op s \<Longrightarrow> good (step op s)"
begin

lemma exec_all_good: "good s \<Longrightarrow> all_admissible admissible step ops s \<Longrightarrow> good (exec_all step ops s)"
  by (induction ops arbitrary: s) (auto intro: step_good)

text \<open>A fact every admissible step of a good state keeps is kept by every history.\<close>

lemma exec_all_keeps:
  assumes "\<And>op t. good t \<Longrightarrow> admissible op t \<Longrightarrow> Q t \<Longrightarrow> Q (step op t)"
  shows "good s \<Longrightarrow> all_admissible admissible step ops s \<Longrightarrow> Q s \<Longrightarrow> Q (exec_all step ops s)"
  using assms by (induction ops arbitrary: s) (auto intro: step_good)

text \<open>A preorder every admissible step respects is respected by every history.\<close>

lemma exec_all_rel:
  assumes refl: "\<And>t. R t t"
    and trans: "\<And>t u v. R t u \<Longrightarrow> R u v \<Longrightarrow> R t v"
    and step: "\<And>op t. good t \<Longrightarrow> admissible op t \<Longrightarrow> R t (step op t)"
  shows "good s \<Longrightarrow> all_admissible admissible step ops s \<Longrightarrow> R s (exec_all step ops s)"
proof (induction ops arbitrary: s)
  case Nil
  show ?case by (simp add: refl)
next
  case (Cons x xs)
  then have "good (step x s)" and "all_admissible admissible step xs (step x s)"
    by (auto intro: step_good)
  then have "R (step x s) (exec_all step xs (step x s))" by (rule Cons.IH)
  moreover have "R s (step x s)" using Cons.prems by (auto intro: step)
  ultimately show ?case by (auto intro: trans)
qed

end

section \<open>Text codecs\<close>

text \<open>
  An encoding of values as text. The first locale is what a client needs to read back what
  it wrote; the second adds that only written texts are read.
\<close>

locale text_codec =
  fixes enc :: "'a \<Rightarrow> string"
    and dec :: "string \<Rightarrow> 'a option"
    and dom_ok :: "'a \<Rightarrow> bool"
  assumes dec_enc: "dom_ok x \<Longrightarrow> dec (enc x) = Some x"
begin

lemma enc_inject: "dom_ok x \<Longrightarrow> dom_ok y \<Longrightarrow> enc x = enc y \<longleftrightarrow> x = y"
  using dec_enc by (metis option.inject)

end

locale exact_codec = text_codec +
  assumes enc_dec: "dec s = Some x \<Longrightarrow> dom_ok x \<and> enc x = s"
begin

lemma dec_Some_iff: "dec s = Some x \<longleftrightarrow> dom_ok x \<and> enc x = s"
  using dec_enc enc_dec by blast

lemma dec_None_iff: "dec s = None \<longleftrightarrow> (\<forall>x. dom_ok x \<longrightarrow> enc x \<noteq> s)"
  using dec_Some_iff by (metis not_None_eq)

end

end
