(* ===== verification/Bytes.thy ===== *)
theory Bytes
  imports Prelude
begin

text \<open>
  The operations on byte slices and strings that the program takes from the Rust standard
  library: ASCII classes, splitting, \<open>trim\<close>, \<open>lines\<close>, \<open>split_once\<close>, decimal printing and
  parsing, and lossy UTF-8 decoding with the replacement character for each maximal invalid
  prefix.
\<close>

section \<open>Bytes and ASCII classes\<close>

definition byte :: "char \<Rightarrow> nat" where
  "byte c = of_char c"

definition in_range :: "nat \<Rightarrow> nat \<Rightarrow> nat \<Rightarrow> bool" where
  "in_range lo hi b \<longleftrightarrow> lo \<le> b \<and> b \<le> hi"

definition is_ascii_digit :: "char \<Rightarrow> bool" where
  "is_ascii_digit c \<longleftrightarrow> in_range 48 57 (byte c)"

definition is_ascii_lowercase :: "char \<Rightarrow> bool" where
  "is_ascii_lowercase c \<longleftrightarrow> in_range 97 122 (byte c)"

definition is_ascii_uppercase :: "char \<Rightarrow> bool" where
  "is_ascii_uppercase c \<longleftrightarrow> in_range 65 90 (byte c)"

definition is_ascii_alphanumeric :: "char \<Rightarrow> bool" where
  "is_ascii_alphanumeric c \<longleftrightarrow> is_ascii_digit c \<or> is_ascii_lowercase c \<or> is_ascii_uppercase c"

text \<open>\<open>u8::is_ascii_whitespace\<close>: space, tab, line feed, form feed, carriage return.\<close>

definition is_ascii_whitespace :: "char \<Rightarrow> bool" where
  "is_ascii_whitespace c \<longleftrightarrow> byte c \<in> {32, 9, 10, 12, 13}"

definition ascii_uppercase :: "char \<Rightarrow> char" where
  "ascii_uppercase c = (if is_ascii_lowercase c then char_of (byte c - 32) else c)"

abbreviation newline :: char where "newline \<equiv> CHR 0x0A"

lemma byte_char_of [simp]: "n < 256 \<Longrightarrow> byte (char_of n) = n"
  by (simp add: byte_def)

lemma byte_less [simp]: "byte c < 256"
  by (simp add: byte_def)

lemma byte_inject: "byte c = byte d \<longleftrightarrow> c = d"
  by (simp add: byte_def)

lemma char_of_byte [simp]: "char_of (byte c) = c"
  by (simp add: byte_def)

section \<open>Splitting and joining\<close>

text \<open>\<open>[u8]::split\<close>: the pieces between the bytes that satisfy the predicate, one at least.\<close>

fun split_on :: "(char \<Rightarrow> bool) \<Rightarrow> bytes \<Rightarrow> bytes list" where
  "split_on p [] = [[]]"
| "split_on p (c # cs) =
     (if p c then [] # split_on p cs
      else (case split_on p cs of [] \<Rightarrow> [[c]] | l # ls \<Rightarrow> (c # l) # ls))"

fun join :: "string \<Rightarrow> string list \<Rightarrow> string" where
  "join sep [] = []"
| "join sep [x] = x"
| "join sep (x # y # ys) = x @ sep @ join sep (y # ys)"

lemma split_on_not_Nil [simp]: "split_on p xs \<noteq> []"
  by (cases xs) (auto split: list.splits)

lemma split_on_no: "(\<And>c. c \<in> set xs \<Longrightarrow> \<not> p c) \<Longrightarrow> split_on p xs = [xs]"
  by (induction xs) auto

lemma split_on_app: "p c \<Longrightarrow> split_on p (xs @ c # ys) = split_on p xs @ split_on p ys"
proof (induction xs)
  case Nil
  then show ?case by simp
next
  case (Cons x xs)
  then show ?case by (cases "split_on p xs") auto
qed

lemma split_on_pieces: "l \<in> set (split_on p xs) \<Longrightarrow> c \<in> set l \<Longrightarrow> c \<in> set xs \<and> \<not> p c"
proof (induction xs arbitrary: l)
  case Nil
  then show ?case by simp
next
  case (Cons x xs)
  obtain m ms where m: "split_on p xs = m # ms"
    by (cases "split_on p xs") auto
  show ?case
  proof (cases "p x")
    case True
    with Cons show ?thesis by auto
  next
    case False
    with Cons.prems(1) m consider "l = x # m" | "l \<in> set ms" by auto
    then show ?thesis
      using Cons.IH [of m] Cons.IH [of l] Cons.prems(2) m False by cases auto
  qed
qed

lemma join_Cons: "ls \<noteq> [] \<Longrightarrow> join sep (x # ls) = x @ sep @ join sep ls"
  by (cases ls) auto

lemma join_split_on: "join [d] (split_on (\<lambda>c. c = d) xs) = xs"
proof (induction xs)
  case Nil
  then show ?case by simp
next
  case (Cons x xs)
  obtain m ms where m: "split_on (\<lambda>c. c = d) xs = m # ms"
    by (cases "split_on (\<lambda>c. c = d) xs") auto
  show ?case
  proof (cases "x = d")
    case True
    with Cons show ?thesis by (simp add: join_Cons)
  next
    case False
    with Cons m show ?thesis by (cases ms) auto
  qed
qed

lemma split_on_eq_inject:
  "split_on (\<lambda>c. c = d) xs = split_on (\<lambda>c. c = d) ys \<longleftrightarrow> xs = ys"
  by (metis join_split_on)

text \<open>\<open>str::split_once\<close> at a one-byte pattern, \<open>str::contains\<close> and \<open>str::lines\<close>.\<close>

fun split_once :: "char \<Rightarrow> string \<Rightarrow> (string \<times> string) option" where
  "split_once d [] = None"
| "split_once d (c # cs) =
     (if c = d then Some ([], cs) else map_option (\<lambda>(k, v). (c # k, v)) (split_once d cs))"

lemma split_once_Some: "split_once d s = Some (k, v) \<longleftrightarrow> s = k @ d # v \<and> d \<notin> set k"
proof (induction s arbitrary: k)
  case Nil
  then show ?case by simp
next
  case (Cons c cs)
  show ?case
  proof (cases "c = d")
    case True
    then show ?thesis by (cases k) auto
  next
    case False
    with Cons show ?thesis by (cases k) auto
  qed
qed

lemma split_once_app: "d \<notin> set k \<Longrightarrow> split_once d (k @ d # v) = Some (k, v)"
  by (simp add: split_once_Some)

fun str_contains :: "string \<Rightarrow> string \<Rightarrow> bool" where
  "str_contains [] pat = (pat = [])"
| "str_contains (c # cs) pat = (take (length pat) (c # cs) = pat \<or> str_contains cs pat)"

definition strip_cr :: "string \<Rightarrow> string" where
  "strip_cr l = (if l \<noteq> [] \<and> last l = CHR 0x0D then butlast l else l)"

text \<open>
  Each line loses its line feed and a carriage return before it; text after the last line
  feed is a line of its own, kept as it is, when it is not empty.
\<close>

definition str_lines :: "string \<Rightarrow> string list" where
  "str_lines s =
     (let ps = split_on (\<lambda>c. c = newline) s
      in map strip_cr (butlast ps) @ (if last ps = [] then [] else [last ps]))"

section \<open>Trimming\<close>

text \<open>The UTF-8 encodings of the characters with the Unicode property White_Space.\<close>

definition white_space :: "bytes list" where
  "white_space = map (map char_of)
     ([[9], [10], [11], [12], [13], [32], [0xC2, 0x85], [0xC2, 0xA0], [0xE1, 0x9A, 0x80],
       [0xE2, 0x80, 0x80], [0xE2, 0x80, 0x81], [0xE2, 0x80, 0x82], [0xE2, 0x80, 0x83],
       [0xE2, 0x80, 0x84], [0xE2, 0x80, 0x85], [0xE2, 0x80, 0x86], [0xE2, 0x80, 0x87],
       [0xE2, 0x80, 0x88], [0xE2, 0x80, 0x89], [0xE2, 0x80, 0x8A], [0xE2, 0x80, 0xA8],
       [0xE2, 0x80, 0xA9], [0xE2, 0x80, 0xAF], [0xE2, 0x81, 0x9F], [0xE3, 0x80, 0x80]]
      :: nat list list)"

definition at_front :: "bytes list \<Rightarrow> bytes \<Rightarrow> bytes option" where
  "at_front ps s = find (\<lambda>p. p \<noteq> [] \<and> take (length p) s = p) ps"

lemma at_front_Some:
  "at_front ps s = Some p \<Longrightarrow> p \<in> set ps \<and> p \<noteq> [] \<and> take (length p) s = p"
  by (auto simp: at_front_def find_Some_iff)

function strip_front :: "bytes list \<Rightarrow> bytes \<Rightarrow> bytes" where
  "strip_front ps s =
     (case at_front ps s of None \<Rightarrow> s | Some p \<Rightarrow> strip_front ps (drop (length p) s))"
  by pat_completeness auto
termination
proof (relation "measure (\<lambda>(ps, s). length s)")
  fix ps s and p :: bytes
  assume "at_front ps s = Some p"
  then have p: "p \<noteq> []" "take (length p) s = p" by (auto dest: at_front_Some)
  then have "s \<noteq> []" by auto
  with p show "((ps, drop (length p) s), (ps, s)) \<in> measure (\<lambda>(ps, s). length s)"
    by simp
qed simp

declare strip_front.simps [simp del]

definition trim_start :: "string \<Rightarrow> string" where
  "trim_start s = strip_front white_space s"

definition trim_end :: "string \<Rightarrow> string" where
  "trim_end s = rev (strip_front (map rev white_space) (rev s))"

definition trim :: "string \<Rightarrow> string" where
  "trim s = trim_end (trim_start s)"

lemma strip_front_none [fmt_simps]: "at_front ps s = None \<Longrightarrow> strip_front ps s = s"
  by (subst strip_front.simps) simp

lemma strip_front_suffix: "\<exists>xs. s = xs @ strip_front ps s"
proof (induction ps s rule: strip_front.induct)
  case (1 ps s)
  show ?case
  proof (cases "at_front ps s")
    case None
    then show ?thesis by (simp add: strip_front_none)
  next
    case (Some p)
    then obtain xs where xs: "drop (length p) s = xs @ strip_front ps (drop (length p) s)"
      using 1 by blast
    have "strip_front ps s = strip_front ps (drop (length p) s)"
      using Some by (subst strip_front.simps) simp
    with xs have "s = (take (length p) s @ xs) @ strip_front ps s"
      by (metis append_assoc append_take_drop_id)
    then show ?thesis by blast
  qed
qed

lemma length_strip_front: "length (strip_front ps s) \<le> length s"
  using strip_front_suffix [of s ps] by (metis le_add2 length_append)

lemma set_strip_front: "set (strip_front ps s) \<subseteq> set s"
  using strip_front_suffix [of s ps] by (metis Un_upper2 set_append)

lemma set_trim: "set (trim s) \<subseteq> set s"
  using set_strip_front [of "map rev white_space" "rev (strip_front white_space s)"]
    set_strip_front [of white_space s]
  by (auto simp: trim_def trim_end_def trim_start_def)

lemma length_trim: "length (trim s) \<le> length s"
  using length_strip_front [of "map rev white_space" "rev (strip_front white_space s)"]
    length_strip_front [of white_space s]
  by (simp add: trim_def trim_end_def trim_start_def)

text \<open>Text with no white space at its ends is left alone.\<close>

definition visible :: "char \<Rightarrow> bool" where
  "visible c \<longleftrightarrow> 32 < byte c \<and> byte c < 128"

lemma white_space_ends: "list_all (\<lambda>p. p \<noteq> [] \<and> \<not> visible (hd p) \<and> \<not> visible (last p)) white_space"
  by (simp add: white_space_def visible_def)

lemma strip_visible:
  assumes "s = [] \<or> visible (hd s)" "list_all (\<lambda>p. p \<noteq> [] \<and> \<not> visible (hd p)) ps"
  shows "strip_front ps s = s"
proof -
  have "at_front ps s = None"
    using assms unfolding at_front_def find_None_iff list_all_iff
    by (metis hd_take length_greater_0_conv take_Nil)
  then show ?thesis by (rule strip_front_none)
qed

lemma trim_visible: "s = [] \<or> visible (hd s) \<and> visible (last s) \<Longrightarrow> trim s = s"
  using white_space_ends
  by (auto simp: trim_def trim_start_def trim_end_def strip_visible list_all_iff hd_rev)

section \<open>Decimal numbers\<close>

definition digit_char :: "nat \<Rightarrow> char" where
  "digit_char d = char_of (48 + d)"

definition digit_val :: "char \<Rightarrow> nat" where
  "digit_val c = byte c - 48"

fun show_nat :: "nat \<Rightarrow> string" where
  "show_nat n = (if n < 10 then [digit_char n] else show_nat (n div 10) @ [digit_char (n mod 10)])"

declare show_nat.simps [simp del]

definition show_int :: "int \<Rightarrow> string" where
  "show_int i = (if i < 0 then CHR ''-'' # show_nat (nat (- i)) else show_nat (nat i))"

fun digits_val :: "nat \<Rightarrow> string \<Rightarrow> nat option" where
  "digits_val acc [] = Some acc"
| "digits_val acc (c # cs) =
     (if is_ascii_digit c then digits_val (acc * 10 + digit_val c) cs else None)"

text \<open>
  \<open>str::parse\<close> for an unsigned integer: an optional plus sign, one digit at least, no
  overflow past the maximum.
\<close>

definition after_char :: "char \<Rightarrow> string \<Rightarrow> string option" where
  "after_char d s = (case s of [] \<Rightarrow> None | c # cs \<Rightarrow> if c = d then Some cs else None)"

definition parse_unsigned :: "nat \<Rightarrow> string \<Rightarrow> nat option" where
  "parse_unsigned w s =
     (let ds = (case after_char (CHR ''+'') s of Some cs \<Rightarrow> cs | None \<Rightarrow> s)
      in if ds = [] then None
         else case digits_val 0 ds of None \<Rightarrow> None
              | Some v \<Rightarrow> if v < 2 ^ w then Some v else None)"

definition parse_u64 :: "string \<Rightarrow> u64 option" where
  "parse_u64 s = map_option of_nat (parse_unsigned 64 s)"

definition parse_i32 :: "string \<Rightarrow> int option" where
  "parse_i32 s =
     (case after_char (CHR ''-'') s of
        Some cs \<Rightarrow>
          (if cs = [] then None
           else case digits_val 0 cs of None \<Rightarrow> None
                | Some v \<Rightarrow> if v \<le> 2 ^ 31 then Some (- int v) else None)
      | None \<Rightarrow> map_option int (parse_unsigned 31 s))"

lemma digit_char_props [simp]:
  assumes "d < 10"
  shows "is_ascii_digit (digit_char d)" and "digit_val (digit_char d) = d"
  using assms by (simp_all add: is_ascii_digit_def in_range_def digit_char_def digit_val_def)

lemma digits_val_append:
  "digits_val acc (xs @ ys) =
     (case digits_val acc xs of None \<Rightarrow> None | Some v \<Rightarrow> digits_val v ys)"
  by (induction xs arbitrary: acc) auto

lemma show_nat_not_Nil [simp]: "show_nat n \<noteq> []"
  by (subst show_nat.simps) simp

lemma show_nat_digits: "c \<in> set (show_nat n) \<Longrightarrow> is_ascii_digit c"
proof (induction n rule: show_nat.induct)
  case (1 n)
  show ?case
  proof (cases "n < 10")
    case True
    with "1.prems" show ?thesis by (subst (asm) show_nat.simps) simp
  next
    case False
    with "1.prems" have "c \<in> set (show_nat (n div 10)) \<or> c = digit_char (n mod 10)"
      by (subst (asm) show_nat.simps) auto
    with False 1 show ?thesis by auto
  qed
qed

lemma digits_val_show_nat: "digits_val 0 (show_nat n) = Some n"
proof (induction n rule: show_nat.induct)
  case (1 n)
  show ?case
  proof (cases "n < 10")
    case True
    then show ?thesis by (subst show_nat.simps) simp
  next
    case False
    with 1 have "digits_val 0 (show_nat (n div 10)) = Some (n div 10)" by simp
    with False show ?thesis by (subst show_nat.simps) (simp add: digits_val_append)
  qed
qed

lemma after_char_show_nat [simp]:
  "\<not> is_ascii_digit d \<Longrightarrow> after_char d (show_nat n) = None"
  using show_nat_digits [of d n]
  by (auto simp: after_char_def split: list.splits)

lemma sign_not_digit [simp]: "\<not> is_ascii_digit (CHR ''+'')" "\<not> is_ascii_digit (CHR ''-'')"
  by (auto simp: is_ascii_digit_def in_range_def byte_def)

lemma show_nat_inject [simp]: "show_nat m = show_nat n \<longleftrightarrow> m = n"
  by (metis digits_val_show_nat option.inject)

lemma parse_unsigned_show_nat: "n < 2 ^ w \<Longrightarrow> parse_unsigned w (show_nat n) = Some n"
  by (simp add: parse_unsigned_def digits_val_show_nat)

text \<open>Decimal printing and parsing of 64-bit values is a codec, but not an exact one.\<close>

interpretation dec64: text_codec show_nat "parse_unsigned 64" "\<lambda>n. n < 2 ^ 64"
  by unfold_locales (rule parse_unsigned_show_nat)

lemma parse_u64_show: "parse_u64 (show_nat (unat w)) = Some w"
proof -
  have "unat w < 2 ^ 64" by (rule unsigned_less [THEN order_less_le_trans]) simp
  then show ?thesis by (simp add: parse_u64_def dec64.dec_enc)
qed

section \<open>UTF-8\<close>

definition byte_at :: "bytes \<Rightarrow> nat \<Rightarrow> nat" where
  "byte_at s i = (if i < length s then byte (s ! i) else 0)"

definition cont :: "nat \<Rightarrow> bool" where
  "cont b \<longleftrightarrow> in_range 0x80 0xBF b"

definition second_ok :: "nat \<Rightarrow> nat \<Rightarrow> bool" where
  "second_ok b0 b =
     (if b0 = 0xE0 then in_range 0xA0 0xBF b
      else if b0 = 0xED then in_range 0x80 0x9F b
      else if b0 = 0xF0 then in_range 0x90 0xBF b
      else if b0 = 0xF4 then in_range 0x80 0x8F b
      else cont b)"

text \<open>
  The first character of non-empty bytes: whether it is well formed and how many bytes it
  takes, or how many bytes the maximal ill-formed prefix takes.
\<close>

definition utf8_head :: "bytes \<Rightarrow> bool \<times> nat" where
  "utf8_head s =
     (let b0 = byte_at s 0; b1 = byte_at s 1; b2 = byte_at s 2; b3 = byte_at s 3
      in if b0 < 0x80 then (True, 1)
         else if in_range 0xC2 0xDF b0 then (if cont b1 then (True, 2) else (False, 1))
         else if in_range 0xE0 0xEF b0 then
           (if \<not> second_ok b0 b1 then (False, 1)
            else if \<not> cont b2 then (False, 2) else (True, 3))
         else if in_range 0xF0 0xF4 b0 then
           (if \<not> second_ok b0 b1 then (False, 1)
            else if \<not> cont b2 then (False, 2)
            else if \<not> cont b3 then (False, 3) else (True, 4))
         else (False, 1))"

definition replacement :: bytes where
  "replacement = map char_of [0xEF, 0xBF, 0xBD :: nat]"

lemma utf8_head_pos: "0 < snd (utf8_head s)"
  by (auto simp: utf8_head_def Let_def)

function from_utf8_lossy :: "bytes \<Rightarrow> string" where
  "from_utf8_lossy s =
     (if s = [] then []
      else let (ok, n) = utf8_head s
           in (if ok then take n s else replacement) @ from_utf8_lossy (drop n s))"
  by pat_completeness auto
termination
proof (relation "measure length")
  fix s :: bytes and p :: "bool \<times> nat" and ok n
  assume "s \<noteq> []" and "p = utf8_head s" and "(ok, n) = p"
  then have "0 < n" using utf8_head_pos [of s] by (metis snd_conv)
  with \<open>s \<noteq> []\<close> show "(drop n s, s) \<in> measure length" by simp
qed simp

function valid_utf8 :: "bytes \<Rightarrow> bool" where
  "valid_utf8 s =
     (if s = [] then True
      else fst (utf8_head s) \<and> valid_utf8 (drop (snd (utf8_head s)) s))"
  by pat_completeness auto
termination
  by (relation "measure length") (auto simp: utf8_head_pos)

declare from_utf8_lossy.simps [simp del] valid_utf8.simps [simp del]

lemma from_utf8_lossy_Nil [simp]: "from_utf8_lossy [] = []"
  by (subst from_utf8_lossy.simps) simp

lemma valid_utf8_Nil [simp]: "valid_utf8 []"
  by (subst valid_utf8.simps) simp

lemma byte_at_zero: "\<not> i < length s \<Longrightarrow> byte_at s i = 0"
  by (simp add: byte_at_def)

lemma not_cont_0 [simp]: "\<not> cont 0" "\<not> second_ok b 0"
  by (auto simp: cont_def second_ok_def in_range_def)

text \<open>A well formed first character lies within the bytes and depends on its bytes only.\<close>

lemma utf8_head_ok_len:
  assumes "utf8_head s = (True, n)" and "s \<noteq> []"
  shows "n \<le> length s"
proof (rule ccontr)
  assume "\<not> n \<le> length s"
  then have "length s < n" by simp
  with assms show False
    using byte_at_zero [of 1 s] byte_at_zero [of 2 s] byte_at_zero [of 3 s]
    by (cases s) (auto simp: utf8_head_def Let_def split: if_splits)
qed

lemma byte_at_take_append: "i < n \<Longrightarrow> n \<le> length s \<Longrightarrow> byte_at (take n s @ r) i = byte_at s i"
  by (simp add: byte_at_def nth_append)

lemma utf8_head_take:
  assumes h: "utf8_head s = (True, n)" and "s \<noteq> []"
  shows "utf8_head (take n s @ r) = (True, n)"
proof -
  have n: "n \<le> length s" "0 < n"
    using assms utf8_head_ok_len utf8_head_pos [of s] by auto
  consider "n = 1" | "n = 2" | "n = 3" | "n = 4"
    using h by (auto simp: utf8_head_def Let_def split: if_splits)
  then show ?thesis
  proof cases
    case 1
    with h n byte_at_take_append [of 0 n s r] show ?thesis
      by (auto simp: utf8_head_def Let_def split: if_splits)
  next
    case 2
    with h n byte_at_take_append [of 0 n s r] byte_at_take_append [of 1 n s r] show ?thesis
      by (auto simp: utf8_head_def Let_def split: if_splits)
  next
    case 3
    with h n byte_at_take_append [of 0 n s r] byte_at_take_append [of 1 n s r]
      byte_at_take_append [of 2 n s r]
    show ?thesis by (auto simp: utf8_head_def Let_def split: if_splits)
  next
    case 4
    with h n byte_at_take_append [of 0 n s r] byte_at_take_append [of 1 n s r]
      byte_at_take_append [of 2 n s r] byte_at_take_append [of 3 n s r]
    show ?thesis by (auto simp: utf8_head_def Let_def split: if_splits)
  qed
qed

lemma valid_utf8_cons:
  assumes "utf8_head s = (True, n)" and "s \<noteq> []" and "valid_utf8 r"
  shows "valid_utf8 (take n s @ r)"
proof -
  have "length (take n s) = n" using utf8_head_ok_len [OF assms(1,2)] by simp
  then have "drop n (take n s @ r) = r" by simp
  with assms(3) utf8_head_take [OF assms(1,2)] show ?thesis
    by (subst valid_utf8.simps) auto
qed

lemma utf8_head_replacement: "utf8_head (replacement @ r) = (True, 3)"
  by (simp add: utf8_head_def replacement_def byte_at_def in_range_def second_ok_def cont_def Let_def)

lemma valid_utf8_replacement: "valid_utf8 r \<Longrightarrow> valid_utf8 (replacement @ r)"
  using utf8_head_replacement [of r]
  by (subst valid_utf8.simps) (simp add: replacement_def)

lemma lossy_step:
  assumes "s \<noteq> []"
  shows "from_utf8_lossy s =
    (if fst (utf8_head s) then take (snd (utf8_head s)) s else replacement) @
    from_utf8_lossy (drop (snd (utf8_head s)) s)"
  using assms by (subst from_utf8_lossy.simps) (simp add: case_prod_beta Let_def)

lemma lossy_valid: "valid_utf8 s \<Longrightarrow> from_utf8_lossy s = s"
proof (induction s rule: valid_utf8.induct)
  case (1 s)
  show ?case
  proof (cases "s = []")
    case False
    with "1.prems" have "fst (utf8_head s)" "valid_utf8 (drop (snd (utf8_head s)) s)"
      by (subst (asm) valid_utf8.simps, simp)+
    with False 1 show ?thesis by (simp add: lossy_step)
  qed simp
qed

lemma utf8_induct [case_names Nil Char Bad]:
  assumes "P []"
    and "\<And>s n. s \<noteq> [] \<Longrightarrow> utf8_head s = (True, n) \<Longrightarrow> n \<le> length s \<Longrightarrow> P (drop n s) \<Longrightarrow> P s"
    and "\<And>s n. s \<noteq> [] \<Longrightarrow> utf8_head s = (False, n) \<Longrightarrow> 0 < n \<Longrightarrow> P (drop n s) \<Longrightarrow> P s"
  shows "P s"
proof (induction s rule: length_induct)
  case (1 s)
  obtain ok n where h: "utf8_head s = (ok, n)" by fastforce
  then have "0 < n" using utf8_head_pos [of s] by simp
  show ?case
  proof (cases "s = []")
    case False
    with \<open>0 < n\<close> have "length (drop n s) < length s" by simp
    with 1 have P: "P (drop n s)" by blast
    show ?thesis
    proof (cases ok)
      case True
      with h have "utf8_head s = (True, n)" by simp
      with False P show ?thesis using assms(2) utf8_head_ok_len by blast
    next
      case False
      with h have "utf8_head s = (False, n)" by simp
      with \<open>s \<noteq> []\<close> P \<open>0 < n\<close> show ?thesis using assms(3) by blast
    qed
  qed (use assms(1) in simp)
qed

lemma valid_lossy: "valid_utf8 (from_utf8_lossy s)"
  by (induction s rule: utf8_induct)
    (simp_all add: lossy_step valid_utf8_cons valid_utf8_replacement)

lemma length_lossy: "length (from_utf8_lossy s) \<le> 3 * length s"
proof (induction s rule: utf8_induct)
  case (Bad s n)
  then have "3 * (length s - n) + 3 \<le> 3 * length s" by (cases s) auto
  with Bad show ?case by (simp add: lossy_step replacement_def)
qed (auto simp: lossy_step)

lemma lossy_idem: "from_utf8_lossy (from_utf8_lossy s) = from_utf8_lossy s"
  by (rule lossy_valid [OF valid_lossy])

end
