(* ===== verification/Judge_Verdict.thy ===== *)
theory Judge_Verdict
  imports Bytes
begin

text \<open>
  \<open>crates/judge/src/verdict.rs\<close>: the verdicts, their wire codes, and the results of one test
  and of one submission. The codes are an exact codec: what \<open>code\<close> writes is what
  \<open>from_code\<close> reads, and nothing else is read.
\<close>

datatype verdict =
    Accepted | WrongAnswer | TimeLimitExceeded | MemoryLimitExceeded
  | RuntimeError | CompileError | OutputLimitExceeded | InternalError

fun code :: "verdict \<Rightarrow> string" where
  "code Accepted = ''AC''"
| "code WrongAnswer = ''WA''"
| "code TimeLimitExceeded = ''TLE''"
| "code MemoryLimitExceeded = ''MLE''"
| "code RuntimeError = ''RE''"
| "code CompileError = ''CE''"
| "code OutputLimitExceeded = ''OLE''"
| "code InternalError = ''IE''"

definition from_code :: "string \<Rightarrow> verdict option" where
  "from_code c =
     (if c = ''AC'' then Some Accepted
      else if c = ''WA'' then Some WrongAnswer
      else if c = ''TLE'' then Some TimeLimitExceeded
      else if c = ''MLE'' then Some MemoryLimitExceeded
      else if c = ''RE'' then Some RuntimeError
      else if c = ''CE'' then Some CompileError
      else if c = ''OLE'' then Some OutputLimitExceeded
      else if c = ''IE'' then Some InternalError
      else None)"

record test_result =
  tr_name :: string
  tr_verdict :: verdict
  tr_time_ms :: u64
  tr_memory_kb :: u64
  tr_message :: "string option"
  tr_input :: "string option"
  tr_expected :: "string option"
  tr_stdout :: "string option"
  tr_stderr :: "string option"

record judge_result =
  jr_verdict :: verdict
  jr_time_ms :: u64
  jr_memory_kb :: u64
  jr_failed_test :: "string option"
  jr_compile_output :: "string option"
  jr_tests :: "test_result list"
  jr_tests_total :: nat

interpretation verdict_codec: exact_codec code from_code "\<lambda>_. True"
proof
  show "from_code (code v) = Some v" for v
    by (cases v) (simp_all add: from_code_def)
  show "True \<and> code v = c" if "from_code c = Some v" for c v
    using that by (auto simp: from_code_def split: if_splits)
qed

lemmas from_code_code [simp] = verdict_codec.dec_enc [simplified]

text \<open>\<open>Verdict::code\<close> and \<open>Verdict::from_code\<close> are inverse: a code is read back as the
verdict that wrote it, and a text that is no verdict's code is refused.\<close>

lemma verdict_code_exact: "from_code c = Some v \<longleftrightarrow> code v = c"
  using verdict_codec.dec_Some_iff [of c v] by simp

end
