(* ===== verification/Rust_F64.thy ===== *)
theory Rust_F64
  imports Complex_Main Bytes
begin

text \<open>
  The program's floating point: \<open>f64\<close> values as exact rationals with the two infinities and
  NaN, rounded to the nearest representable value (ties to even) after every operation, as
  IEEE 754 double precision does. The sign of a zero is not kept: no comparison,
  conversion or decimal of the program shows it. Only the hashed \<open>Debug\<close> text of a tolerance
  (\<open>problem.rs\<close> 130-133) would: problems that differ in nothing but \<open>0.0\<close> and \<open>-0.0\<close> there are the
  same problem here, and accept the same outputs. Decimal parsing and the three-digit fixed formatting are those of
  the Rust standard library.
\<close>

section \<open>Values and rounding\<close>

datatype f64 = NaN | Inf bool | Fin rat

text \<open>\<open>Inf True\<close> is minus infinity.\<close>

definition round_even :: "rat \<Rightarrow> int" where
  "round_even x =
     (let n = \<lfloor>x\<rfloor>; r = x - of_int n
      in if r < 1 / 2 then n else if 1 / 2 < r then n + 1 else if even n then n else n + 1)"

function int_log2 :: "int \<Rightarrow> nat" where
  "int_log2 n = (if n < 2 then 0 else Suc (int_log2 (n div 2)))"
  by pat_completeness auto
termination
  by (relation "measure nat") auto

declare int_log2.simps [simp del]

text \<open>The exponent \<open>e\<close> with \<open>2 powi e \<le> x < 2 powi (e + 1)\<close>, for positive \<open>x\<close>.\<close>

definition rat_log2 :: "rat \<Rightarrow> int" where
  "rat_log2 x =
     (let (p, q) = quotient_of x; k = int (int_log2 p) - int (int_log2 q)
      in if x < 2 powi k then k - 1 else k)"

definition quantum :: "rat \<Rightarrow> int" where
  "quantum x = max (rat_log2 x - 52) (- 1074)"

text \<open>The magnitude of a non-negative rational, rounded to 53 bits (fewer when subnormal).\<close>

definition round_mag :: "rat \<Rightarrow> rat" where
  "round_mag x =
     (if x = 0 then 0
      else of_int (round_even (x / 2 powi quantum x)) * 2 powi quantum x)"

definition f64_of_rat :: "rat \<Rightarrow> f64" where
  "f64_of_rat x =
     (let v = round_mag \<bar>x\<bar>
      in if 2 ^ 1024 \<le> v then Inf (x < 0) else Fin (if x < 0 then - v else v))"

section \<open>Operations\<close>

definition f64_of_u64 :: "u64 \<Rightarrow> f64" where
  "f64_of_u64 w = f64_of_rat (of_int (uint w))"

fun f64_is_finite :: "f64 \<Rightarrow> bool" where
  "f64_is_finite (Fin x) = True"
| "f64_is_finite _ = False"

fun f64_le :: "f64 \<Rightarrow> f64 \<Rightarrow> bool" where
  "f64_le NaN _ = False"
| "f64_le _ NaN = False"
| "f64_le (Inf True) _ = True"
| "f64_le (Inf False) y = (y = Inf False)"
| "f64_le (Fin x) (Fin y) = (x \<le> y)"
| "f64_le (Fin x) (Inf n) = (\<not> n)"

fun f64_neg :: "f64 \<Rightarrow> f64" where
  "f64_neg NaN = NaN"
| "f64_neg (Inf n) = Inf (\<not> n)"
| "f64_neg (Fin x) = Fin (- x)"

fun f64_add :: "f64 \<Rightarrow> f64 \<Rightarrow> f64" where
  "f64_add (Fin x) (Fin y) = f64_of_rat (x + y)"
| "f64_add NaN _ = NaN"
| "f64_add _ NaN = NaN"
| "f64_add (Inf m) (Inf n) = (if m = n then Inf m else NaN)"
| "f64_add (Inf m) _ = Inf m"
| "f64_add _ (Inf n) = Inf n"

definition f64_sub :: "f64 \<Rightarrow> f64 \<Rightarrow> f64" where
  "f64_sub x y = f64_add x (f64_neg y)"

fun f64_mul :: "f64 \<Rightarrow> f64 \<Rightarrow> f64" where
  "f64_mul (Fin x) (Fin y) = f64_of_rat (x * y)"
| "f64_mul NaN _ = NaN"
| "f64_mul _ NaN = NaN"
| "f64_mul (Inf m) (Inf n) = Inf (m \<noteq> n)"
| "f64_mul (Inf m) (Fin y) = (if y = 0 then NaN else Inf (m \<noteq> (y < 0)))"
| "f64_mul (Fin x) (Inf n) = (if x = 0 then NaN else Inf ((x < 0) \<noteq> n))"

fun f64_abs :: "f64 \<Rightarrow> f64" where
  "f64_abs NaN = NaN"
| "f64_abs (Inf n) = Inf False"
| "f64_abs (Fin x) = Fin \<bar>x\<bar>"

text \<open>\<open>f64::max(0.0)\<close> returns the other operand for NaN.\<close>

fun f64_max0 :: "f64 \<Rightarrow> f64" where
  "f64_max0 NaN = Fin 0"
| "f64_max0 (Inf n) = (if n then Fin 0 else Inf False)"
| "f64_max0 (Fin x) = Fin (max x 0)"

fun f64_ceil :: "f64 \<Rightarrow> f64" where
  "f64_ceil (Fin x) = Fin (of_int \<lceil>x\<rceil>)"
| "f64_ceil x = x"

text \<open>\<open>f64::round\<close>: to the nearest integer, halves away from zero.\<close>

fun f64_round :: "f64 \<Rightarrow> f64" where
  "f64_round (Fin x) =
     Fin (of_int (if x < 0 then - \<lfloor>1 / 2 - x\<rfloor> else \<lfloor>x + 1 / 2\<rfloor>))"
| "f64_round x = x"

text \<open>\<open>as u64\<close> truncates and saturates; NaN becomes 0.\<close>

fun f64_as_u64 :: "f64 \<Rightarrow> u64" where
  "f64_as_u64 NaN = 0"
| "f64_as_u64 (Inf n) = (if n then 0 else - 1)"
| "f64_as_u64 (Fin x) =
     (if x < 0 then 0 else if 2 ^ 64 \<le> x then - 1 else word_of_int \<lfloor>x\<rfloor>)"

section \<open>Parsing\<close>

fun ascii_lower :: "string \<Rightarrow> string" where
  "ascii_lower [] = []"
| "ascii_lower (c # cs) =
     (if is_ascii_uppercase c then char_of (byte c + 32) else c) # ascii_lower cs"

fun take_digits :: "string \<Rightarrow> string \<times> string" where
  "take_digits [] = ([], [])"
| "take_digits (c # cs) =
     (if is_ascii_digit c then (let (ds, r) = take_digits cs in (c # ds, r)) else ([], c # cs))"

definition digits_int :: "string \<Rightarrow> int" where
  "digits_int ds = foldl (\<lambda>acc c. acc * 10 + int (digit_val c)) 0 ds"

text \<open>The optional exponent after a number; \<open>None\<close> for anything else that is left.\<close>

definition parse_exponent :: "string \<Rightarrow> int option" where
  "parse_exponent s =
     (case s of [] \<Rightarrow> Some 0
      | c # cs \<Rightarrow>
          if c = CHR ''e'' \<or> c = CHR ''E'' then
            (let neg = (after_char (CHR ''-'') cs \<noteq> None);
                 ds = (case after_char (CHR ''-'') cs of Some r \<Rightarrow> r
                       | None \<Rightarrow> (case after_char (CHR ''+'') cs of Some r \<Rightarrow> r | None \<Rightarrow> cs))
             in if ds = [] \<or> list_ex (\<lambda>d. \<not> is_ascii_digit d) ds then None
                else Some (if neg then - digits_int ds else digits_int ds))
          else None)"

definition parse_decimal :: "string \<Rightarrow> rat option" where
  "parse_decimal s =
     (let (ip, r) = take_digits s;
          (fp, r') = (case after_char (CHR ''.'') r of Some t \<Rightarrow> take_digits t | None \<Rightarrow> ([], r))
      in if ip = [] \<and> fp = [] then None
         else map_option
           (\<lambda>e. of_int (digits_int (ip @ fp)) * 10 powi (e - int (length fp)))
           (parse_exponent r'))"

definition parse_f64 :: "string \<Rightarrow> f64 option" where
  "parse_f64 s =
     (let neg = (after_char (CHR ''-'') s \<noteq> None);
          t = (case after_char (CHR ''-'') s of Some r \<Rightarrow> r
               | None \<Rightarrow> (case after_char (CHR ''+'') s of Some r \<Rightarrow> r | None \<Rightarrow> s))
      in if ascii_lower t = ''nan'' then Some NaN
         else if ascii_lower t = ''inf'' \<or> ascii_lower t = ''infinity'' then Some (Inf neg)
         else map_option (\<lambda>x. f64_of_rat (if neg then - x else x)) (parse_decimal t))"

section \<open>Durations in seconds\<close>

text \<open>
  A \<open>Duration\<close> is a number of nanoseconds; \<open>as_secs_f64\<close> adds the whole seconds and the
  fraction in floating point, and \<open>{:.3}\<close> rounds the exact value to three decimals.
\<close>

type_synonym duration = nat

definition from_millis :: "u64 \<Rightarrow> duration" where
  "from_millis ms = unat ms * 10 ^ 6"

fun f64_div :: "f64 \<Rightarrow> rat \<Rightarrow> f64" where
  "f64_div (Fin x) d = f64_of_rat (x / d)"
| "f64_div (Inf n) d = Inf (n \<noteq> (d < 0))"
| "f64_div NaN d = NaN"

definition as_secs_f64 :: "duration \<Rightarrow> f64" where
  "as_secs_f64 d =
     f64_add (f64_of_rat (of_nat (d div 10 ^ 9)))
       (f64_div (f64_of_rat (of_nat (d mod 10 ^ 9))) (10 ^ 9))"

definition pad3 :: "nat \<Rightarrow> string" where
  "pad3 n = [digit_char (n div 100 mod 10), digit_char (n div 10 mod 10), digit_char (n mod 10)]"

definition millis_text :: "nat \<Rightarrow> string" where
  "millis_text m = show_nat (m div 1000) @ ''.'' @ pad3 (m mod 1000)"

fun fixed3 :: "f64 \<Rightarrow> string" where
  "fixed3 NaN = ''NaN''"
| "fixed3 (Inf n) = (if n then ''-inf'' else ''inf'')"
| "fixed3 (Fin x) =
     (if x < 0 then ''-'' else '''') @ millis_text (nat (round_even (\<bar>x\<bar> * 1000)))"

section \<open>Rounding is faithful and monotone\<close>

lemma round_even_mono: "x \<le> y \<Longrightarrow> round_even x \<le> round_even y"
proof -
  assume xy: "x \<le> y"
  then have f: "\<lfloor>x\<rfloor> \<le> \<lfloor>y\<rfloor>" by (rule floor_mono)
  show ?thesis
  proof (cases "\<lfloor>x\<rfloor> = \<lfloor>y\<rfloor>")
    case True
    with xy show ?thesis by (auto simp: round_even_def Let_def)
  next
    case False
    with f have "\<lfloor>x\<rfloor> + 1 \<le> \<lfloor>y\<rfloor>" by simp
    then show ?thesis by (auto simp: round_even_def Let_def)
  qed
qed

lemma round_even_of_int [simp]: "round_even (of_int n) = n"
  by (simp add: round_even_def)

lemma round_even_dist: "\<bar>of_int (round_even x) - x\<bar> \<le> 1 / 2"
proof -
  have "of_int \<lfloor>x\<rfloor> \<le> x" "x < of_int \<lfloor>x\<rfloor> + 1" by linarith+
  then show ?thesis by (auto simp: round_even_def Let_def abs_le_iff)
qed

lemma round_even_near: "\<bar>x - of_int n\<bar> < 1 / 2 \<Longrightarrow> round_even x = n"
  using round_even_dist [of x] by linarith

lemma int_log2_bounds: "0 < n \<Longrightarrow> 2 ^ int_log2 n \<le> n \<and> n < 2 ^ Suc (int_log2 n)"
proof (induction n rule: int_log2.induct)
  case (1 n)
  show ?case
  proof (cases "n < 2")
    case True
    with "1.prems" show ?thesis by (simp add: int_log2.simps [of n])
  next
    case False
    define a where "a = (2 :: int) ^ int_log2 (n div 2)"
    have "a \<le> n div 2 \<and> n div 2 < 2 * a"
      using 1 False by (simp add: a_def)
    then have "2 * a \<le> n" "n < 2 * (2 * a)" by auto
    with False show ?thesis by (simp add: int_log2.simps [of n] a_def)
  qed
qed

lemma int_log2_rat:
  assumes "0 < n"
  shows "(2 :: rat) ^ int_log2 n \<le> of_int n" and "of_int n < (2 :: rat) * 2 ^ int_log2 n"
proof -
  have "(of_int (2 ^ int_log2 n) :: rat) \<le> of_int n"
    using int_log2_bounds [OF assms] by (intro of_int_le_iff [THEN iffD2]) simp
  then show "(2 :: rat) ^ int_log2 n \<le> of_int n" by simp
  have "(of_int n :: rat) < of_int (2 * 2 ^ int_log2 n)"
    using int_log2_bounds [OF assms] by (intro of_int_less_iff [THEN iffD2]) simp
  then show "of_int n < (2 :: rat) * 2 ^ int_log2 n" by simp
qed

lemma powi_less: "m < n \<Longrightarrow> (2 :: rat) powi m < 2 powi n"
  by (rule power_int_strict_increasing) simp_all

lemma powi_le: "m \<le> n \<Longrightarrow> (2 :: rat) powi m \<le> 2 powi n"
  by (rule power_int_increasing) simp_all

lemma powi_pos [simp]: "0 < (2 :: rat) powi n"
  by simp

lemma powi_add1: "(2 :: rat) powi (n + 1) = 2 * 2 powi n"
  by (simp add: power_int_add)

lemma rat_log2_bounds:
  assumes "0 < x"
  shows "2 powi rat_log2 x \<le> x \<and> x < 2 powi (rat_log2 x + 1)"
proof -
  obtain p q where pq: "quotient_of x = (p, q)" by fastforce
  then have x: "x = of_int p / of_int q" and q: "0 < q"
    by (auto simp: quotient_of_div quotient_of_denom_pos)
  with assms have p: "0 < p" by (simp add: zero_less_divide_iff)
  let ?a = "int_log2 p" and ?b = "int_log2 q"
  have b: "(2::rat) ^ ?a \<le> of_int p" "of_int p < (2::rat) * 2 ^ ?a"
    "(2::rat) ^ ?b \<le> of_int q" "of_int q < (2::rat) * 2 ^ ?b"
    using int_log2_rat [OF p] int_log2_rat [OF q] by simp_all
  let ?k = "int ?a - int ?b"
  have k: "(2::rat) powi ?k = 2 ^ ?a / 2 ^ ?b"
    by (simp add: power_int_diff)
  have "x < 2 * 2 ^ ?a / 2 ^ ?b"
    unfolding x using b q p by (intro frac_less) simp_all
  then have up: "x < 2 powi (?k + 1)" by (simp add: powi_add1 k)
  have "2 ^ ?a / (2 * 2 ^ ?b) < x"
    unfolding x using b q p by (intro frac_less2) simp_all
  then have lo: "2 powi ?k < 2 * x" by (simp add: k)
  then have lo: "2 powi (?k - 1) < x" using powi_add1 [of "?k - 1"] by simp
  show ?thesis
    using up lo pq by (auto simp: rat_log2_def Let_def)
qed

lemma rat_log2_mono: "0 < x \<Longrightarrow> x \<le> y \<Longrightarrow> rat_log2 x \<le> rat_log2 y"
proof (rule ccontr)
  assume "0 < x" "x \<le> y" "\<not> rat_log2 x \<le> rat_log2 y"
  then have "2 powi (rat_log2 y + 1) \<le> (2 :: rat) powi rat_log2 x" by (intro powi_le) simp
  also have "\<dots> \<le> x" using rat_log2_bounds [OF \<open>0 < x\<close>] by simp
  also have "\<dots> \<le> y" by fact
  also have "y < 2 powi (rat_log2 y + 1)"
    using rat_log2_bounds [of y] \<open>0 < x\<close> \<open>x \<le> y\<close> by simp
  finally show False by simp
qed

text \<open>Rounding stays within the binade, its upper end included.\<close>

lemma powi_div_quantum:
  assumes "quantum x \<le> n"
  shows "(2 :: rat) powi n / 2 powi quantum x = of_int (2 ^ nat (n - quantum x))"
proof -
  have "(2 :: rat) powi n / 2 powi quantum x = 2 powi (n - quantum x)"
    by (simp add: power_int_diff)
  also have "\<dots> = 2 ^ nat (n - quantum x)"
    using assms by (simp add: power_int_def)
  finally show ?thesis by simp
qed

lemma round_mag_le_powi:
  assumes "0 < x" "x \<le> 2 powi n" "quantum x \<le> n"
  shows "round_mag x \<le> 2 powi n"
proof -
  have "round_even (x / 2 powi quantum x) \<le> round_even (2 powi n / 2 powi quantum x)"
    using assms by (intro round_even_mono divide_right_mono) simp_all
  also have "\<dots> = 2 ^ nat (n - quantum x)"
    unfolding powi_div_quantum [OF assms(3)] by (rule round_even_of_int)
  finally have "of_int (round_even (x / 2 powi quantum x)) \<le> (of_int (2 ^ nat (n - quantum x)) :: rat)"
    by (rule of_int_le_iff [THEN iffD2])
  then have "of_int (round_even (x / 2 powi quantum x)) \<le> (2 :: rat) powi n / 2 powi quantum x"
    unfolding powi_div_quantum [OF assms(3)] .
  with assms(1) show ?thesis by (simp add: round_mag_def field_simps)
qed

lemma round_mag_ge_powi:
  assumes "0 < x" "2 powi n \<le> x" "quantum x \<le> n"
  shows "2 powi n \<le> round_mag x"
proof -
  have "2 ^ nat (n - quantum x) = round_even (2 powi n / 2 powi quantum x)"
    unfolding powi_div_quantum [OF assms(3)] by (rule round_even_of_int [symmetric])
  also have "\<dots> \<le> round_even (x / 2 powi quantum x)"
    using assms by (intro round_even_mono divide_right_mono) simp_all
  finally have "(of_int (2 ^ nat (n - quantum x)) :: rat) \<le> of_int (round_even (x / 2 powi quantum x))"
    by (rule of_int_le_iff [THEN iffD2])
  then have "(2 :: rat) powi n / 2 powi quantum x \<le> of_int (round_even (x / 2 powi quantum x))"
    unfolding powi_div_quantum [OF assms(3)] .
  with assms(1) show ?thesis by (simp add: round_mag_def field_simps)
qed

lemma quantum_le: "quantum x \<le> n \<longleftrightarrow> rat_log2 x - 52 \<le> n \<and> - 1074 \<le> n"
  by (simp add: quantum_def)

lemma round_mag_nonneg: "0 \<le> x \<Longrightarrow> 0 \<le> round_mag x"
  using round_even_mono [of 0 "x / 2 powi quantum x"] round_even_of_int [of 0]
  by (simp add: round_mag_def)

lemma round_mag_mono:
  assumes "0 \<le> x" "x \<le> y"
  shows "round_mag x \<le> round_mag y"
proof (cases "x = 0")
  case True
  with assms show ?thesis using round_mag_nonneg [of y] by (simp add: round_mag_def)
next
  case False
  with assms have x: "0 < x" and y: "0 < y" by simp_all
  have l: "rat_log2 x \<le> rat_log2 y" using x assms(2) by (rule rat_log2_mono)
  show ?thesis
  proof (cases "quantum x = quantum y")
    case True
    have "round_even (x / 2 powi quantum y) \<le> round_even (y / 2 powi quantum y)"
      using assms by (intro round_even_mono divide_right_mono) simp_all
    then have "(of_int (round_even (x / 2 powi quantum y)) :: rat) \<le> of_int (round_even (y / 2 powi quantum y))"
      by simp
    with x y True show ?thesis by (simp add: round_mag_def mult_right_mono)
  next
    case False
    with l have ly: "rat_log2 x < rat_log2 y" "- 1074 < rat_log2 y - 52"
      by (auto simp: quantum_def split: if_splits)
    have "round_mag x \<le> 2 powi (rat_log2 y)"
    proof (rule round_mag_le_powi [OF x])
      have "x \<le> 2 powi (rat_log2 x + 1)" using rat_log2_bounds [OF x] by simp
      also have "\<dots> \<le> 2 powi rat_log2 y" using ly(1) by (intro powi_le) simp
      finally show "x \<le> 2 powi rat_log2 y" .
      show "quantum x \<le> rat_log2 y" using ly by (simp add: quantum_le)
    qed
    also have "\<dots> \<le> round_mag y"
      using rat_log2_bounds [OF y] ly by (intro round_mag_ge_powi y) (simp_all add: quantum_le)
    finally show ?thesis .
  qed
qed

text \<open>Integers below \<open>2 ^ 53\<close> are exact.\<close>

lemma round_mag_exact:
  assumes "0 \<le> n" "n < 2 ^ 53"
  shows "round_mag (of_int n) = of_int n"
proof (cases "n = 0")
  case True
  then show ?thesis by (simp add: round_mag_def)
next
  case False
  with assms have n: "0 < (of_int n :: rat)" by simp
  have "(of_int n :: rat) < of_int (2 ^ 53)" using assms(2) by (rule of_int_less_iff [THEN iffD2])
  then have "(2 :: rat) powi rat_log2 (of_int n) < 2 powi 53"
    using rat_log2_bounds [OF n] by simp
  then have "rat_log2 (of_int n) < 53" using powi_le [of 53 "rat_log2 (of_int n)"] by force
  then have k: "quantum (of_int n) \<le> 0" by (simp add: quantum_le)
  have "of_int n / 2 powi quantum (of_int n) = (of_int n :: rat) * 2 powi (- quantum (of_int n))"
    by (simp add: power_int_minus divide_inverse)
  also have "\<dots> = of_int (n * 2 ^ nat (- quantum (of_int n)))"
    using k by (simp add: power_int_def)
  finally have e: "of_int n / 2 powi quantum (of_int n) = (of_int (n * 2 ^ nat (- quantum (of_int n))) :: rat)" .
  have "of_int (round_even (of_int n / 2 powi quantum (of_int n))) = (of_int n :: rat) / 2 powi quantum (of_int n)"
    by (simp only: e round_even_of_int)
  with n show ?thesis by (simp add: round_mag_def)
qed

text \<open>The rounding error is half a unit in the last place, at most.\<close>

lemma round_mag_error:
  assumes "0 < x" "2 powi (- 1022) \<le> x"
  shows "\<bar>round_mag x - x\<bar> \<le> x / 2 ^ 53"
proof -
  have "- 1022 \<le> rat_log2 x"
  proof (rule ccontr)
    assume "\<not> - 1022 \<le> rat_log2 x"
    then have "2 powi (rat_log2 x + 1) \<le> (2 :: rat) powi (- 1022)" by (intro powi_le) simp
    with assms rat_log2_bounds [OF assms(1)] show False by simp
  qed
  then have k: "quantum x = rat_log2 x - 52" by (simp add: quantum_def)
  have "\<bar>round_mag x - x\<bar> = \<bar>of_int (round_even (x / 2 powi quantum x)) - x / 2 powi quantum x\<bar> * 2 powi quantum x"
  proof -
    have "round_mag x - x = (of_int (round_even (x / 2 powi quantum x)) - x / 2 powi quantum x) * 2 powi quantum x"
      using assms(1) by (simp add: round_mag_def left_diff_distrib)
    then show ?thesis by (simp only: abs_mult) simp
  qed
  also have "\<dots> \<le> 1 / 2 * 2 powi quantum x"
    by (intro mult_right_mono round_even_dist) simp
  also have "\<dots> = 2 powi rat_log2 x / 2 ^ 53"
    unfolding k by (simp add: power_int_diff)
  also have "\<dots> \<le> x / 2 ^ 53"
    using rat_log2_bounds [OF assms(1)] by (simp add: divide_right_mono)
  finally show ?thesis .
qed

text \<open>The consequences the components use: conversions of exact integers, and the limits.\<close>

lemma f64_of_rat_nonneg:
  "0 \<le> x \<Longrightarrow> round_mag x < 2 ^ 1024 \<Longrightarrow> f64_of_rat x = Fin (round_mag x)"
  by (simp add: f64_of_rat_def Let_def not_le [symmetric])

lemma round_mag_exact_nat: "n < 2 ^ 53 \<Longrightarrow> round_mag (of_nat n) = of_nat n"
  using round_mag_exact [of "int n"] by simp

lemma f64_of_nat_exact:
  assumes "n < 2 ^ 53"
  shows "f64_of_rat (of_nat n) = Fin (of_nat n)"
proof -
  have "(of_nat n :: rat) < of_nat (2 ^ 1024)"
    using assms by (intro of_nat_less_iff [THEN iffD2]) simp
  with assms show ?thesis by (simp add: f64_of_rat_nonneg round_mag_exact_nat)
qed

lemma round_mag_ge_nat: "n < 2 ^ 53 \<Longrightarrow> of_nat n \<le> x \<Longrightarrow> of_nat n \<le> round_mag x"
  using round_mag_mono [of "of_nat n" x] by (simp add: round_mag_exact_nat)

lemma round_mag_le_nat: "0 \<le> x \<Longrightarrow> n < 2 ^ 53 \<Longrightarrow> x \<le> of_nat n \<Longrightarrow> round_mag x \<le> of_nat n"
  using round_mag_mono [of x "of_nat n"] by (simp add: round_mag_exact_nat)

lemma f64_abs_of_rat:
  "round_mag \<bar>z\<bar> < 2 ^ 1024 \<Longrightarrow> f64_abs (f64_of_rat z) = Fin (round_mag \<bar>z\<bar>)"
  using round_mag_nonneg [of "\<bar>z\<bar>"] by (simp add: f64_of_rat_def Let_def not_le [symmetric])

lemma round_mag_0 [simp]: "round_mag 0 = 0"
  by (simp add: round_mag_def)

lemma f64_of_rat_0 [simp]: "f64_of_rat 0 = Fin 0"
  by (simp add: f64_of_rat_def)

lemma round_mag_near:
  assumes "x = 0 \<or> 1 / 2 ^ 20 \<le> x"
  shows "\<bar>round_mag x - x\<bar> \<le> x / 2 ^ 53"
proof (cases "x = 0")
  case False
  with assms have x: "1 / 2 ^ 20 \<le> x" by simp
  have "(2 :: rat) powi (- 1022) \<le> 2 powi (- 20)" by (rule powi_le) simp
  also have "\<dots> = 1 / 2 ^ 20"
    by (simp only: power_int_minus power_int_numeral divide_inverse mult_1_left)
  also note x
  finally have "2 powi (- 1022) \<le> x" .
  moreover have "0 < x" using x by (rule less_le_trans [rotated]) simp
  ultimately show ?thesis by (intro round_mag_error)
qed simp

text \<open>Seconds of a millisecond count print exactly, for any count the limits can hold.\<close>

lemma fixed3_near:
  assumes "0 \<le> v" and "\<bar>v * 1000 - of_nat m\<bar> < 1 / 2"
  shows "fixed3 (Fin v) = millis_text m"
proof -
  have "round_even (v * 1000) = int m"
    using assms(2) by (intro round_even_near) simp
  with assms(1) show ?thesis by simp
qed

lemma near_not_tiny:
  fixes g q :: rat
  assumes "\<bar>g - q\<bar> \<le> q / 2 ^ 53" and "q \<le> 1" and "1 / 1000 \<le> q"
  shows "1 / 2 ^ 20 \<le> g"
proof -
  have "q / 2 ^ 53 \<le> 1 / 2 ^ 53" using assms(2) by simp
  then have "1 / 1000 - 1 / 2 ^ 53 \<le> g" using assms(1,3) by linarith
  then show ?thesis by simp
qed

lemma sum_error:
  fixes g q s v :: rat
  assumes "\<bar>g - q\<bar> \<le> q / 2 ^ 53" and "\<bar>v - (s + g)\<bar> \<le> (s + g) / 2 ^ 53"
    and "q \<le> 1" and "s + g \<le> 2 ^ 41 + 1"
  shows "\<bar>v * 1000 - (s + q) * 1000\<bar> < 1 / 2"
proof -
  have "q / 2 ^ 53 \<le> 1 / 2 ^ 53" "(s + g) / 2 ^ 53 \<le> (2 ^ 41 + 1) / 2 ^ 53"
    using assms(3,4) by (intro divide_right_mono; simp)+
  with assms(1,2) have "\<bar>v - (s + q)\<bar> \<le> 1 / 2 ^ 53 + (2 ^ 41 + 1) / 2 ^ 53" by linarith
  then have "\<bar>v - (s + q)\<bar> * 1000 \<le> (1 / 2 ^ 53 + (2 ^ 41 + 1) / 2 ^ 53) * 1000" by simp
  also have "\<dots> < 1 / 2" by simp
  finally have "\<bar>v - (s + q)\<bar> * \<bar>1000\<bar> < 1 / 2" by simp
  then show ?thesis by (simp only: left_diff_distrib flip: abs_mult)
qed

lemma secs_millis:
  assumes m: "m < 2 ^ 50"
  shows "fixed3 (as_secs_f64 (m * 10 ^ 6)) = millis_text m"
proof -
  define s where "s = m div 1000"
  define r where "r = m mod 1000"
  define g where "g = round_mag (of_nat r / 1000)"
  define y where "y = of_nat s + g"
  define v where "v = round_mag y"
  have m_eq: "m = s * 1000 + r" by (simp add: s_def r_def)
  have r: "r < 1000" by (simp add: r_def)
  have s: "s < 2 ^ 41" using m by (simp add: s_def)
  have d: "m * 10 ^ 6 div 10 ^ 9 = s" "m * 10 ^ 6 mod 10 ^ 9 = r * 10 ^ 6"
    unfolding m_eq using r by (simp_all add: algebra_simps)
  have "(of_nat r / 1000 :: rat) = 0 \<or> 1 / 2 ^ 20 \<le> (of_nat r / 1000 :: rat)"
    by (cases r) (simp_all add: field_simps)
  then have g_near: "\<bar>g - of_nat r / 1000\<bar> \<le> of_nat r / 1000 / 2 ^ 53"
    unfolding g_def by (rule round_mag_near)
  have r1: "(of_nat r / 1000 :: rat) \<le> 1" using r by simp
  have g0: "0 \<le> g" unfolding g_def by (rule round_mag_nonneg) simp
  have g1: "g \<le> 1"
    unfolding g_def using round_mag_le_nat [of "of_nat r / 1000" 1] r1 by simp
  have "(of_nat (r * 10 ^ 6) / 10 ^ 9 :: rat) = of_nat r / 1000" by simp
  moreover have "f64_of_rat (of_nat r / 1000) = Fin g"
    using g1 unfolding g_def by (intro f64_of_rat_nonneg) (auto intro: le_less_trans)
  moreover have "f64_of_rat (of_nat (r * 10 ^ 6)) = Fin (of_nat (r * 10 ^ 6))"
    using r by (intro f64_of_nat_exact) simp
  moreover have "f64_of_rat (of_nat s) = Fin (of_nat s)"
    using s by (intro f64_of_nat_exact) simp
  ultimately have e: "as_secs_f64 (m * 10 ^ 6) = f64_of_rat y"
    unfolding as_secs_f64_def d y_def by simp
  have s': "(of_nat s :: rat) \<le> of_nat (2 ^ 41)" using s by (intro of_nat_mono) simp
  then have y1: "y \<le> of_nat (2 ^ 41 + 1)" using g1 by (simp add: y_def)
  have y0: "0 \<le> y" using g0 by (simp add: y_def)
  have v1: "v \<le> of_nat (2 ^ 41 + 1)"
    unfolding v_def by (rule round_mag_le_nat [OF y0 _ y1]) simp
  have v0: "0 \<le> v" unfolding v_def using y0 by (rule round_mag_nonneg)
  have "v < 2 ^ 1024" by (rule le_less_trans [OF v1]) simp
  then have fin: "f64_of_rat y = Fin v"
    unfolding v_def using y0 by (intro f64_of_rat_nonneg)
  have "y = 0 \<or> 1 / 2 ^ 20 \<le> y"
  proof (cases "s = 0")
    case False
    then have "1 \<le> (of_nat s :: rat)" by simp
    then show ?thesis using g0 by (simp add: y_def)
  next
    case True
    show ?thesis
    proof (cases "r = 0")
      case True
      with \<open>s = 0\<close> show ?thesis by (simp add: y_def g_def)
    next
      case False
      then have "(1 / 1000 :: rat) \<le> of_nat r / 1000" by simp
      with g_near r1 have "1 / 2 ^ 20 \<le> g" by (intro near_not_tiny)
      with \<open>s = 0\<close> show ?thesis by (simp add: y_def)
    qed
  qed
  then have v_near: "\<bar>v - y\<bar> \<le> y / 2 ^ 53"
    unfolding v_def by (rule round_mag_near)
  have "\<bar>v * 1000 - (of_nat s + of_nat r / 1000) * 1000\<bar> < 1 / 2"
    using g_near v_near r1 y1 unfolding y_def by (intro sum_error) simp_all
  moreover have "of_nat m = (of_nat s + of_nat r / 1000) * (1000 :: rat)"
    by (simp add: m_eq distrib_right)
  ultimately have "\<bar>v * 1000 - of_nat m\<bar> < 1 / 2" by simp
  with v0 show ?thesis unfolding e fin by (rule fixed3_near)
qed

end
