(* ===== verification/Judge_Compare.thy ===== *)
theory Judge_Compare
  imports Rust_F64
begin

text \<open>
  \<open>crates/judge/src/compare.rs\<close>: the three output comparers. Each is shown to decide an
  equality of normal forms (lines, tokens) or a pointwise tolerance of tokens, and the three
  are ordered by strictness. What a rejection says is a position, never expected output.
\<close>

section \<open>The comparers\<close>

datatype comparer = Lines | Tokens | Float f64

definition blank :: "char \<Rightarrow> bool" where
  "blank b \<longleftrightarrow> b = CHR '' '' \<or> b = CHR 0x09 \<or> b = CHR 0x0D"

text \<open>\<open>Iterator::rposition\<close>: the index of the last byte that satisfies the predicate.\<close>

fun rposition :: "(char \<Rightarrow> bool) \<Rightarrow> bytes \<Rightarrow> nat option" where
  "rposition p [] = None"
| "rposition p (c # cs) =
     (case rposition p cs of Some i \<Rightarrow> Some (Suc i) | None \<Rightarrow> if p c then Some 0 else None)"

definition trim_line :: "bytes \<Rightarrow> bytes" where
  "trim_line line =
     (let k = (case rposition (\<lambda>b. \<not> blank b) line of None \<Rightarrow> 0 | Some i \<Rightarrow> i + 1)
      in take k line)"

text \<open>The loop that pops empty lines off the end.\<close>

function pop_blank :: "bytes list \<Rightarrow> bytes list" where
  "pop_blank ls = (if ls \<noteq> [] \<and> last ls = [] then pop_blank (butlast ls) else ls)"
  by pat_completeness auto
termination
  by (relation "measure length") auto

declare pop_blank.simps [simp del]

definition normalized_lines :: "bytes \<Rightarrow> bytes list" where
  "normalized_lines data = pop_blank (map trim_line (split_on (\<lambda>b. b = newline) data))"

fun first_difference :: "nat \<Rightarrow> bytes list \<Rightarrow> bytes list \<Rightarrow> nat option" where
  "first_difference i (e # es) (a # as) =
     (if e \<noteq> a then Some i else first_difference (Suc i) es as)"
| "first_difference i _ _ = None"

definition line_differs :: "nat \<Rightarrow> string" where
  "line_differs n = ''line '' @ show_nat n @ '' differs''"

definition line_count_differs :: "nat \<Rightarrow> nat \<Rightarrow> string" where
  "line_count_differs m n = ''expected '' @ show_nat m @ '' lines, got '' @ show_nat n"

definition compare_lines :: "bytes \<Rightarrow> bytes \<Rightarrow> string + unit" where
  "compare_lines expected actual =
     (let e = normalized_lines expected; a = normalized_lines actual
      in case first_difference 0 e a of
           Some i \<Rightarrow> Err (line_differs (i + 1))
         | None \<Rightarrow>
             if length e \<noteq> length a then Err (line_count_differs (length e) (length a))
             else Ok ())"

definition tokens :: "bytes \<Rightarrow> bytes list" where
  "tokens data = filter (\<lambda>t. t \<noteq> []) (split_on is_ascii_whitespace data)"

definition parse_finite :: "bytes \<Rightarrow> f64 option" where
  "parse_finite t =
     (if valid_utf8 t then
        (case parse_f64 t of None \<Rightarrow> None | Some v \<Rightarrow> if f64_is_finite v then Some v else None)
      else None)"

definition floats_match :: "bytes \<Rightarrow> bytes \<Rightarrow> f64 \<Rightarrow> bool" where
  "floats_match expected actual eps =
     (case (parse_finite expected, parse_finite actual) of
        (Some e, Some a) \<Rightarrow>
          (let diff = f64_abs (f64_sub e a)
           in f64_le diff eps \<or> f64_le diff (f64_mul eps (f64_abs e)))
      | _ \<Rightarrow> False)"

definition ended_early :: "nat \<Rightarrow> string" where
  "ended_early n = ''output ended early at token '' @ show_nat n"

definition extra_token :: "nat \<Rightarrow> string" where
  "extra_token n = ''unexpected extra token '' @ show_nat n"

definition token_differs :: "nat \<Rightarrow> string" where
  "token_differs n = ''token '' @ show_nat n @ '' differs''"

text \<open>The loop of \<open>compare_tokens\<close>; the iterators are the lists of tokens still to come.\<close>

fun token_loop :: "f64 option \<Rightarrow> nat \<Rightarrow> bytes list \<Rightarrow> bytes list \<Rightarrow> string + unit" where
  "token_loop eps i [] [] = Ok ()"
| "token_loop eps i (e # es) [] = Err (ended_early (i + 1))"
| "token_loop eps i [] (a # as) = Err (extra_token (i + 1))"
| "token_loop eps i (e # es) (a # as) =
     (if e = a then token_loop eps (i + 1) es as
      else case eps of
             Some x \<Rightarrow> if floats_match e a x then token_loop eps (i + 1) es as
                       else Err (token_differs (i + 1))
           | None \<Rightarrow> Err (token_differs (i + 1)))"

definition compare_tokens :: "bytes \<Rightarrow> bytes \<Rightarrow> f64 option \<Rightarrow> string + unit" where
  "compare_tokens expected actual eps = token_loop eps 0 (tokens expected) (tokens actual)"

fun compare :: "comparer \<Rightarrow> bytes \<Rightarrow> bytes \<Rightarrow> string + unit" where
  "compare Lines expected actual = compare_lines expected actual"
| "compare Tokens expected actual = compare_tokens expected actual None"
| "compare (Float eps) expected actual = compare_tokens expected actual (Some eps)"

abbreviation accepts :: "comparer \<Rightarrow> bytes \<Rightarrow> bytes \<Rightarrow> bool" where
  "accepts c expected actual \<equiv> compare c expected actual = Ok ()"

section \<open>The interface of an exact comparer\<close>

text \<open>An exact comparer decides equality of a normal form, so it is an equivalence.\<close>

locale canonical_comparer =
  fixes acc :: "bytes \<Rightarrow> bytes \<Rightarrow> bool"
    and canon :: "bytes \<Rightarrow> 'c"
  assumes acc_iff: "acc e a \<longleftrightarrow> canon e = canon a"
begin

lemma acc_refl: "acc e e"
  by (simp add: acc_iff)

lemma acc_sym: "acc e a \<Longrightarrow> acc a e"
  by (simp add: acc_iff)

lemma acc_trans: "acc e a \<Longrightarrow> acc a b \<Longrightarrow> acc e b"
  by (simp add: acc_iff)

lemma acc_cong: "canon a = canon b \<Longrightarrow> acc e a = acc e b"
  by (simp add: acc_iff)

end

section \<open>Lines\<close>

lemma rposition_None: "rposition p xs = None \<longleftrightarrow> (\<forall>c \<in> set xs. \<not> p c)"
  by (induction xs) (auto split: option.splits)

lemma rposition_SomeD:
  "rposition p xs = Some i \<Longrightarrow> i < length xs \<and> p (xs ! i) \<and> (\<forall>c \<in> set (drop (Suc i) xs). \<not> p c)"
  by (induction xs arbitrary: i) (auto simp: rposition_None split: option.splits if_splits)

lemma rposition_append:
  "p x \<Longrightarrow> \<forall>c \<in> set bs. \<not> p c \<Longrightarrow> rposition p (xs @ x # bs) = Some (length xs)"
proof (induction xs)
  case Nil
  then have "rposition p bs = None" by (simp add: rposition_None)
  with Nil show ?case by simp
qed simp

text \<open>\<open>trim_line\<close> removes exactly the longest blank suffix.\<close>

lemma trim_line_split:
  obtains bs where "line = trim_line line @ bs" and "\<forall>c \<in> set bs. blank c"
    and "trim_line line = [] \<or> \<not> blank (last (trim_line line))"
proof (cases "rposition (\<lambda>b. \<not> blank b) line")
  case None
  then have "trim_line line = []" by (simp add: trim_line_def)
  moreover have "\<forall>c \<in> set line. blank c" using None by (simp add: rposition_None)
  ultimately show ?thesis by (intro that [of line]) auto
next
  case (Some i)
  then have i: "i < length line" "\<not> blank (line ! i)" "\<forall>c \<in> set (drop (Suc i) line). blank c"
    by (auto dest: rposition_SomeD)
  have t: "trim_line line = take (Suc i) line" using Some by (simp add: trim_line_def)
  have "last (take (Suc i) line) = line ! i" using i(1) by (simp add: take_Suc_conv_app_nth)
  with i t show ?thesis by (intro that [of "drop (Suc i) line"]) auto
qed

lemma trim_line_unique:
  assumes "line = xs @ bs" "\<forall>c \<in> set bs. blank c" "xs = [] \<or> \<not> blank (last xs)"
  shows "trim_line line = xs"
proof (cases xs rule: rev_cases)
  case Nil
  with assms have "rposition (\<lambda>b. \<not> blank b) line = None" by (auto simp: rposition_None)
  with Nil show ?thesis by (simp add: trim_line_def)
next
  case (snoc ys y)
  then have "rposition (\<lambda>b. \<not> blank b) line = Some (length ys)"
    using assms rposition_append [of "\<lambda>b. \<not> blank b" y bs ys] by simp
  with snoc assms show ?thesis by (simp add: trim_line_def)
qed

lemma trim_line_blanks: "\<forall>c \<in> set bs. blank c \<Longrightarrow> trim_line (line @ bs) = trim_line line"
proof -
  assume bs: "\<forall>c \<in> set bs. blank c"
  obtain cs where "line = trim_line line @ cs" "\<forall>c \<in> set cs. blank c"
    "trim_line line = [] \<or> \<not> blank (last (trim_line line))"
    by (rule trim_line_split)
  with bs show ?thesis by (intro trim_line_unique [of _ _ "cs @ bs"]) auto
qed

lemma trim_line_idem [simp]: "trim_line (trim_line line) = trim_line line"
  by (rule trim_line_split [of line]) (metis append_Nil2 empty_iff list.set(1) trim_line_unique)

lemma pop_blank_snoc:
  "pop_blank (ls @ [l]) = (if l = [] then pop_blank ls else ls @ [l])"
  by (subst pop_blank.simps) simp

lemma pop_blank_Nil [simp]: "pop_blank [] = []"
  by (subst pop_blank.simps) simp

lemma pop_blank_split: "\<exists>n. ls = pop_blank ls @ replicate n []"
proof (induction ls rule: rev_induct)
  case Nil
  show ?case by simp
next
  case (snoc l ls)
  show ?case
  proof (cases "l = []")
    case True
    from snoc obtain n where "ls = pop_blank ls @ replicate n []" by blast
    then have "ls @ [l] = pop_blank ls @ replicate (Suc n) []"
      using True by (metis append_assoc replicate_append_same replicate_Suc)
    with True show ?thesis by (metis pop_blank_snoc)
  next
    case False
    then show ?thesis by (intro exI [of _ 0]) (simp add: pop_blank_snoc)
  qed
qed

lemma pop_blank_replicate: "pop_blank (ls @ replicate n []) = pop_blank ls"
proof (induction n)
  case 0
  then show ?case by simp
next
  case (Suc n)
  have "ls @ replicate (Suc n) [] = (ls @ replicate n []) @ [[]]"
    by (simp add: replicate_append_same)
  with Suc show ?case by (simp only: pop_blank_snoc simp_thms if_True)
qed

text \<open>
  What the normal form is: a sequence of lines without trailing blanks, the last one not
  empty, that spells the data up to blanks and empty lines at the ends.
\<close>

lemma normalized_lines_trimmed: "l \<in> set (normalized_lines d) \<Longrightarrow> trim_line l = l"
proof -
  assume l: "l \<in> set (normalized_lines d)"
  let ?ls = "map trim_line (split_on (\<lambda>b. b = newline) d)"
  obtain n where "?ls = pop_blank ?ls @ replicate n []" using pop_blank_split by blast
  then have "set (pop_blank ?ls) \<subseteq> set ?ls" by (metis Un_upper1 set_append)
  with l show ?thesis by (auto simp: normalized_lines_def)
qed

lemma pop_blank_last: "pop_blank ls = [] \<or> last (pop_blank ls) \<noteq> []"
  by (induction ls rule: rev_induct) (auto simp: pop_blank_snoc)

lemma first_difference_None:
  "first_difference i es as = None \<longleftrightarrow> take (min (length es) (length as)) es = take (min (length es) (length as)) as"
  by (induction i es as rule: first_difference.induct) auto

lemma first_difference_Some:
  "first_difference i es as = Some k \<longleftrightarrow>
     i \<le> k \<and> k - i < length es \<and> k - i < length as \<and>
     take (k - i) es = take (k - i) as \<and> es ! (k - i) \<noteq> as ! (k - i)"
proof (induction i es as rule: first_difference.induct)
  case (1 i e es a as)
  show ?case
  proof (cases "e = a")
    case False
    then show ?thesis by (cases "k - i") auto
  next
    case True
    with 1 show ?thesis
      by (cases "k - i") (auto simp: Suc_diff_Suc Suc_le_eq diff_Suc split: nat.splits)
  qed
qed auto

lemma accepts_lines_iff: "accepts Lines e a \<longleftrightarrow> normalized_lines e = normalized_lines a"
proof -
  let ?e = "normalized_lines e" and ?a = "normalized_lines a"
  show ?thesis
  proof (cases "first_difference 0 ?e ?a")
    case None
    then have "take (min (length ?e) (length ?a)) ?e = take (min (length ?e) (length ?a)) ?a"
      by (simp only: first_difference_None)
    then have "length ?e = length ?a \<Longrightarrow> ?e = ?a" by simp
    with None show ?thesis by (auto simp: compare_lines_def Let_def)
  next
    case (Some k)
    then have "?e \<noteq> ?a" by (auto simp: first_difference_Some)
    with Some show ?thesis by (simp add: compare_lines_def)
  qed
qed

interpretation lines_cmp: canonical_comparer "accepts Lines" normalized_lines
  by unfold_locales (rule accepts_lines_iff)

section \<open>Tokens\<close>

definition token_match :: "f64 option \<Rightarrow> bytes \<Rightarrow> bytes \<Rightarrow> bool" where
  "token_match eps e a \<longleftrightarrow> e = a \<or> (\<exists>x. eps = Some x \<and> floats_match e a x)"

lemma token_loop_Ok: "token_loop eps i es as = Ok () \<longleftrightarrow> list_all2 (token_match eps) es as"
  by (induction eps i es as rule: token_loop.induct)
    (auto simp: token_match_def split: option.splits)

lemma token_match_exact: "list_all2 (token_match None) es as \<longleftrightarrow> es = as"
proof -
  have "token_match None = (=)" by (auto simp: token_match_def fun_eq_iff)
  then show ?thesis by (simp add: list.rel_eq)
qed

lemma accepts_tokens_iff: "accepts Tokens e a \<longleftrightarrow> tokens e = tokens a"
  by (simp add: compare_tokens_def token_loop_Ok token_match_exact)

lemma accepts_float_iff:
  "accepts (Float eps) e a \<longleftrightarrow> list_all2 (token_match (Some eps)) (tokens e) (tokens a)"
  by (simp add: compare_tokens_def token_loop_Ok)

interpretation tokens_cmp: canonical_comparer "accepts Tokens" tokens
  by unfold_locales (rule accepts_tokens_iff)

lemma blank_is_space: "blank c \<Longrightarrow> is_ascii_whitespace c"
  by (auto simp: blank_def is_ascii_whitespace_def byte_def)

lemma newline_is_space [simp]: "is_ascii_whitespace newline"
  by (simp add: is_ascii_whitespace_def byte_def)

lemma tokens_Nil [simp]: "tokens [] = []"
  by (simp add: tokens_def)

lemma tokens_sep: "is_ascii_whitespace c \<Longrightarrow> tokens (xs @ c # ys) = tokens xs @ tokens ys"
  by (simp add: tokens_def split_on_app)

lemma tokens_only_spaces: "\<forall>c \<in> set bs. is_ascii_whitespace c \<Longrightarrow> tokens bs = []"
proof (induction bs)
  case (Cons b bs)
  then show ?case using tokens_sep [of b "[]" bs] by simp
qed simp

lemma tokens_spaces: "\<forall>c \<in> set bs. is_ascii_whitespace c \<Longrightarrow> tokens (xs @ bs) = tokens xs"
  by (cases bs) (simp_all add: tokens_sep tokens_only_spaces)

lemma tokens_join: "tokens (join [newline] ls) = concat (map tokens ls)"
proof (induction ls rule: induct_list012)
  case (3 x y zs)
  then show ?case by (simp add: tokens_sep)
qed simp_all

lemma tokens_trim_line: "tokens (trim_line l) = tokens l"
proof (rule trim_line_split [of l])
  fix bs assume "l = trim_line l @ bs" "\<forall>c \<in> set bs. blank c"
  then show ?thesis using tokens_spaces [of bs "trim_line l"] blank_is_space by metis
qed

text \<open>The tokens can be read off the normalised lines.\<close>

lemma tokens_normalized: "concat (map tokens (normalized_lines d)) = tokens d"
proof -
  let ?ps = "split_on (\<lambda>b. b = newline) d"
  obtain n where n: "map trim_line ?ps = normalized_lines d @ replicate n []"
    using pop_blank_split unfolding normalized_lines_def by blast
  have "tokens d = concat (map tokens ?ps)"
    using tokens_join [of ?ps] by (simp add: join_split_on)
  also have "map tokens ?ps = map tokens (map trim_line ?ps)"
    by (simp add: tokens_trim_line)
  finally show ?thesis by (simp add: n)
qed

section \<open>Properties\<close>

text \<open>C24: the line comparer accepts an output exactly when it has the normal form of the
expected one, the lines without trailing blanks and without empty lines at the end, and the
token comparer exactly when the sequences of whitespace-separated tokens are equal; the
tolerant comparer exactly when the sequences have one length and match token by token.\<close>

theorem comparers_decide_normal_forms:
  "(accepts Lines e a \<longleftrightarrow> normalized_lines e = normalized_lines a) \<and>
   (accepts Tokens e a \<longleftrightarrow> tokens e = tokens a) \<and>
   (accepts (Float eps) e a \<longleftrightarrow> list_all2 (token_match (Some eps)) (tokens e) (tokens a))"
  using accepts_lines_iff accepts_tokens_iff accepts_float_iff by blast

text \<open>The comparers are ordered by strictness: an output the line comparer accepts is
accepted by the token comparer, and that one's by the tolerant comparer at any tolerance.\<close>

lemma comparer_strictness_order:
  "{(e, a). accepts Lines e a} \<subseteq> {(e, a). accepts Tokens e a} \<and>
   {(e, a). accepts Tokens e a} \<subseteq> {(e, a). accepts (Float eps) e a}"
proof -
  have "accepts Tokens e a" if "accepts Lines e a" for e a
    using that tokens_normalized [of e] tokens_normalized [of a]
    by (simp only: accepts_lines_iff accepts_tokens_iff)
  moreover have "accepts (Float eps) e a" if "accepts Tokens e a" for e a
    using that by (simp only: accepts_tokens_iff accepts_float_iff)
      (rule list_all2_refl, simp add: token_match_def)
  ultimately show ?thesis by blast
qed

text \<open>Blanks and line feeds at the end of an output are invisible to every comparer.\<close>

lemma split_on_snoc:
  "\<not> p c \<Longrightarrow> split_on p (xs @ [c]) = butlast (split_on p xs) @ [last (split_on p xs) @ [c]]"
proof (induction xs)
  case (Cons x xs)
  obtain m ms where m: "split_on p xs = m # ms"
    by (cases "split_on p xs") auto
  with Cons show ?case by (cases ms) auto
qed simp

lemma normalized_lines_snoc:
  assumes "blank b \<or> b = newline"
  shows "normalized_lines (d @ [b]) = normalized_lines d"
proof (cases "b = newline")
  case True
  have "split_on (\<lambda>b. b = newline) (d @ [newline]) = split_on (\<lambda>b. b = newline) d @ [[]]"
    using split_on_app [of "\<lambda>b. b = newline" newline d "[]"] by simp
  with True show ?thesis by (simp add: normalized_lines_def pop_blank_snoc trim_line_def)
next
  case False
  let ?ps = "split_on (\<lambda>b. b = newline) d"
  have "map trim_line (split_on (\<lambda>b. b = newline) (d @ [b])) =
      map trim_line (butlast ?ps) @ [trim_line (last ?ps @ [b])]"
    using False by (simp add: split_on_snoc)
  also have "trim_line (last ?ps @ [b]) = trim_line (last ?ps)"
    using False assms by (intro trim_line_blanks) simp
  also have "map trim_line (butlast ?ps) @ [trim_line (last ?ps)] = map trim_line ?ps"
    by (metis append_butlast_last_id list.simps(8,9) map_append split_on_not_Nil)
  finally show ?thesis by (simp add: normalized_lines_def)
qed

lemma normalized_lines_trailing:
  "\<forall>b \<in> set ws. blank b \<or> b = newline \<Longrightarrow> normalized_lines (d @ ws) = normalized_lines d"
proof (induction ws rule: rev_induct)
  case (snoc w ws)
  then show ?case using normalized_lines_snoc [of w "d @ ws"] by simp
qed simp

lemma tokens_trailing:
  "\<forall>b \<in> set ws. blank b \<or> b = newline \<Longrightarrow> tokens (d @ ws) = tokens d"
  by (rule tokens_spaces) (auto simp: blank_is_space)

text \<open>No comparer sees blanks, carriage returns or line feeds at the end of the output or
of the expected output: adding them changes neither the decision nor its message.\<close>

lemma trailing_space_ignored:
  assumes "\<forall>b \<in> set ws. blank b \<or> b = newline"
  shows "compare c e (a @ ws) = compare c e a \<and> compare c (e @ ws) a = compare c e a"
  using normalized_lines_trailing [OF assms] tokens_trailing [OF assms]
  by (cases c) (simp_all add: compare_lines_def compare_tokens_def)

lemma trailing_space_ignored_witness:
  "compare Lines ''1'' (''1'' @ [CHR '' '', newline, newline]) = compare Lines ''1'' ''1''"
proof -
  have "\<forall>b \<in> set [CHR '' '', newline, newline]. blank b \<or> b = newline"
    by (simp add: blank_def)
  from trailing_space_ignored [OF this, of Lines "''1''" "''1''"] show ?thesis by blast
qed

text \<open>The message of the line comparer points at the first difference: with normal forms
that differ it names the one-based index of the first line in which they differ, or, when
one is a proper prefix of the other, their two lengths, and nothing of their contents.\<close>

lemma lines_message_is_first_difference:
  "compare Lines e a =
     (let es = normalized_lines e; as = normalized_lines a;
          D = filter (\<lambda>i. es ! i \<noteq> as ! i) [0 ..< min (length es) (length as)]
      in if es = as then Ok ()
         else if D \<noteq> [] then Err (''line '' @ show_nat (hd D + 1) @ '' differs'')
         else Err (''expected '' @ show_nat (length es) @ '' lines, got '' @ show_nat (length as)))"
proof -
  have fd: "first_difference i es as =
      (let D = filter (\<lambda>k. es ! k \<noteq> as ! k) [0 ..< min (length es) (length as)]
       in if D = [] then None else Some (i + hd D))" for i es as
  proof (induction i es as rule: first_difference.induct)
    case (1 i e es a as)
    have up: "[0 ..< Suc (min (length es) (length as))] =
        0 # map Suc [0 ..< min (length es) (length as)]"
      by (simp add: upt_conv_Cons map_Suc_upt del: upt_Suc)
    have f: "filter (\<lambda>k. (x # es) ! k \<noteq> (y # as) ! k) (map Suc ks) =
        map Suc (filter (\<lambda>k. es ! k \<noteq> as ! k) ks)" for ks x y
      by (induction ks) auto
    show ?case
    proof (cases "e = a")
      case False
      then show ?thesis by (simp add: up Let_def del: upt_Suc)
    next
      case True
      with 1 show ?thesis by (auto simp: up f Let_def hd_map simp del: upt_Suc)
    qed
  qed simp_all
  let ?es = "normalized_lines e" and ?as = "normalized_lines a"
  show ?thesis
    using accepts_lines_iff [of e a]
    by (auto simp: compare_lines_def fd Let_def line_differs_def line_count_differs_def
        split: if_splits)
qed

text \<open>Numbers within the absolute tolerance match, whatever rounding does.\<close>

lemma floats_match_within:
  assumes "parse_finite e = Some (Fin x)" "parse_finite a = Some (Fin y)"
    and t: "\<bar>x - y\<bar> \<le> t" "round_mag t = t" "t < 2 ^ 1024"
  shows "floats_match e a (Fin t)"
proof -
  have m: "round_mag \<bar>x - y\<bar> \<le> t"
    using round_mag_mono [of "\<bar>x - y\<bar>" t] t by simp
  then have "round_mag \<bar>x - y\<bar> < 2 ^ 1024" using t(3) by (rule le_less_trans)
  then have "f64_abs (f64_sub (Fin x) (Fin y)) = Fin (round_mag \<bar>x - y\<bar>)"
    by (simp add: f64_sub_def f64_abs_of_rat)
  with assms m show ?thesis by (simp add: floats_match_def Let_def)
qed

text \<open>The tolerant comparer accepts every output that is right: if the tokens pair up and
each pair is equal or parses to two finite numbers no further apart than the tolerance (a
representable, finite one), the output is accepted, for all the rounding in between.\<close>

lemma tolerant_comparer_complete:
  assumes "round_mag t = t" and "t < 2 ^ 1024"
    and "list_all2 (\<lambda>e a. e = a \<or> (\<exists>x y. parse_finite e = Some (Fin x) \<and>
           parse_finite a = Some (Fin y) \<and> \<bar>x - y\<bar> \<le> t)) (tokens expected) (tokens actual)"
  shows "accepts (Float (Fin t)) expected actual"
  unfolding accepts_float_iff
  using assms(3)
  by (rule list_all2_mono) (auto simp: token_match_def intro: floats_match_within assms(1,2))

lemma parse_zeros:
  "parse_finite ''0'' = Some (Fin 0)" "parse_finite ''0.0'' = Some (Fin 0)"
proof -
  have "parse_decimal ''0'' = Some 0" "parse_decimal ''0.0'' = Some 0"
    and "valid_utf8 ''0''" "valid_utf8 ''0.0''"
    and "ascii_lower ''0'' = ''0''" "ascii_lower ''0.0'' = ''0.0''"
    by code_simp+
  then show "parse_finite ''0'' = Some (Fin 0)" "parse_finite ''0.0'' = Some (Fin 0)"
    by (simp_all add: parse_finite_def parse_f64_def after_char_def)
qed

lemma tolerant_comparer_complete_witness:
  "accepts (Float (Fin 0)) ''yes 0'' ''yes 0.0'' \<and> \<not> accepts Tokens ''yes 0'' ''yes 0.0''"
proof -
  have "tokens ''yes 0'' = [''yes'', ''0'']" "tokens ''yes 0.0'' = [''yes'', ''0.0'']"
    by code_simp+
  with parse_zeros show ?thesis
    using tolerant_comparer_complete [of 0 "''yes 0''" "''yes 0.0''"]
      accepts_tokens_iff [of "''yes 0''" "''yes 0.0''"] by simp
qed

end
