(* ===== verification/Judge_Sandbox.thy ===== *)
theory Judge_Sandbox
  imports Rust_F64
begin

text \<open>
  \<open>crates/judge/src/sandbox.rs\<close>: what running an untrusted command means, independent of the
  backend. The trait objects \<open>dyn Sandbox\<close> and \<open>dyn SandboxBox\<close> are a record of their
  operations over a world \<open>'s\<close> and a box handle \<open>'b\<close>; the locales state what a backend
  promises its client, the pipeline.
\<close>

section \<open>Data\<close>

datatype sandbox_error = Io string | InvalidFileName string | Backend string

record exec_limits =
  el_cpu_time :: duration
  el_extra_time :: duration
  el_wall_time :: duration
  el_memory_kb :: u64
  el_processes :: u32
  el_file_size_kb :: u64
  el_stdout_bytes :: nat
  el_stderr_bytes :: nat
  el_address_space_limit :: bool

record exec_spec =
  es_argv :: "string list"
  es_env :: "(string \<times> string) list"
  es_dirs :: "string list"
  es_limits :: exec_limits
  es_stderr_to_stdout :: bool
  es_syscall_flags :: "u32 option"

datatype exec_status =
    ExOk | NonZeroExit int | Signaled int | TimeLimit | WallTimeLimit | MemoryLimit | OutputLimit

record exec_outcome =
  oc_status :: exec_status
  oc_stdout :: bytes
  oc_stderr :: bytes
  oc_cpu_time_ms :: u64
  oc_wall_time_ms :: u64
  oc_memory_kb :: u64

section \<open>File names\<close>

definition file_name_byte :: "char \<Rightarrow> bool" where
  "file_name_byte b \<longleftrightarrow>
     is_ascii_alphanumeric b \<or> b = CHR ''.'' \<or> b = CHR ''_'' \<or> b = CHR ''-''"

definition validate_file_name :: "string \<Rightarrow> sandbox_error + unit" where
  "validate_file_name name =
     (if name \<noteq> [] \<and> length name \<le> 64 \<and> hd name \<noteq> CHR ''.'' \<and> list_all file_name_byte name
      then Ok () else Err (InvalidFileName name))"

section \<open>The backend interface\<close>

text \<open>
  \<open>sb_acquire\<close> is \<open>None\<close> in a world where it waits for a free slot. Every other operation
  returns.
\<close>

record ('s, 'b) sandbox =
  sb_acquire :: "'s \<Rightarrow> ((sandbox_error + 'b) \<times> 's) option"
  sb_write_file :: "'b \<Rightarrow> string \<Rightarrow> bytes \<Rightarrow> ('s, sandbox_error, unit) io"
  sb_exec :: "'b \<Rightarrow> exec_spec \<Rightarrow> bytes \<Rightarrow> ('s, sandbox_error, exec_outcome) io"
  sb_release :: "'b \<Rightarrow> ('s, sandbox_error, unit) io"

text \<open>
  What the pipeline relies on: how many boxes are in use (\<open>live\<close>), that a handle stays valid
  until it is released (\<open>holds\<close>), and that a bad file name is refused with no effect.
\<close>

locale sandbox_provider =
  fixes sb :: "('s, 'b) sandbox"
    and inv :: "'s \<Rightarrow> bool"
    and live :: "'s \<Rightarrow> nat"
    and holds :: "'b \<Rightarrow> 's \<Rightarrow> bool"
  assumes acquire_ok: "inv s \<Longrightarrow> sb_acquire sb s = Some (Ok b, s') \<Longrightarrow>
      inv s' \<and> holds b s' \<and> live s' = Suc (live s)"
    and acquire_err: "inv s \<Longrightarrow> sb_acquire sb s = Some (Err e, s') \<Longrightarrow> inv s' \<and> live s' = live s"
    and write_keeps: "inv s \<Longrightarrow> holds b s \<Longrightarrow> sb_write_file sb b name c s = (r, s') \<Longrightarrow>
      inv s' \<and> holds b s' \<and> live s' = live s"
    and exec_keeps: "inv s \<Longrightarrow> holds b s \<Longrightarrow> sb_exec sb b spec input s = (r', s') \<Longrightarrow>
      inv s' \<and> holds b s' \<and> live s' = live s"
    and release_frees: "inv s \<Longrightarrow> holds b s \<Longrightarrow> sb_release sb b s = (r'', s') \<Longrightarrow>
      inv s' \<and> Suc (live s') = live s"
    and write_refuses: "validate_file_name name = Err e \<Longrightarrow> sb_write_file sb b name c s = (Err e, s)"
begin

lemma keeps_trans:
  assumes "inv s" "holds b s"
    and "inv s \<Longrightarrow> holds b s \<Longrightarrow> inv t \<and> holds b t \<and> live t = live s"
    and "inv t \<Longrightarrow> holds b t \<Longrightarrow> inv u \<and> holds b u \<and> live u = live t"
  shows "inv u \<and> holds b u \<and> live u = live s"
  using assms by simp

end

text \<open>
  A backend whose programs behave as functions of the command and its input, which is what
  makes judging repeatable: which box runs a command, and when, does not show in the outcome.
\<close>

locale deterministic_sandbox =
  fixes sb :: "('s, 'b) sandbox"
    and written :: "string \<Rightarrow> sandbox_error + unit"
    and outcome :: "exec_spec \<Rightarrow> bytes \<Rightarrow> exec_outcome"
  assumes write_result: "fst (sb_write_file sb b name c s) = written name"
    and exec_outcome: "fst (sb_exec sb b spec input s) = Ok (outcome spec input)"

section \<open>Valid names stay inside the box\<close>

lemma validate_ok_iff:
  "validate_file_name name = Ok () \<longleftrightarrow>
     name \<noteq> [] \<and> length name \<le> 64 \<and> hd name \<noteq> CHR ''.'' \<and> list_all file_name_byte name"
  by (simp add: validate_file_name_def)

lemma file_name_byte_not_special:
  "file_name_byte b \<Longrightarrow> b \<noteq> CHR ''/'' \<and> b \<noteq> CHR 0x5C \<and> b \<noteq> CHR 0x00 \<and> b \<noteq> CHR '' ''"
  by (auto simp: file_name_byte_def is_ascii_alphanumeric_def is_ascii_digit_def
      is_ascii_lowercase_def is_ascii_uppercase_def in_range_def byte_def)

text \<open>A file name that \<open>validate_file_name\<close> accepts cannot leave the box directory: it is
one path component that is neither empty nor \<open>.\<close> nor \<open>..\<close>, is not hidden, has no separator,
backslash, space or NUL byte, and is at most 64 bytes long.\<close>

lemma validated_name_is_plain_component:
  assumes "validate_file_name name = Ok ()"
  shows "name \<noteq> [] \<and> name \<noteq> ''.'' \<and> name \<noteq> ''..'' \<and> length name \<le> 64 \<and>
    hd name \<noteq> CHR ''.'' \<and> {CHR ''/'', CHR 0x5C, CHR 0x00, CHR '' ''} \<inter> set name = {}"
  using assms file_name_byte_not_special
  by (fastforce simp: validate_ok_iff list_all_iff)

lemma validated_name_is_plain_component_witness:
  "validate_file_name ''main.py'' = Ok () \<and>
   {CHR ''/'', CHR 0x5C, CHR 0x00, CHR '' ''} \<inter> set ''main.py'' = {}"
proof -
  have "validate_file_name ''main.py'' = Ok ()" by code_simp
  with validated_name_is_plain_component [OF this] show ?thesis by blast
qed

end
