(* ===== verification/Judge_Language.thy ===== *)
theory Judge_Language
  imports Judge_Sandbox
begin

text \<open>
  \<open>crates/judge/src/language.rs\<close>: the language registry. A \<open>BTreeMap\<close> is the list of its
  entries in key order. The TOML parser is a third-party crate and is a parameter; what is
  modelled is the validation of what it returns.
\<close>

section \<open>Ordered maps\<close>

definition btree_ok :: "(string \<times> 'v) list \<Rightarrow> bool" where
  "btree_ok m \<longleftrightarrow> sorted_wrt (<) (map fst m)"

lemma btree_ok_distinct: "btree_ok m \<Longrightarrow> distinct (map fst m)"
  unfolding btree_ok_def by (simp add: strict_sorted_iff)

section \<open>Data\<close>

record step =
  st_argv :: "string list"
  st_env :: "(string \<times> string) list"
  st_dirs :: "string list"
  st_processes :: "u32 option"
  st_syscall_flags :: "u32 option"

record language =
  lg_id :: string
  lg_display_name :: string
  lg_source_file :: string
  lg_compile :: "step option"
  lg_run :: step
  lg_time_multiplier :: f64
  lg_address_space_limit :: bool

text \<open>The reasons of \<open>LanguageError::Invalid\<close>, as data instead of text.\<close>

datatype invalid_language =
    BadSourceFile sandbox_error | RunArgvEmpty | CompileArgvEmpty | BadMultiplier

datatype language_error =
    Lang_Io string string
  | Lang_Parse string
  | Lang_Invalid string invalid_language

record language_info =
  li_id :: string
  li_display_name :: string
  li_compiled :: bool
  li_time_multiplier :: f64

type_synonym registry = "(string \<times> language) list"

section \<open>Loading\<close>

definition check_language :: "language \<Rightarrow> invalid_language option" where
  "check_language l =
     (case validate_file_name (lg_source_file l) of
        Err e \<Rightarrow> Some (BadSourceFile e)
      | Ok u \<Rightarrow>
          if st_argv (lg_run l) = [] then Some RunArgvEmpty
          else if (case lg_compile l of Some c \<Rightarrow> st_argv c = [] | None \<Rightarrow> False)
          then Some CompileArgvEmpty
          else if \<not> (f64_is_finite (lg_time_multiplier l) \<and> f64_le (Fin 1) (lg_time_multiplier l))
          then Some BadMultiplier
          else None)"

text \<open>The loop over the entries, in key order, which sets each \<open>id\<close> and stops at a bad entry.\<close>

fun check_languages :: "registry \<Rightarrow> language_error + registry" where
  "check_languages [] = Ok []"
| "check_languages ((k, l) # rest) =
     (let l' = l\<lparr>lg_id := k\<rparr>
      in case check_language l' of
           Some r \<Rightarrow> Err (Lang_Invalid k r)
         | None \<Rightarrow>
             (case check_languages rest of
                Err e \<Rightarrow> Err e
              | Ok m \<Rightarrow> Ok ((k, l') # m)))"

definition from_toml :: "(string \<Rightarrow> string + registry) \<Rightarrow> string \<Rightarrow> language_error + registry" where
  "from_toml toml text =
     (case toml text of Err e \<Rightarrow> Err (Lang_Parse e) | Ok m \<Rightarrow> check_languages m)"

definition load_languages ::
  "(string \<Rightarrow> string + string) \<Rightarrow> (string \<Rightarrow> string + registry) \<Rightarrow> string \<Rightarrow>
   language_error + registry" where
  "load_languages read toml path =
     (case read path of Err e \<Rightarrow> Err (Lang_Io path e) | Ok text \<Rightarrow> from_toml toml text)"

definition get_language :: "registry \<Rightarrow> string \<Rightarrow> language option" where
  "get_language reg i = map_of reg i"

definition language_ids :: "registry \<Rightarrow> string list" where
  "language_ids reg = map fst reg"

definition language_infos :: "registry \<Rightarrow> language_info list" where
  "language_infos reg =
     map (\<lambda>(k, l). \<lparr>li_id = lg_id l, li_display_name = lg_display_name l,
            li_compiled = (lg_compile l \<noteq> None), li_time_multiplier = lg_time_multiplier l\<rparr>) reg"

section \<open>A loaded registry is well formed\<close>

definition language_ok :: "string \<Rightarrow> language \<Rightarrow> bool" where
  "language_ok k l \<longleftrightarrow> lg_id l = k \<and> check_language l = None"

lemma check_languages_Ok:
  "check_languages m = Ok reg \<longleftrightarrow>
     (\<forall>(k, l) \<in> set m. check_language (l\<lparr>lg_id := k\<rparr>) = None) \<and>
     reg = map (\<lambda>(k, l). (k, l\<lparr>lg_id := k\<rparr>)) m"
proof (induction m arbitrary: reg)
  case (Cons kl m)
  obtain k l where kl: "kl = (k, l)" by fastforce
  show ?case
  proof (cases "check_languages m")
    case (Inl e)
    with Cons.IH [of "map (\<lambda>(k, l). (k, l\<lparr>lg_id := k\<rparr>)) m"] kl show ?thesis
      by (auto simp: Let_def split: option.splits)
  next
    case (Inr m')
    with Cons.IH [of m'] kl show ?thesis
      by (auto simp: Let_def split: option.splits)
  qed
qed auto

lemma check_languages_Err:
  "check_languages m = Err e \<Longrightarrow>
     \<exists>pre k l post r. m = pre @ (k, l) # post \<and> e = Lang_Invalid k r \<and>
       check_language (l\<lparr>lg_id := k\<rparr>) = Some r \<and>
       (\<forall>(k, l) \<in> set pre. check_language (l\<lparr>lg_id := k\<rparr>) = None)"
proof (induction m)
  case (Cons kl m)
  obtain k l where kl: "kl = (k, l)" by fastforce
  show ?case
  proof (cases "check_language (l\<lparr>lg_id := k\<rparr>)")
    case (Some r)
    with Cons.prems kl show ?thesis by (simp, intro exI [of _ "[] :: registry"]) auto
  next
    case None
    with Cons.prems kl have "check_languages m = Err e"
      by (auto simp: Let_def split: sum.splits)
    with Cons.IH obtain pre k' l' post r where
      "m = pre @ (k', l') # post" "e = Lang_Invalid k' r"
      "check_language (l'\<lparr>lg_id := k'\<rparr>) = Some r"
      "\<forall>(k, l) \<in> set pre. check_language (l\<lparr>lg_id := k\<rparr>) = None"
      by blast
    with None kl show ?thesis by (intro exI [of _ "(k, l) # pre"]) fastforce
  qed
qed simp

lemma loaded_language_ok:
  assumes "from_toml toml text = Ok reg" and "get_language reg i = Some l"
  shows "language_ok i l"
  using assms
  by (auto simp: from_toml_def check_languages_Ok language_ok_def get_language_def
      split: sum.splits dest!: map_of_SomeD)

lemma check_language_None:
  "check_language l = None \<longleftrightarrow>
     validate_file_name (lg_source_file l) = Ok () \<and> st_argv (lg_run l) \<noteq> [] \<and>
     (\<forall>c. lg_compile l = Some c \<longrightarrow> st_argv c \<noteq> []) \<and>
     f64_is_finite (lg_time_multiplier l) \<and> f64_le (Fin 1) (lg_time_multiplier l)"
  by (auto simp: check_language_def split: sum.splits option.splits)

text \<open>A registry that loads satisfies what the pipeline needs of every language it finds:
the entry carries its own key, its source file is a plain file name, neither its run command
nor its compile command is empty, and its time multiplier is a finite number of at least 1.\<close>

lemma loaded_registry_well_formed:
  assumes "from_toml toml text = Ok reg" and "get_language reg i = Some l"
  shows "lg_id l = i \<and> validate_file_name (lg_source_file l) = Ok () \<and>
    st_argv (lg_run l) \<noteq> [] \<and> (case lg_compile l of None \<Rightarrow> True | Some c \<Rightarrow> st_argv c \<noteq> []) \<and>
    (\<exists>x. lg_time_multiplier l = Fin x \<and> 1 \<le> x)"
proof -
  have "language_ok i l" using assms by (rule loaded_language_ok)
  then show ?thesis
    by (cases "lg_time_multiplier l")
      (auto simp: language_ok_def check_language_None split: option.splits)
qed

definition sample_step :: "string list \<Rightarrow> step" where
  "sample_step argv = \<lparr>st_argv = argv, st_env = [], st_dirs = [], st_processes = None,
     st_syscall_flags = None\<rparr>"

definition sample_language :: language where
  "sample_language = \<lparr>lg_id = [], lg_display_name = ''Rust'', lg_source_file = ''main.rs'',
     lg_compile = Some (sample_step [''rustc'', ''main.rs'']), lg_run = sample_step [''./main''],
     lg_time_multiplier = Fin 1, lg_address_space_limit = True\<rparr>"

lemma sample_registry_loads:
  "from_toml (\<lambda>_. Ok [(''rust'', sample_language)]) t =
     Ok [(''rust'', sample_language\<lparr>lg_id := ''rust''\<rparr>)]"
proof -
  have "check_language (sample_language\<lparr>lg_id := ''rust''\<rparr>) = None" by code_simp
  then show ?thesis by (simp add: from_toml_def)
qed

lemma loaded_registry_well_formed_witness:
  "validate_file_name (lg_source_file (sample_language\<lparr>lg_id := ''rust''\<rparr>)) = Ok () \<and>
   (\<exists>x. lg_time_multiplier (sample_language\<lparr>lg_id := ''rust''\<rparr>) = Fin x \<and> 1 \<le> x)"
proof -
  have "get_language [(''rust'', sample_language\<lparr>lg_id := ''rust''\<rparr>)] ''rust'' =
      Some (sample_language\<lparr>lg_id := ''rust''\<rparr>)"
    by (simp add: get_language_def)
  from loaded_registry_well_formed [OF sample_registry_loads this] show ?thesis by blast
qed

end
