(* ===== verification/Judge_Mock.thy ===== *)
theory Judge_Mock
  imports Judge_Sandbox
begin

text \<open>
  \<open>crates/judge/src/mock.rs\<close>: the scripted sandbox of the tests. Its fields are private and
  its two constructors set either a script or a failure, so a value is one of the two; the
  counters and the record of calls, shared by the sandbox and its boxes, are the world.
  It provides the backend interface, and with a script also the deterministic one.
\<close>

datatype mock_sandbox =
    Scripted "exec_spec \<Rightarrow> bytes \<Rightarrow> exec_outcome"
  | Failing string

record mock_state =
  mk_calls :: "exec_spec list"
  mk_files :: "(string \<times> bytes) list"
  mk_acquired :: nat
  mk_released :: nat

definition mock_init :: mock_state where
  "mock_init = \<lparr>mk_calls = [], mk_files = [], mk_acquired = 0, mk_released = 0\<rparr>"

definition mock_ok :: "bytes \<Rightarrow> exec_outcome" where
  "mock_ok out = \<lparr>oc_status = ExOk, oc_stdout = out, oc_stderr = [], oc_cpu_time_ms = 10,
     oc_wall_time_ms = 12, oc_memory_kb = 4096\<rparr>"

definition mock_with_status :: "exec_status \<Rightarrow> bytes \<Rightarrow> exec_outcome" where
  "mock_with_status st out = (mock_ok out)\<lparr>oc_status := st\<rparr>"

text \<open>A box is a copy of the sandbox's script or failure.\<close>

definition mock_acquire ::
  "mock_sandbox \<Rightarrow> mock_state \<Rightarrow> ((sandbox_error + mock_sandbox) \<times> mock_state) option" where
  "mock_acquire m s = Some (Ok m, s\<lparr>mk_acquired := mk_acquired s + 1\<rparr>)"

definition mock_write_file ::
  "mock_sandbox \<Rightarrow> string \<Rightarrow> bytes \<Rightarrow> (mock_state, sandbox_error, unit) io" where
  "mock_write_file b name contents s =
     (case validate_file_name name of
        Err e \<Rightarrow> (Err e, s)
      | Ok u \<Rightarrow> (Ok (), s\<lparr>mk_files := mk_files s @ [(name, contents)]\<rparr>))"

definition mock_exec ::
  "mock_sandbox \<Rightarrow> exec_spec \<Rightarrow> bytes \<Rightarrow> (mock_state, sandbox_error, exec_outcome) io" where
  "mock_exec b spec stdin s =
     (let s' = s\<lparr>mk_calls := mk_calls s @ [spec]\<rparr>
      in case b of
           Failing msg \<Rightarrow> (Err (Backend msg), s')
         | Scripted script \<Rightarrow> (Ok (script spec stdin), s'))"

definition mock_release :: "mock_sandbox \<Rightarrow> (mock_state, sandbox_error, unit) io" where
  "mock_release b s = (Ok (), s\<lparr>mk_released := mk_released s + 1\<rparr>)"

definition mock_ops :: "mock_sandbox \<Rightarrow> (mock_state, mock_sandbox) sandbox" where
  "mock_ops m = \<lparr>sb_acquire = mock_acquire m, sb_write_file = mock_write_file,
     sb_exec = mock_exec, sb_release = mock_release\<rparr>"

text \<open>The observations the interface is stated with.\<close>

definition mock_inv :: "mock_state \<Rightarrow> bool" where
  "mock_inv s \<longleftrightarrow> mk_released s \<le> mk_acquired s"

definition mock_live :: "mock_state \<Rightarrow> nat" where
  "mock_live s = mk_acquired s - mk_released s"

definition mock_holds :: "mock_sandbox \<Rightarrow> mock_sandbox \<Rightarrow> mock_state \<Rightarrow> bool" where
  "mock_holds m b s \<longleftrightarrow> b = m \<and> mk_released s < mk_acquired s"

lemmas mock_defs = mock_ops_def mock_acquire_def mock_write_file_def mock_exec_def
  mock_release_def mock_inv_def mock_live_def mock_holds_def

interpretation mock: sandbox_provider "mock_ops m" mock_inv mock_live "mock_holds m"
  for m
  by unfold_locales
    (auto simp: mock_defs Let_def split: sum.splits mock_sandbox.splits)

text \<open>
  With a script, the outcome of a command is the script's. A box carries its own copy of the
  script, so the deterministic interface is stated for the operations on the boxes that this
  sandbox hands out.
\<close>

definition scripted_ops ::
  "(exec_spec \<Rightarrow> bytes \<Rightarrow> exec_outcome) \<Rightarrow> (mock_state, unit) sandbox" where
  "scripted_ops f =
     \<lparr>sb_acquire = (\<lambda>s. map_option (map_prod (map_sum id (\<lambda>_. ())) id) (mock_acquire (Scripted f) s)),
      sb_write_file = (\<lambda>_. mock_write_file (Scripted f)),
      sb_exec = (\<lambda>_. mock_exec (Scripted f)),
      sb_release = (\<lambda>_. mock_release (Scripted f))\<rparr>"

interpretation scripted: deterministic_sandbox "scripted_ops f" validate_file_name f
  for f
  by unfold_locales
    (auto simp: scripted_ops_def mock_write_file_def mock_exec_def Let_def split: sum.splits)

end
