(* ===== verification/Judge_Pipeline.thy ===== *)
theory Judge_Pipeline
  imports Judge_Verdict Judge_Compare Judge_Language Judge_Mock
begin

text \<open>
  \<open>crates/judge/src/pipeline.rs\<close>: compile, run each test, compare, stop at the first
  failure. The code is translated over an arbitrary sandbox backend; the world carries the
  progress events sent so far. \<open>run_all\<close> and \<open>entries\<close> then separate what the pipeline
  asks of the sandbox from what it reports, and the loop is proved equal to their
  composition.
\<close>

section \<open>Data\<close>

record test_case =
  tc_name :: string
  tc_input :: bytes
  tc_expected :: "bytes option"

record judge_config =
  jc_compile_cpu_time_ms :: u64
  jc_compile_wall_time_ms :: u64
  jc_compile_memory_kb :: u64
  jc_compile_processes :: u32
  jc_compile_output_bytes :: nat
  jc_run_processes :: u32
  jc_file_size_kb :: u64
  jc_stdout_bytes :: nat
  jc_stderr_bytes :: nat
  jc_excerpt_bytes :: nat

definition default_judge_config :: judge_config where
  "default_judge_config = \<lparr>jc_compile_cpu_time_ms = 15000, jc_compile_wall_time_ms = 40000,
     jc_compile_memory_kb = 1024 * 1024, jc_compile_processes = 128,
     jc_compile_output_bytes = 16 * 1024, jc_run_processes = 64, jc_file_size_kb = 64 * 1024,
     jc_stdout_bytes = 16 * 1024 * 1024, jc_stderr_bytes = 64 * 1024, jc_excerpt_bytes = 1024\<rparr>"

record judge_request =
  rq_language :: string
  rq_source :: string
  rq_tests :: "test_case list"
  rq_time_limit_ms :: u64
  rq_memory_limit_kb :: u64
  rq_comparer :: comparer
  rq_stop_on_first_failure :: bool
  rq_capture_output :: bool
  rq_show_failed_input :: bool

datatype progress = P_Compiling | P_Running nat nat

datatype judge_error = UnknownLanguage string | Sandbox_Failed sandbox_error

section \<open>Pure parts\<close>

definition excerpt :: "bytes \<Rightarrow> nat \<Rightarrow> string" where
  "excerpt data mx =
     (if length data \<le> mx then from_utf8_lossy data
      else from_utf8_lossy (take mx data) @ [newline] @ ''... [truncated, '' @
           show_nat (length data) @ '' bytes total]'')"

definition classify :: "exec_outcome \<Rightarrow> test_case \<Rightarrow> comparer \<Rightarrow> verdict \<times> string option" where
  "classify out test cmp =
     (case oc_status out of
        ExOk \<Rightarrow>
          (case tc_expected test of
             None \<Rightarrow> (Accepted, None)
           | Some expected \<Rightarrow>
               (case compare cmp expected (oc_stdout out) of
                  Ok u \<Rightarrow> (Accepted, None)
                | Err why \<Rightarrow> (WrongAnswer, Some why)))
      | NonZeroExit c \<Rightarrow> (RuntimeError, Some (''exit code '' @ show_int c))
      | Signaled sig \<Rightarrow> (RuntimeError, Some (''killed by signal '' @ show_int sig))
      | TimeLimit \<Rightarrow> (TimeLimitExceeded, None)
      | WallTimeLimit \<Rightarrow> (TimeLimitExceeded, Some ''wall-clock limit (sleeping or blocked)'')
      | MemoryLimit \<Rightarrow> (MemoryLimitExceeded, None)
      | OutputLimit \<Rightarrow> (OutputLimitExceeded, None))"

definition compile_spec :: "judge_config \<Rightarrow> language \<Rightarrow> step \<Rightarrow> exec_spec" where
  "compile_spec c lang st =
     \<lparr>es_argv = st_argv st, es_env = st_env st, es_dirs = st_dirs st,
      es_limits =
        \<lparr>el_cpu_time = from_millis (jc_compile_cpu_time_ms c),
         el_extra_time = from_millis 500,
         el_wall_time = from_millis (jc_compile_wall_time_ms c),
         el_memory_kb = jc_compile_memory_kb c,
         el_processes = (case st_processes st of Some n \<Rightarrow> n | None \<Rightarrow> jc_compile_processes c),
         el_file_size_kb = max (jc_file_size_kb c) (256 * 1024),
         el_stdout_bytes = jc_compile_output_bytes c,
         el_stderr_bytes = jc_compile_output_bytes c,
         el_address_space_limit = lg_address_space_limit lang\<rparr>,
      es_stderr_to_stdout = True,
      es_syscall_flags = st_syscall_flags st\<rparr>"

definition scaled_cpu_ms :: "u64 \<Rightarrow> f64 \<Rightarrow> u64" where
  "scaled_cpu_ms limit_ms multiplier =
     f64_as_u64 (f64_ceil (f64_mul (f64_of_u64 limit_ms) multiplier))"

text \<open>\<open>cpu_ms * 2 + 1000\<close> is \<open>u64\<close> arithmetic, which wraps in release builds.\<close>

definition run_spec :: "judge_config \<Rightarrow> language \<Rightarrow> judge_request \<Rightarrow> exec_spec" where
  "run_spec c lang req =
     (let cpu_ms = scaled_cpu_ms (rq_time_limit_ms req) (lg_time_multiplier lang); r = lg_run lang
      in \<lparr>es_argv = st_argv r, es_env = st_env r, es_dirs = st_dirs r,
          es_limits =
            \<lparr>el_cpu_time = from_millis cpu_ms,
             el_extra_time = from_millis 500,
             el_wall_time = from_millis (cpu_ms * 2 + 1000),
             el_memory_kb = rq_memory_limit_kb req,
             el_processes = (case st_processes r of Some n \<Rightarrow> n | None \<Rightarrow> jc_run_processes c),
             el_file_size_kb = jc_file_size_kb c,
             el_stdout_bytes = jc_stdout_bytes c,
             el_stderr_bytes = jc_stderr_bytes c,
             el_address_space_limit = lg_address_space_limit lang\<rparr>,
          es_stderr_to_stdout = False,
          es_syscall_flags = st_syscall_flags r\<rparr>)"

definition max_u64 :: "u64 list \<Rightarrow> u64" where
  "max_u64 xs = fold max xs 0"

definition filter_empty :: "string \<Rightarrow> string option" where
  "filter_empty s = (if s = [] then None else Some s)"

definition then_some :: "bool \<Rightarrow> 'a \<Rightarrow> 'a option" where
  "then_some b x = (if b then Some x else None)"

definition test_entry ::
  "judge_config \<Rightarrow> judge_request \<Rightarrow> bool \<Rightarrow> test_case \<Rightarrow> exec_outcome \<Rightarrow> test_result" where
  "test_entry cfg req first_failure test out =
     (let (verdict, message) = classify out test (rq_comparer req);
          show_io = rq_capture_output req \<or> (first_failure \<and> rq_show_failed_input req);
          n = jc_excerpt_bytes cfg
      in \<lparr>tr_name = tc_name test, tr_verdict = verdict, tr_time_ms = oc_cpu_time_ms out,
          tr_memory_kb = oc_memory_kb out, tr_message = message,
          tr_input = then_some show_io (excerpt (tc_input test) n),
          tr_expected = Option.bind (then_some show_io (map_option (\<lambda>e. excerpt e n) (tc_expected test))) id,
          tr_stdout = then_some show_io (excerpt (oc_stdout out) n),
          tr_stderr = Option.bind (then_some (show_io \<or> verdict = RuntimeError)
                        (excerpt (oc_stderr out) n)) filter_empty\<rparr>)"

section \<open>The pipeline over a sandbox\<close>

type_synonym ('s, 'a) judging = "('s \<times> progress list, judge_error, 'a) io"

definition in_box :: "('s, sandbox_error, 'a) io \<Rightarrow> ('s, 'a) judging" where
  "in_box m w =
     (case m (fst w) of
        (Err e, s') \<Rightarrow> (Err (Sandbox_Failed e), (s', snd w))
      | (Ok a, s') \<Rightarrow> (Ok a, (s', snd w)))"

definition notify :: "bool \<Rightarrow> progress \<Rightarrow> ('s, unit) judging" where
  "notify listening p w = (Ok (), (fst w, if listening then snd w @ [p] else snd w))"

text \<open>\<open>Inl\<close> is the text of a failed compilation, \<open>Inr\<close> the output of a successful one.\<close>

definition compile_reason :: "exec_status \<Rightarrow> string" where
  "compile_reason st =
     (case st of
        TimeLimit \<Rightarrow> ''compilation timed out'' @ [newline]
      | WallTimeLimit \<Rightarrow> ''compilation timed out'' @ [newline]
      | MemoryLimit \<Rightarrow> ''compiler ran out of memory'' @ [newline]
      | _ \<Rightarrow> '''')"

definition compile_phase ::
  "('s, 'b) sandbox \<Rightarrow> judge_config \<Rightarrow> 'b \<Rightarrow> language \<Rightarrow> bool \<Rightarrow>
   ('s, string + string option) judging" where
  "compile_phase sb cfg bx lang listening =
     (case lg_compile lang of
        None \<Rightarrow> io_ok (Inr None)
      | Some st \<Rightarrow>
          and_then (notify listening P_Compiling) (\<lambda>_.
          and_then (in_box (sb_exec sb bx (compile_spec cfg lang st) [])) (\<lambda>out.
          let txt = excerpt (oc_stdout out) (jc_compile_output_bytes cfg)
          in if oc_status out \<noteq> ExOk then io_ok (Inl (compile_reason (oc_status out) @ txt))
             else io_ok (Inr (filter_empty txt)))))"

text \<open>The \<open>for\<close> loop over the tests; \<open>i\<close> is its index.\<close>

fun run_loop ::
  "('s, 'b) sandbox \<Rightarrow> judge_config \<Rightarrow> 'b \<Rightarrow> exec_spec \<Rightarrow> judge_request \<Rightarrow> bool \<Rightarrow>
   nat \<Rightarrow> test_case list \<Rightarrow> test_result list \<Rightarrow> string option \<Rightarrow>
   ('s, test_result list \<times> string option) judging" where
  "run_loop sb cfg bx spec req listening i [] results failed_test = io_ok (results, failed_test)"
| "run_loop sb cfg bx spec req listening i (test # rest) results failed_test =
     and_then (in_box (sb_exec sb bx spec (tc_input test))) (\<lambda>out.
     let verdict = fst (classify out test (rq_comparer req));
         first_failure = (verdict \<noteq> Accepted \<and> failed_test = None);
         failed_test' = (if first_failure then Some (tc_name test) else failed_test);
         results' = results @ [test_entry cfg req first_failure test out]
     in and_then (notify listening (P_Running (i + 1) (length (rq_tests req)))) (\<lambda>_.
        if first_failure \<and> rq_stop_on_first_failure req then io_ok (results', failed_test')
        else run_loop sb cfg bx spec req listening (i + 1) rest results' failed_test'))"

definition final_verdict :: "test_result list \<Rightarrow> verdict" where
  "final_verdict results =
     (case find (\<lambda>v. v \<noteq> Accepted) (map tr_verdict results) of Some v \<Rightarrow> v | None \<Rightarrow> Accepted)"

definition judge_in_box ::
  "('s, 'b) sandbox \<Rightarrow> judge_config \<Rightarrow> 'b \<Rightarrow> language \<Rightarrow> judge_request \<Rightarrow> bool \<Rightarrow>
   ('s, judge_result) judging" where
  "judge_in_box sb cfg bx lang req listening =
     (let total = length (rq_tests req)
      in and_then (in_box (sb_write_file sb bx (lg_source_file lang) (rq_source req))) (\<lambda>_.
         and_then (compile_phase sb cfg bx lang listening) (\<lambda>compiled.
         case compiled of
           Inl txt \<Rightarrow>
             io_ok \<lparr>jr_verdict = CompileError, jr_time_ms = 0, jr_memory_kb = 0,
               jr_failed_test = None, jr_compile_output = Some txt, jr_tests = [],
               jr_tests_total = total\<rparr>
         | Inr compile_output \<Rightarrow>
             and_then (notify listening (P_Running 0 total)) (\<lambda>_.
             and_then (run_loop sb cfg bx (run_spec cfg lang req) req listening 0
                         (rq_tests req) [] None) (\<lambda>(results, failed_test).
             io_ok \<lparr>jr_verdict = final_verdict results,
               jr_time_ms = max_u64 (map tr_time_ms results),
               jr_memory_kb = max_u64 (map tr_memory_kb results),
               jr_failed_test = failed_test, jr_compile_output = compile_output,
               jr_tests = results, jr_tests_total = total\<rparr>)))))"

text \<open>
  \<open>Judge::judge\<close>. \<open>None\<close>: it waits for a box. The box is released whatever happened in it,
  and a failing release is only logged.
\<close>

definition judge ::
  "('s, 'b) sandbox \<Rightarrow> registry \<Rightarrow> judge_config \<Rightarrow> judge_request \<Rightarrow> bool \<Rightarrow> 's \<Rightarrow>
   ((judge_error + judge_result) \<times> 's \<times> progress list) option" where
  "judge sb langs cfg req listening s =
     (case get_language langs (rq_language req) of
        None \<Rightarrow> Some (Err (UnknownLanguage (rq_language req)), s, [])
      | Some lang \<Rightarrow>
          (case sb_acquire sb s of
             None \<Rightarrow> None
           | Some (Err e, s') \<Rightarrow> Some (Err (Sandbox_Failed e), s', [])
           | Some (Ok bx, s') \<Rightarrow>
               (let (result, w) = judge_in_box sb cfg bx lang req listening (s', [])
                in Some (result, snd (sb_release sb bx (fst w)), snd w))))"

section \<open>What is asked of the sandbox, apart from what is reported\<close>

text \<open>
  \<open>run_all\<close> executes the tests one after the other as far as the pipeline does, and returns
  the executed tests with their outcomes and the error that stopped it, if any; \<open>entries\<close> is
  what is reported of them. \<open>failed\<close> says that a failure was seen before.
\<close>

definition is_bad :: "judge_request \<Rightarrow> test_case \<Rightarrow> exec_outcome \<Rightarrow> bool" where
  "is_bad req test out \<longleftrightarrow> fst (classify out test (rq_comparer req)) \<noteq> Accepted"

fun run_all ::
  "('s, 'b) sandbox \<Rightarrow> 'b \<Rightarrow> exec_spec \<Rightarrow> judge_request \<Rightarrow> bool \<Rightarrow> test_case list \<Rightarrow> 's \<Rightarrow>
   (test_case \<times> exec_outcome) list \<times> sandbox_error option \<times> 's" where
  "run_all sb bx spec req failed [] s = ([], None, s)"
| "run_all sb bx spec req failed (test # rest) s =
     (case sb_exec sb bx spec (tc_input test) s of
        (Err e, s') \<Rightarrow> ([], Some e, s')
      | (Ok out, s') \<Rightarrow>
          if is_bad req test out \<and> \<not> failed \<and> rq_stop_on_first_failure req
          then ([(test, out)], None, s')
          else (let (xs, e, s'') = run_all sb bx spec req (failed \<or> is_bad req test out) rest s'
                in ((test, out) # xs, e, s'')))"

fun entries ::
  "judge_config \<Rightarrow> judge_request \<Rightarrow> bool \<Rightarrow> (test_case \<times> exec_outcome) list \<Rightarrow> test_result list" where
  "entries cfg req failed [] = []"
| "entries cfg req failed ((test, out) # xs) =
     test_entry cfg req (is_bad req test out \<and> \<not> failed) test out #
     entries cfg req (failed \<or> is_bad req test out) xs"

fun first_bad :: "judge_request \<Rightarrow> (test_case \<times> exec_outcome) list \<Rightarrow> string option" where
  "first_bad req [] = None"
| "first_bad req ((test, out) # xs) = (if is_bad req test out then Some (tc_name test) else first_bad req xs)"

definition running_events :: "bool \<Rightarrow> nat \<Rightarrow> nat \<Rightarrow> nat \<Rightarrow> progress list" where
  "running_events listening i n tot =
     (if listening then map (\<lambda>k. P_Running k tot) [i ..< i + n] else [])"

lemma running_events_0 [simp]: "running_events l i 0 t = []"
  by (simp add: running_events_def)

lemma running_events_Suc:
  "running_events l i (Suc n) t = (if l then [P_Running i t] else []) @ running_events l (Suc i) n t"
  by (simp add: running_events_def upt_conv_Cons)

text \<open>The loop is \<open>run_all\<close> followed by \<open>entries\<close>, with one event per executed test.\<close>

lemma run_loop_eq:
  "run_loop sb cfg bx spec req l i tests results failed_test (s, ps) =
     (let (xs, err, s') = run_all sb bx spec req (failed_test \<noteq> None) tests s;
          ps' = ps @ running_events l (i + 1) (length xs) (length (rq_tests req))
      in case err of
           Some e \<Rightarrow> (Err (Sandbox_Failed e), (s', ps'))
         | None \<Rightarrow> (Ok (results @ entries cfg req (failed_test \<noteq> None) xs,
                     (case failed_test of Some n \<Rightarrow> Some n | None \<Rightarrow> first_bad req xs)), (s', ps')))"
proof (induction tests arbitrary: i results failed_test s ps)
  case Nil
  show ?case by (simp add: running_events_def split: option.splits)
next
  case (Cons test rest)
  show ?case
  proof (cases "sb_exec sb bx spec (tc_input test) s")
    case (Pair r s1)
    show ?thesis
    proof (cases r)
      case (Inl e)
      with Pair show ?thesis by (simp add: and_then_def in_box_def)
    next
      case (Inr out)
      define b where "b = is_bad req test out"
      have b: "(fst (classify out test (rq_comparer req)) \<noteq> Accepted) = b"
        by (simp add: b_def is_bad_def)
      show ?thesis
      proof (cases "b \<and> failed_test = None \<and> rq_stop_on_first_failure req")
        case True
        with Pair Inr b b_def show ?thesis
          by (auto simp: and_then_def in_box_def notify_def Let_def running_events_def)
      next
        case False
        with Pair Inr b b_def show ?thesis
          by (auto simp: and_then_def in_box_def notify_def Let_def running_events_Suc Cons.IH
              split: prod.splits option.splits)
      qed
    qed
  qed
qed

end
