(* ===== verification/Judge_Pipeline_Facts.thy ===== *)
theory Judge_Pipeline_Facts
  imports Judge_Pipeline
begin

text \<open>
  What the judging pipeline guarantees: the verdict is the first failure's, judging stops
  there, hidden data stays hidden, the sandbox sees inputs only, the events follow the run,
  and the result is a function of the request when programs are.
\<close>

section \<open>The executed tests and their entries\<close>

lemma run_all_prefix:
  "run_all sb bx spec req failed tests s = (xs, err, s') \<Longrightarrow> map fst xs = take (length xs) tests"
  by (induction tests arbitrary: failed s xs err s')
    (auto split: prod.splits sum.splits if_splits)

lemma run_all_length:
  "run_all sb bx spec req failed tests s = (xs, err, s') \<Longrightarrow> length xs \<le> length tests"
  by (drule run_all_prefix) (metis length_map length_take min.cobounded1)

text \<open>Without an error the run ends early only at a first failure, when it is asked to.\<close>

lemma run_all_complete:
  assumes "run_all sb bx spec req failed tests s = (xs, None, s')"
  shows "length xs = length tests \<or>
    (rq_stop_on_first_failure req \<and> \<not> failed \<and> xs \<noteq> [] \<and> is_bad req (fst (last xs)) (snd (last xs)))"
  using assms
proof (induction tests arbitrary: failed s xs)
  case (Cons t ts)
  obtain r s1 where e: "sb_exec sb bx spec (tc_input t) s = (r, s1)" by fastforce
  then obtain out where r: "r = Ok out" using Cons.prems by (cases r) auto
  show ?case
  proof (cases "is_bad req t out \<and> \<not> failed \<and> rq_stop_on_first_failure req")
    case True
    with Cons.prems e r show ?thesis by auto
  next
    case False
    then obtain ys where ys: "run_all sb bx spec req (failed \<or> is_bad req t out) ts s1 = (ys, None, s')"
      and xs: "xs = (t, out) # ys"
      using Cons.prems e r by (auto simp: Let_def split: prod.splits)
    from Cons.IH [OF ys] xs show ?thesis by auto
  qed
qed simp

lemma run_all_stops:
  assumes "run_all sb bx spec req False tests s = (xs, err, s')" and "rq_stop_on_first_failure req"
  shows "\<forall>(t, out) \<in> set (butlast xs). \<not> is_bad req t out"
  using assms
proof (induction tests arbitrary: s xs)
  case (Cons t ts)
  obtain r s1 where e: "sb_exec sb bx spec (tc_input t) s = (r, s1)" by fastforce
  show ?case
  proof (cases r)
    case (Inl _)
    with Cons.prems e show ?thesis by auto
  next
    case (Inr out)
    show ?thesis
    proof (cases "is_bad req t out")
      case True
      with Cons.prems e Inr show ?thesis by auto
    next
      case False
      then obtain ys where ys: "run_all sb bx spec req False ts s1 = (ys, err, s')"
        and xs: "xs = (t, out) # ys"
        using Cons.prems e Inr by (auto simp: Let_def split: prod.splits)
      from Cons.IH [OF ys Cons.prems(2)] xs False show ?thesis by auto
    qed
  qed
qed simp

lemma length_entries [simp]: "length (entries cfg req failed xs) = length xs"
  by (induction cfg req failed xs rule: entries.induct) auto

lemma test_entry_verdict [simp]:
  "tr_verdict (test_entry cfg req f t out) = fst (classify out t (rq_comparer req))"
  "tr_name (test_entry cfg req f t out) = tc_name t"
  "tr_time_ms (test_entry cfg req f t out) = oc_cpu_time_ms out"
  by (simp_all add: test_entry_def Let_def split_beta)

lemma entries_verdicts:
  "map tr_verdict (entries cfg req failed xs) =
     map (\<lambda>(t, out). fst (classify out t (rq_comparer req))) xs"
  by (induction cfg req failed xs rule: entries.induct) auto

lemma entries_names: "map tr_name (entries cfg req failed xs) = map (tc_name \<circ> fst) xs"
  by (induction cfg req failed xs rule: entries.induct) auto

lemma entries_nth:
  "i < length xs \<Longrightarrow> entries cfg req failed xs ! i =
     test_entry cfg req
       (is_bad req (fst (xs ! i)) (snd (xs ! i)) \<and> \<not> failed \<and>
        (\<forall>j < i. \<not> is_bad req (fst (xs ! j)) (snd (xs ! j))))
       (fst (xs ! i)) (snd (xs ! i))"
proof (induction cfg req failed xs arbitrary: i rule: entries.induct)
  case (2 cfg req failed test out xs)
  show ?case
  proof (cases i)
    case (Suc k)
    have "(\<forall>j < Suc k. \<not> is_bad req (fst (((test, out) # xs) ! j)) (snd (((test, out) # xs) ! j))) \<longleftrightarrow>
        \<not> is_bad req test out \<and> (\<forall>j < k. \<not> is_bad req (fst (xs ! j)) (snd (xs ! j)))"
      by (auto simp: less_Suc_eq_0_disj)
    with 2 Suc show ?thesis by simp
  qed simp
qed simp

lemma bad_verdict:
  "i < length xs \<Longrightarrow>
     tr_verdict (entries cfg req failed xs ! i) \<noteq> Accepted \<longleftrightarrow> is_bad req (fst (xs ! i)) (snd (xs ! i))"
  by (simp add: entries_nth is_bad_def)

lemma final_verdict_Accepted:
  "final_verdict rs = Accepted \<longleftrightarrow> (\<forall>r \<in> set rs. tr_verdict r = Accepted)"
  by (induction rs) (auto simp: final_verdict_def)

lemma classify_cases:
  "fst (classify out t c) \<in> {Accepted, WrongAnswer, TimeLimitExceeded, MemoryLimitExceeded,
     RuntimeError, OutputLimitExceeded}"
  by (auto simp: classify_def split: exec_status.splits option.splits sum.splits)

text \<open>When a test passes: the program ended normally and the comparer accepts its output.\<close>

definition passes :: "comparer \<Rightarrow> test_case \<Rightarrow> exec_outcome \<Rightarrow> bool" where
  "passes c t out \<longleftrightarrow> oc_status out = ExOk \<and>
     (case tc_expected t of None \<Rightarrow> True | Some e \<Rightarrow> accepts c e (oc_stdout out))"

lemma not_bad_passes: "\<not> is_bad req t out \<longleftrightarrow> passes (rq_comparer req) t out"
  by (auto simp: is_bad_def passes_def classify_def
      split: exec_status.splits option.splits sum.splits)

section \<open>The result of a judged box\<close>

text \<open>The two ways to an \<open>Ok\<close> result: a failed compilation, or a run of the tests.\<close>

definition compile_error_result :: "judge_request \<Rightarrow> string \<Rightarrow> judge_result" where
  "compile_error_result req txt = \<lparr>jr_verdict = CompileError, jr_time_ms = 0, jr_memory_kb = 0,
     jr_failed_test = None, jr_compile_output = Some txt, jr_tests = [],
     jr_tests_total = length (rq_tests req)\<rparr>"

definition run_result ::
  "judge_config \<Rightarrow> judge_request \<Rightarrow> string option \<Rightarrow> (test_case \<times> exec_outcome) list \<Rightarrow> judge_result" where
  "run_result cfg req co xs = (let rs = entries cfg req False xs in
     \<lparr>jr_verdict = final_verdict rs, jr_time_ms = max_u64 (map tr_time_ms rs),
      jr_memory_kb = max_u64 (map tr_memory_kb rs), jr_failed_test = first_bad req xs,
      jr_compile_output = co, jr_tests = rs, jr_tests_total = length (rq_tests req)\<rparr>)"

lemma judge_in_box_OkE:
  assumes "judge_in_box sb cfg bx lang req l (s, ps) = (Ok res, w')"
  obtains (compile_error) out where
    "res = compile_error_result req out" "lg_compile lang \<noteq> None"
    "snd w' = ps @ (if l then [P_Compiling] else [])"
  | (run) co s1 xs where
    "run_all sb bx (run_spec cfg lang req) req False (rq_tests req) s1 = (xs, None, fst w')"
    "res = run_result cfg req co xs"
    "snd w' = ps @ (if l then (if lg_compile lang = None then [] else [P_Compiling]) @
       map (\<lambda>k. P_Running k (length (rq_tests req))) [0 ..< Suc (length xs)] else [])"
proof -
  obtain u w1 where w1: "in_box (sb_write_file sb bx (lg_source_file lang) (rq_source req)) (s, ps) = (Ok u, w1)"
    and c: "and_then (compile_phase sb cfg bx lang l) (\<lambda>compiled.
         case compiled of
           Inl txt \<Rightarrow> io_ok (compile_error_result req txt)
         | Inr compile_output \<Rightarrow>
             and_then (notify l (P_Running 0 (length (rq_tests req)))) (\<lambda>_.
             and_then (run_loop sb cfg bx (run_spec cfg lang req) req l 0
                         (rq_tests req) [] None) (\<lambda>(results, failed_test).
             io_ok \<lparr>jr_verdict = final_verdict results,
               jr_time_ms = max_u64 (map tr_time_ms results),
               jr_memory_kb = max_u64 (map tr_memory_kb results),
               jr_failed_test = failed_test, jr_compile_output = compile_output,
               jr_tests = results, jr_tests_total = length (rq_tests req)\<rparr>))) w1 = (Ok res, w')"
    using assms unfolding judge_in_box_def Let_def compile_error_result_def
    by (erule and_then_OkE)
  have sw1: "snd w1 = ps"
    using w1 by (auto simp: in_box_def split: prod.splits sum.splits)
  from c obtain cr w2 where w2: "compile_phase sb cfg bx lang l w1 = (Ok cr, w2)"
    by (rule and_then_OkE) blast
  have sw2: "snd w2 = ps @ (if l \<and> lg_compile lang \<noteq> None then [P_Compiling] else [])"
    and cr: "cr = Inl out \<Longrightarrow> lg_compile lang \<noteq> None" for out
    using w2 sw1
    by (auto simp: compile_phase_def and_then_def in_box_def notify_def Let_def
        split: option.splits prod.splits sum.splits if_splits)
  show thesis
  proof (cases cr)
    case (Inl out)
    with c w2 sw2 cr show thesis by (intro compile_error [of out]) auto
  next
    case (Inr co)
    obtain s2 ps2 where s2: "w2 = (s2, ps2)" by fastforce
    obtain xs err s3 where r: "run_all sb bx (run_spec cfg lang req) req False (rq_tests req) s2 = (xs, err, s3)"
      by (metis prod_cases3)
    have "err = None" and "w' = (s3, ps2 @ running_events l 0 (Suc (length xs)) (length (rq_tests req)))" and "res = run_result cfg req co xs"
      using c w2 Inr s2 r
      by (auto simp: and_then_def notify_def run_loop_eq run_result_def Let_def running_events_Suc
          split: option.splits)
    with r sw2 s2 show thesis
      by (intro run [of s2 xs co]) (auto simp: running_events_def simp del: upt_Suc)
  qed
qed

section \<open>The specification: what judging promises when programs are functions\<close>

text \<open>
  \<open>f\<close> gives the outcome of a command on an input. The tests that count are all of them, or
  those up to the first that does not pass when judging stops there.
\<close>

definition counted_tests ::
  "(bytes \<Rightarrow> exec_outcome) \<Rightarrow> judge_request \<Rightarrow> test_case list \<Rightarrow> test_case list" where
  "counted_tests g req tests =
     (let ok = (\<lambda>t. passes (rq_comparer req) t (g (tc_input t)))
      in if rq_stop_on_first_failure req
         then takeWhile ok tests @ take 1 (dropWhile ok tests) else tests)"

definition compile_outcome ::
  "(exec_spec \<Rightarrow> bytes \<Rightarrow> exec_outcome) \<Rightarrow> judge_config \<Rightarrow> language \<Rightarrow> exec_outcome option" where
  "compile_outcome f cfg lang = map_option (\<lambda>st. f (compile_spec cfg lang st) []) (lg_compile lang)"

definition compiles ::
  "(exec_spec \<Rightarrow> bytes \<Rightarrow> exec_outcome) \<Rightarrow> judge_config \<Rightarrow> language \<Rightarrow> bool" where
  "compiles f cfg lang \<longleftrightarrow>
     (case compile_outcome f cfg lang of None \<Rightarrow> True | Some out \<Rightarrow> oc_status out = ExOk)"

definition judge_spec ::
  "(exec_spec \<Rightarrow> bytes \<Rightarrow> exec_outcome) \<Rightarrow> language \<Rightarrow> judge_config \<Rightarrow> judge_request \<Rightarrow> judge_result" where
  "judge_spec f lang cfg req =
     (let g = f (run_spec cfg lang req);
          xs = map (\<lambda>t. (t, g (tc_input t))) (counted_tests g req (rq_tests req))
      in case compile_outcome f cfg lang of
           None \<Rightarrow> run_result cfg req None xs
         | Some out \<Rightarrow>
             (let listing = excerpt (oc_stdout out) (jc_compile_output_bytes cfg)
              in if oc_status out \<noteq> ExOk
                 then compile_error_result req (compile_reason (oc_status out) @ listing)
                 else run_result cfg req (filter_empty listing) xs))"

definition spec_events ::
  "(exec_spec \<Rightarrow> bytes \<Rightarrow> exec_outcome) \<Rightarrow> language \<Rightarrow> judge_config \<Rightarrow> judge_request \<Rightarrow> progress list" where
  "spec_events f lang cfg req =
     (if lg_compile lang = None then [] else [P_Compiling]) @
     (if compiles f cfg lang
      then map (\<lambda>k. P_Running k (length (rq_tests req)))
        [0 ..< Suc (length (counted_tests (f (run_spec cfg lang req)) req (rq_tests req)))]
      else [])"

lemma counted_tests_Cons:
  "counted_tests g req (t # ts) =
     (if rq_stop_on_first_failure req \<and> \<not> passes (rq_comparer req) t (g (tc_input t)) then [t]
      else t # counted_tests g req ts)"
  by (simp add: counted_tests_def Let_def)

lemma counted_tests_Nil [simp]: "counted_tests g req [] = []"
  by (simp add: counted_tests_def Let_def)

lemma counted_tests_all_pass:
  "(\<forall>t \<in> set (counted_tests g req ts). passes (rq_comparer req) t (g (tc_input t))) \<longleftrightarrow>
   (\<forall>t \<in> set ts. passes (rq_comparer req) t (g (tc_input t)))"
  by (induction ts) (auto simp: counted_tests_Cons)

lemma is_bad_iff: "is_bad req t out \<longleftrightarrow> \<not> passes (rq_comparer req) t out"
  using not_bad_passes by blast

lemma entry_accepted:
  "i < length xs \<Longrightarrow> tr_verdict (entries cfg req failed xs ! i) = Accepted \<longleftrightarrow>
     passes (rq_comparer req) (fst (xs ! i)) (snd (xs ! i))"
  using bad_verdict not_bad_passes by blast

lemma run_result_Accepted:
  "jr_verdict (run_result cfg req co xs) = Accepted \<longleftrightarrow>
     (\<forall>(t, out) \<in> set xs. passes (rq_comparer req) t out)"
  by (simp add: run_result_def Let_def final_verdict_Accepted all_set_conv_all_nth entry_accepted
      split_beta)

lemma passes_classify: "passes c t out \<Longrightarrow> fst (classify out t c) = Accepted"
  by (auto simp: passes_def classify_def split: option.splits sum.splits)

lemma judge_spec_Accepted:
  "jr_verdict (judge_spec f lang cfg req) = Accepted \<longleftrightarrow>
     compiles f cfg lang \<and>
     (\<forall>t \<in> set (rq_tests req). passes (rq_comparer req) t (f (run_spec cfg lang req) (tc_input t)))"
  by (auto simp: judge_spec_def compiles_def Let_def compile_error_result_def run_result_Accepted
      counted_tests_all_pass split: option.splits)

context deterministic_sandbox
begin

lemma run_all_det:
  "run_all sb bx spec req failed tests s = (xs, err, s') \<Longrightarrow>
     err = None \<and>
     xs = map (\<lambda>t. (t, outcome spec (tc_input t)))
            (if failed then tests else counted_tests (outcome spec) req tests)"
proof (induction tests arbitrary: failed s xs)
  case (Cons t ts)
  obtain s1 where e: "sb_exec sb bx spec (tc_input t) s = (Ok (outcome spec (tc_input t)), s1)"
    using exec_outcome [of bx spec "tc_input t" s] by (metis prod.collapse)
  show ?case
  proof (cases "\<not> failed \<and> rq_stop_on_first_failure req \<and> is_bad req t (outcome spec (tc_input t))")
    case True
    with Cons.prems e show ?thesis by (simp add: counted_tests_Cons is_bad_iff)
  next
    case False
    then obtain ys where
      r: "run_all sb bx spec req (failed \<or> is_bad req t (outcome spec (tc_input t))) ts s1 = (ys, err, s')"
      and xs: "xs = (t, outcome spec (tc_input t)) # ys"
      using Cons.prems e by (auto simp: Let_def split: prod.splits)
    show ?thesis
    proof (cases "rq_stop_on_first_failure req")
      case True
      with Cons.IH [OF r] xs False show ?thesis by (auto simp: counted_tests_Cons is_bad_iff)
    next
      case no_stop: False
      then have "counted_tests (outcome spec) req us = us" for us
        by (simp add: counted_tests_def)
      with Cons.IH [OF r] xs show ?thesis by simp
    qed
  qed
qed simp

lemma write_det:
  "in_box (sb_write_file sb bx name c) (s, ps) = (case written name of
     Err e \<Rightarrow> (Err (Sandbox_Failed e), (snd (sb_write_file sb bx name c s), ps))
   | Ok u \<Rightarrow> (Ok u, (snd (sb_write_file sb bx name c s), ps)))"
  using write_result [of bx name c s]
  by (cases "sb_write_file sb bx name c s") (auto simp: in_box_def split: sum.splits)

lemma exec_det:
  "in_box (sb_exec sb bx spec i) (s, ps) = (Ok (outcome spec i), (snd (sb_exec sb bx spec i s), ps))"
  using exec_outcome [of bx spec i s]
  by (cases "sb_exec sb bx spec i s") (auto simp: in_box_def)

lemma compile_phase_det:
  "\<exists>s'. compile_phase sb cfg bx lang l (s, ps) =
     (Ok (case compile_outcome outcome cfg lang of
            None \<Rightarrow> Inr None
          | Some out \<Rightarrow>
              (let listing = excerpt (oc_stdout out) (jc_compile_output_bytes cfg)
               in if oc_status out \<noteq> ExOk then Inl (compile_reason (oc_status out) @ listing)
                  else Inr (filter_empty listing))),
      (s', ps @ (if l \<and> lg_compile lang \<noteq> None then [P_Compiling] else [])))"
  by (cases "lg_compile lang")
    (auto simp: compile_phase_def compile_outcome_def and_then_def notify_def exec_det Let_def)

lemma run_loop_det:
  "\<exists>s'. run_loop sb cfg bx spec req l 0 (rq_tests req) [] None (s, ps) =
     (let xs = map (\<lambda>t. (t, outcome spec (tc_input t))) (counted_tests (outcome spec) req (rq_tests req))
      in (Ok (entries cfg req False xs, first_bad req xs),
          (s', ps @ running_events l 1 (length xs) (length (rq_tests req)))))"
  by (cases "run_all sb bx spec req False (rq_tests req) s")
    (auto simp: run_loop_eq Let_def dest!: run_all_det)

lemma judge_in_box_det:
  assumes "written (lg_source_file lang) = Ok ()"
  shows "\<exists>s'. judge_in_box sb cfg bx lang req l (s, ps) =
     (Ok (judge_spec outcome lang cfg req),
      (s', ps @ (if l then spec_events outcome lang cfg req else [])))"
proof -
  define s1 where "s1 = snd (sb_write_file sb bx (lg_source_file lang) (rq_source req) s)"
  have w: "in_box (sb_write_file sb bx (lg_source_file lang) (rq_source req)) (s, ps) = (Ok (), (s1, ps))"
    using assms by (simp add: write_det s1_def)
  obtain s2 where c: "compile_phase sb cfg bx lang l (s1, ps) =
     (Ok (case compile_outcome outcome cfg lang of
            None \<Rightarrow> Inr None
          | Some out \<Rightarrow>
              (let listing = excerpt (oc_stdout out) (jc_compile_output_bytes cfg)
               in if oc_status out \<noteq> ExOk then Inl (compile_reason (oc_status out) @ listing)
                  else Inr (filter_empty listing))),
      (s2, ps @ (if l \<and> lg_compile lang \<noteq> None then [P_Compiling] else [])))"
    using compile_phase_det by blast
  define ps2 where "ps2 = ps @ (if l \<and> lg_compile lang \<noteq> None then [P_Compiling] else [])"
  define ps3 where "ps3 = (if l then ps2 @ [P_Running 0 (length (rq_tests req))] else ps2)"
  obtain s3 where r: "run_loop sb cfg bx (run_spec cfg lang req) req l 0 (rq_tests req) [] None (s2, ps3) =
     (let xs = map (\<lambda>t. (t, outcome (run_spec cfg lang req) (tc_input t)))
        (counted_tests (outcome (run_spec cfg lang req)) req (rq_tests req))
      in (Ok (entries cfg req False xs, first_bad req xs),
          (s3, ps3 @ running_events l 1 (length xs) (length (rq_tests req)))))"
    using run_loop_det by blast
  show ?thesis
    using w c r
    by (cases "compile_outcome outcome cfg lang")
      (auto simp: judge_in_box_def and_then_def notify_def Let_def judge_spec_def spec_events_def
        compiles_def compile_outcome_def run_result_def compile_error_result_def ps2_def ps3_def
        running_events_def upt_conv_Cons simp del: upt_Suc)
qed

lemma judge_det:
  assumes "get_language langs (rq_language req) = Some lang"
    and "written (lg_source_file lang) = Ok ()"
    and "judge sb langs cfg req l s = Some (r, s', ps)"
    and "sb_acquire sb s = Some (Ok bx, s1)"
  shows "r = Ok (judge_spec outcome lang cfg req) \<and>
    ps = (if l then spec_events outcome lang cfg req else [])"
  using assms(1,3,4) judge_in_box_det [OF assms(2), of cfg bx req l s1 "[]"]
  by (auto simp: judge_def)

end

section \<open>Boxes are given back\<close>

context sandbox_provider
begin

definition kept :: "'b \<Rightarrow> 's \<Rightarrow> 's \<Rightarrow> bool" where
  "kept bx s s' \<longleftrightarrow> (inv s \<longrightarrow> holds bx s \<longrightarrow> inv s' \<and> holds bx s' \<and> live s' = live s)"

lemma kept_refl: "kept bx s s"
  by (simp add: kept_def)

lemma kept_trans: "kept bx s t \<Longrightarrow> kept bx t u \<Longrightarrow> kept bx s u"
  by (auto simp: kept_def)

lemma in_box_kept:
  "(\<And>s. kept bx s (snd (m s))) \<Longrightarrow> kept bx (fst w) (fst (snd (in_box m w)))"
  by (auto simp: in_box_def split: prod.splits sum.splits) (metis snd_conv)+

lemma exec_kept: "kept bx s (snd (sb_exec sb bx spec i s))"
  by (cases "sb_exec sb bx spec i s") (auto simp: kept_def dest: exec_keeps)

lemma write_kept: "kept bx s (snd (sb_write_file sb bx name c s))"
  by (cases "sb_write_file sb bx name c s") (auto simp: kept_def dest: write_keeps)

lemma notify_kept: "kept bx (fst w) (fst (snd (notify l p w)))"
  by (simp add: notify_def kept_refl)

lemma and_then_kept:
  assumes "kept bx (fst w) (fst (snd (m w)))"
    and "\<And>a w'. kept bx (fst w') (fst (snd (k a w')))"
  shows "kept bx (fst w) (fst (snd (and_then m k w)))"
  using assms by (auto simp: and_then_def split: prod.splits sum.splits) (metis kept_trans fst_conv snd_conv)

lemma run_all_kept: "kept bx s (snd (snd (run_all sb bx spec req failed tests s)))"
proof (induction tests arbitrary: failed s)
  case (Cons t ts)
  have k: "kept bx s (snd (sb_exec sb bx spec (tc_input t) s))" by (rule exec_kept)
  show ?case
    using k Cons.IH
    by (auto simp: Let_def split: prod.splits sum.splits) (metis kept_trans snd_conv)+
qed (simp add: kept_refl)

lemma run_loop_kept:
  "kept bx (fst w) (fst (snd (run_loop sb cfg bx spec req l i tests rs ft w)))"
  using run_all_kept [of bx "fst w" spec req "ft \<noteq> None" tests]
  by (cases w) (auto simp: run_loop_eq Let_def split: prod.splits option.splits)

lemma compile_phase_kept: "kept bx (fst w) (fst (snd (compile_phase sb cfg bx lang l w)))"
  by (auto simp: compile_phase_def Let_def io_ok_def kept_refl split: option.splits
      intro!: and_then_kept notify_kept in_box_kept exec_kept)

lemma judge_in_box_kept: "kept bx (fst w) (fst (snd (judge_in_box sb cfg bx lang req l w)))"
proof -
  have "kept bx (fst v) (fst (snd ((case c of
      Inl listing \<Rightarrow> io_ok (A listing)
    | Inr co \<Rightarrow> and_then (notify l p) (\<lambda>_.
        and_then (run_loop sb cfg bx spec req l 0 ts [] None) (\<lambda>(rs, ft).
        io_ok (B co rs ft)))) v)))" for v c A B p spec ts
  proof (cases c)
    case (Inr co)
    show ?thesis
      unfolding Inr sum.case
      by (intro and_then_kept notify_kept run_loop_kept) (simp add: io_ok_def kept_refl split_beta)
  qed (simp add: io_ok_def kept_refl)
  then show ?thesis
    unfolding judge_in_box_def Let_def
    by (intro and_then_kept in_box_kept write_kept compile_phase_kept)
qed

text \<open>Whatever happens, a judging leaves as many live boxes as it found.\<close>

lemma judge_restores:
  assumes "inv s" and "judge sb langs cfg req l s = Some (r, s', ps)"
  shows "inv s' \<and> live s' = live s"
proof (cases "get_language langs (rq_language req)")
  case (Some lang)
  then obtain a s1 where acq: "sb_acquire sb s = Some (a, s1)"
    using assms by (auto simp: judge_def split: option.splits prod.splits)
  show ?thesis
  proof (cases a)
    case (Inl e)
    with acq Some assms acquire_err show ?thesis by (auto simp: judge_def)
  next
    case (Inr bx)
    obtain q t qs where j: "judge_in_box sb cfg bx lang req l (s1, []) = (q, t, qs)"
      by (metis prod_cases3)
    have "inv s1" "holds bx s1" "live s1 = Suc (live s)"
      using acquire_ok assms(1) acq Inr by blast+
    with judge_in_box_kept [of bx "(s1, [])" cfg lang req l] j
    have t: "inv t" "holds bx t" "live t = Suc (live s)"
      by (auto simp: kept_def)
    have "s' = snd (sb_release sb bx t)"
      using Some acq Inr j assms(2) by (simp add: judge_def)
    with release_frees [OF t(1,2), of "fst (sb_release sb bx t)" s'] t(3) show ?thesis by simp
  qed
qed (use assms in \<open>auto simp: judge_def\<close>)

end

end
