(* ===== verification/Judge_Guarantees.thy ===== *)
theory Judge_Guarantees
  imports Judge_Pipeline_Facts
begin

text \<open>
  The guarantees of \<open>crates/judge/src/pipeline.rs\<close>: it implements its specification, accepts
  exactly what passes every test, reports the first failure, keeps hidden data hidden from the
  result and answers from the sandbox, and scales the limits.
\<close>

section \<open>What the pipeline guarantees\<close>

text \<open>C6: judging implements its specification. When the backend can write the source and its
programs are functions of command and input, \<open>judge\<close> returns exactly \<open>judge_spec\<close>, and sends
exactly \<open>spec_events\<close> to a listener, whatever the state of the backend, whichever box it hands
out and whether anyone listens: retries, duplicates and rejudges give the same result.\<close>

theorem judge_implements_spec:
  assumes "\<And>b name c s. fst (sb_write_file sb b name c s) = written name"
    and "\<And>b spec i s. fst (sb_exec sb b spec i s) = Ok (f spec i)"
    and "get_language langs (rq_language req) = Some lang"
    and "written (lg_source_file lang) = Ok ()"
    and "sb_acquire sb s = Some (Ok bx, s1)"
    and "judge sb langs cfg req l s = Some (r, s', ps)"
  shows "r = Ok (judge_spec f lang cfg req) \<and>
    ps = (if l then spec_events f lang cfg req else [])"
  by (rule deterministic_sandbox.judge_det [of sb written f, OF _ assms(3,4,6,5)])
    (unfold_locales, rule assms(1), rule assms(2))

definition sample_request :: "test_case list \<Rightarrow> judge_request" where
  "sample_request tests = \<lparr>rq_language = ''python'', rq_source = ''src'', rq_tests = tests,
     rq_time_limit_ms = 1000, rq_memory_limit_kb = 262144, rq_comparer = Lines,
     rq_stop_on_first_failure = True, rq_capture_output = False, rq_show_failed_input = False\<rparr>"

definition echo :: "exec_spec \<Rightarrow> bytes \<Rightarrow> exec_outcome" where
  "echo spec i = mock_ok i"

definition sample_registry :: registry where
  "sample_registry = [(''python'', sample_language\<lparr>lg_source_file := ''main.py'', lg_compile := None\<rparr>)]"

definition sample_tests :: "test_case list" where
  "sample_tests = [\<lparr>tc_name = ''01'', tc_input = ''1'', tc_expected = Some ''1''\<rparr>,
     \<lparr>tc_name = ''02'', tc_input = ''2'', tc_expected = Some ''9''\<rparr>,
     \<lparr>tc_name = ''03'', tc_input = ''3'', tc_expected = Some ''3''\<rparr>]"


lemma sample_lookup:
  "get_language sample_registry (rq_language (sample_request ts)) =
     Some (sample_language\<lparr>lg_source_file := ''main.py'', lg_compile := None\<rparr>)"
  by (simp add: get_language_def sample_registry_def sample_request_def)

lemma main_py_valid: "validate_file_name ''main.py'' = Ok ()"
  by code_simp

lemma scripted_acquires: "\<exists>s1. sb_acquire (scripted_ops f) s = Some (Ok (), s1)"
  by (simp add: scripted_ops_def mock_acquire_def)

lemma judge_returns:
  assumes "sb_acquire sb s = Some a"
  shows "\<exists>r s' ps. judge sb langs cfg req l s = Some (r, s', ps)"
  using assms by (auto simp: judge_def split: option.splits prod.splits sum.splits)

theorem judge_implements_spec_witness:
  "\<exists>s'. judge (scripted_ops echo) sample_registry default_judge_config
      (sample_request sample_tests) False mock_init =
    Some (Ok (judge_spec echo (sample_language\<lparr>lg_source_file := ''main.py'', lg_compile := None\<rparr>)
      default_judge_config (sample_request sample_tests)), s', [])"
proof -
  let ?lang = "sample_language\<lparr>lg_source_file := ''main.py'', lg_compile := None\<rparr>"
  obtain s1 where a: "sb_acquire (scripted_ops echo) mock_init = Some (Ok (), s1)"
    using scripted_acquires by blast
  obtain r s' ps where j: "judge (scripted_ops echo) sample_registry default_judge_config
      (sample_request sample_tests) False mock_init = Some (r, s', ps)"
    using judge_returns [OF a] by blast
  have w: "validate_file_name (lg_source_file ?lang) = Ok ()"
    by (simp add: main_py_valid)
  from judge_implements_spec [OF scripted.write_result scripted.exec_outcome sample_lookup w a j] j
  show ?thesis by simp
qed

lemma sample_language_source: "validate_file_name (lg_source_file
    (sample_language\<lparr>lg_source_file := ''main.py'', lg_compile := None\<rparr>)) = Ok ()"
  by (simp add: main_py_valid)

text \<open>The sample judged by a program that echoes its input.\<close>

lemma sample_judged:
  obtains s' ps where
    "judge (scripted_ops echo) sample_registry default_judge_config (sample_request ts) l mock_init =
      Some (Ok (judge_spec echo (sample_language\<lparr>lg_source_file := ''main.py'', lg_compile := None\<rparr>)
        default_judge_config (sample_request ts)), s', ps)"
proof -
  obtain s1 where a: "sb_acquire (scripted_ops echo) mock_init = Some (Ok (), s1)"
    using scripted_acquires by blast
  obtain r s' ps where j: "judge (scripted_ops echo) sample_registry default_judge_config
      (sample_request ts) l mock_init = Some (r, s', ps)"
    using judge_returns [OF a] by blast
  from scripted.judge_det [OF sample_lookup sample_language_source j a] j show thesis
    by (intro that) simp
qed

lemma sample_passes:
  "passes Lines (hd sample_tests) (mock_ok (tc_input (hd sample_tests)))"
  "\<not> passes Lines (sample_tests ! 1) (mock_ok (tc_input (sample_tests ! 1)))"
  by code_simp+

lemma sample_accepted:
  "jr_verdict (judge_spec echo (sample_language\<lparr>lg_source_file := ''main.py'', lg_compile := None\<rparr>)
     default_judge_config (sample_request [hd sample_tests])) = Accepted"
  using sample_passes(1)
  by (simp add: judge_spec_Accepted compiles_def compile_outcome_def sample_request_def echo_def)

section \<open>Accepted means every test passed\<close>

lemma judge_OkE:
  assumes "judge sb langs cfg req l s = Some (Ok res, s', ps)"
  obtains lang bx s1 t where
    "get_language langs (rq_language req) = Some lang"
    "sb_acquire sb s = Some (Ok bx, s1)"
    "judge_in_box sb cfg bx lang req l (s1, []) = (Ok res, (t, ps))"
    "s' = snd (sb_release sb bx t)"
proof -
  obtain lang where lang: "get_language langs (rq_language req) = Some lang"
    using assms by (auto simp: judge_def split: option.splits)
  then obtain bx s1 where a: "sb_acquire sb s = Some (Ok bx, s1)"
    using assms by (auto simp: judge_def split: option.splits prod.splits sum.splits)
  obtain q t qs where j: "judge_in_box sb cfg bx lang req l (s1, []) = (q, t, qs)"
    by (metis prod_cases3)
  with assms lang a have "q = Ok res" "qs = ps" "s' = snd (sb_release sb bx t)"
    by (auto simp: judge_def)
  with lang a j show thesis by (intro that) auto
qed

text \<open>An accepted submission compiled, and every test of the request was executed, in
order, with the run command on its own input, ended normally and satisfied the comparer; the
backend is arbitrary. No test is skipped on the way to a verdict of Accepted.\<close>

lemma accepted_means_every_test_passed:
  assumes "judge sb langs cfg req l s = Some (Ok res, s', ps)" and "jr_verdict res = Accepted"
  shows "\<exists>lang bx s1 s2 xs.
    get_language langs (rq_language req) = Some lang \<and>
    run_all sb bx (run_spec cfg lang req) req False (rq_tests req) s1 = (xs, None, s2) \<and>
    map fst xs = rq_tests req \<and>
    (\<forall>(t, out) \<in> set xs. passes (rq_comparer req) t out) \<and>
    map tr_verdict (jr_tests res) = map (\<lambda>_. Accepted) (rq_tests req)"
proof -
  obtain lang bx s1 t where lang: "get_language langs (rq_language req) = Some lang"
    and j: "judge_in_box sb cfg bx lang req l (s1, []) = (Ok res, (t, ps))"
    using assms(1) by (rule judge_OkE)
  from j show ?thesis
  proof (cases rule: judge_in_box_OkE)
    case (compile_error out)
    with assms(2) show ?thesis by (simp add: compile_error_result_def)
  next
    case (run co s2 xs)
    have ok: "\<forall>(t, out) \<in> set xs. passes (rq_comparer req) t out"
      using run(2) assms(2) by (simp add: run_result_Accepted)
    have "length xs = length (rq_tests req)"
      using run_all_complete [OF run(1)] ok by (auto simp: is_bad_iff split_beta)
    then have names: "map fst xs = rq_tests req"
      using run_all_prefix [OF run(1)] by simp
    have "map tr_verdict (jr_tests res) = map (\<lambda>_. Accepted) xs"
      using run(2) ok by (auto simp: run_result_def Let_def entries_verdicts passes_classify)
    also have "... = map (\<lambda>_. Accepted) (rq_tests req)"
      by (simp flip: names)
    finally show ?thesis using lang run(1) ok names by auto
  qed
qed

lemma accepted_means_every_test_passed_witness:
  "\<exists>lang bx s1 s2 xs.
    get_language sample_registry ''python'' = Some lang \<and>
    run_all (scripted_ops echo) bx (run_spec default_judge_config lang (sample_request [hd sample_tests]))
      (sample_request [hd sample_tests]) False [hd sample_tests] s1 = (xs, None, s2) \<and>
    map fst xs = [hd sample_tests]"
proof -
  obtain s' ps where j: "judge (scripted_ops echo) sample_registry default_judge_config
      (sample_request [hd sample_tests]) False mock_init =
      Some (Ok (judge_spec echo (sample_language\<lparr>lg_source_file := ''main.py'', lg_compile := None\<rparr>)
        default_judge_config (sample_request [hd sample_tests])), s', ps)"
    by (rule sample_judged)
  have "rq_tests (sample_request [hd sample_tests]) = [hd sample_tests]"
    and "rq_language (sample_request [hd sample_tests]) = ''python''"
    by (simp_all add: sample_request_def)
  with accepted_means_every_test_passed [OF j sample_accepted] show ?thesis by metis
qed

text \<open>C9: completeness and exactness of acceptance. With a backend whose programs are functions,
the verdict is Accepted exactly when the source compiles and every test passes.\<close>

theorem accepted_iff_every_test_passes:
  assumes "\<And>b name c s. fst (sb_write_file sb b name c s) = written name"
    and "\<And>b spec i s. fst (sb_exec sb b spec i s) = Ok (f spec i)"
    and "get_language langs (rq_language req) = Some lang"
    and "written (lg_source_file lang) = Ok ()"
    and "sb_acquire sb s = Some (Ok bx, s1)"
  shows "(\<exists>res s' ps. judge sb langs cfg req l s = Some (Ok res, s', ps) \<and> jr_verdict res = Accepted) \<longleftrightarrow>
    compiles f cfg lang \<and>
    (\<forall>t \<in> set (rq_tests req). passes (rq_comparer req) t (f (run_spec cfg lang req) (tc_input t)))"
proof -
  obtain r s' ps where j: "judge sb langs cfg req l s = Some (r, s', ps)"
    using judge_returns [OF assms(5)] by blast
  have "deterministic_sandbox sb written f"
    by unfold_locales (rule assms(1), rule assms(2))
  from deterministic_sandbox.judge_det [OF this assms(3,4) j assms(5)]
  have "r = Ok (judge_spec f lang cfg req)" by simp
  with j have "(\<exists>res s' ps. judge sb langs cfg req l s = Some (Ok res, s', ps) \<and> jr_verdict res = Accepted) \<longleftrightarrow>
      jr_verdict (judge_spec f lang cfg req) = Accepted" by simp
  then show ?thesis by (simp only: judge_spec_Accepted)
qed

theorem accepted_iff_every_test_passes_witness:
  "\<exists>res s' ps. judge (scripted_ops echo) sample_registry default_judge_config
     (sample_request [hd sample_tests]) False mock_init = Some (Ok res, s', ps) \<and>
   jr_verdict res = Accepted"
proof -
  obtain s1 where a: "sb_acquire (scripted_ops echo) mock_init = Some (Ok (), s1)"
    using scripted_acquires by blast
  show ?thesis
    using accepted_iff_every_test_passes [OF scripted.write_result scripted.exec_outcome sample_lookup
        sample_language_source a] sample_passes(1)
    by (simp add: compiles_def compile_outcome_def sample_request_def echo_def)
qed

section \<open>The first failure decides\<close>

lemma final_verdict_first:
  "final_verdict rs = (case find (\<lambda>r. tr_verdict r \<noteq> Accepted) rs of Some r \<Rightarrow> tr_verdict r | None \<Rightarrow> Accepted)"
  by (induction rs) (auto simp: final_verdict_def)

lemma first_bad_entries:
  "first_bad req xs = map_option tr_name
     (find (\<lambda>r. tr_verdict r \<noteq> Accepted) (entries cfg req failed xs))"
  by (induction cfg req failed xs rule: entries.induct) (auto simp: is_bad_def)

lemma find_None_entries:
  "find (\<lambda>r. tr_verdict r \<noteq> Accepted) (entries cfg req failed xs) = None \<longleftrightarrow>
     (\<forall>(t, out) \<in> set xs. \<not> is_bad req t out)"
  by (induction cfg req failed xs rule: entries.induct) (auto simp: is_bad_def)

lemma butlast_entries_accepted:
  "\<forall>(t, out) \<in> set (butlast xs). \<not> is_bad req t out \<Longrightarrow>
     list_all (\<lambda>r. tr_verdict r = Accepted) (butlast (entries cfg req failed xs))"
proof (induction cfg req failed xs rule: entries.induct)
  case (2 cfg req failed test out xs)
  then show ?case by (cases xs) (auto simp: is_bad_def)
qed simp

lemma find_last:
  "find P rs = Some r \<Longrightarrow> list_all (\<lambda>r. \<not> P r) (butlast rs) \<Longrightarrow> r = last rs"
  by (induction rs) (auto split: if_splits)

text \<open>C23: the first failing test decides. The reported tests are the first tests of the
request, in order; the verdict and the failed test are those of the first reported test that
is not Accepted; every test is reported unless judging stops at failures, and then nothing is
reported (nor executed) after the first failure.\<close>

theorem first_failure_decides:
  assumes "judge sb langs cfg req l s = Some (Ok res, s', ps)" and "jr_verdict res \<noteq> CompileError"
  shows "map tr_name (jr_tests res) = map tc_name (take (length (jr_tests res)) (rq_tests req)) \<and>
    (case find (\<lambda>r. tr_verdict r \<noteq> Accepted) (jr_tests res) of
       None \<Rightarrow> jr_verdict res = Accepted \<and> jr_failed_test res = None \<and>
         length (jr_tests res) = length (rq_tests req)
     | Some r \<Rightarrow> jr_verdict res = tr_verdict r \<and> jr_failed_test res = Some (tr_name r) \<and>
         (if rq_stop_on_first_failure req
          then r = last (jr_tests res) \<and> list_all (\<lambda>r. tr_verdict r = Accepted) (butlast (jr_tests res))
          else length (jr_tests res) = length (rq_tests req)))"
proof -
  obtain lang bx s1 t where "judge_in_box sb cfg bx lang req l (s1, []) = (Ok res, (t, ps))"
    using assms(1) by (rule judge_OkE)
  then show ?thesis
  proof (cases rule: judge_in_box_OkE)
    case (compile_error out)
    with assms(2) show ?thesis by (simp add: compile_error_result_def)
  next
    case (run co s2 xs)
    define rs where "rs = entries cfg req False xs"
    have res: "jr_tests res = rs" "jr_verdict res = final_verdict rs" "jr_failed_test res = first_bad req xs"
      using run(2) by (simp_all add: run_result_def Let_def rs_def)
    have names: "map tr_name rs = map tc_name (take (length rs) (rq_tests req))"
      using run_all_prefix [OF run(1)] by (simp add: rs_def entries_names flip: map_map)
    have early: "list_all (\<lambda>r. tr_verdict r = Accepted) (butlast rs)" if "rq_stop_on_first_failure req"
      using run_all_stops [OF run(1) that] unfolding rs_def by (rule butlast_entries_accepted)
    show ?thesis
    proof (cases "find (\<lambda>r. tr_verdict r \<noteq> Accepted) rs")
      case None
      then have "\<forall>(t, out) \<in> set xs. \<not> is_bad req t out"
        by (simp add: rs_def find_None_entries)
      then have "length xs = length (rq_tests req)"
        using run_all_complete [OF run(1)] by (auto simp: split_beta)
      with None names show ?thesis
        by (simp add: res final_verdict_first first_bad_entries [of req xs cfg False] rs_def)
    next
      case (Some r)
      then have "r = last rs" if "rq_stop_on_first_failure req"
        using find_last [OF Some] early [OF that] by simp
      moreover have "length xs = length (rq_tests req)" if "\<not> rq_stop_on_first_failure req"
        using run_all_complete [OF run(1)] that by blast
      ultimately show ?thesis
        using Some names early
        by (simp add: res final_verdict_first first_bad_entries [of req xs cfg False] rs_def)
    qed
  qed
qed

lemma sample_rejected:
  "jr_verdict (judge_spec echo (sample_language\<lparr>lg_source_file := ''main.py'', lg_compile := None\<rparr>)
     default_judge_config (sample_request sample_tests)) = WrongAnswer"
proof -
  have "counted_tests (\<lambda>i. mock_ok i) (sample_request sample_tests) sample_tests =
      [sample_tests ! 0, sample_tests ! 1]"
    by code_simp
  moreover have "fst (classify (mock_ok (tc_input (sample_tests ! 0))) (sample_tests ! 0) Lines) = Accepted"
    and "fst (classify (mock_ok (tc_input (sample_tests ! 1))) (sample_tests ! 1) Lines) = WrongAnswer"
    by code_simp+
  moreover have "rq_tests (sample_request sample_tests) = sample_tests"
    and "rq_comparer (sample_request sample_tests) = Lines"
    by (simp_all add: sample_request_def)
  moreover have "echo spec = mock_ok" for spec
    by (rule ext) (simp add: echo_def)
  ultimately show ?thesis
    by (simp add: judge_spec_def compile_outcome_def Let_def run_result_def
        final_verdict_first is_bad_def del: nth_Cons_0 nth_Cons_Suc One_nat_def)
qed

theorem first_failure_decides_witness:
  "\<exists>res s' ps r. judge (scripted_ops echo) sample_registry default_judge_config
      (sample_request sample_tests) False mock_init = Some (Ok res, s', ps) \<and>
    jr_tests res \<noteq> [] \<and> r = last (jr_tests res) \<and> tr_verdict r = WrongAnswer \<and>
    jr_failed_test res = Some (tr_name r) \<and>
    list_all (\<lambda>r. tr_verdict r = Accepted) (butlast (jr_tests res))"
proof -
  let ?res = "judge_spec echo (sample_language\<lparr>lg_source_file := ''main.py'', lg_compile := None\<rparr>)
     default_judge_config (sample_request sample_tests)"
  obtain s' ps where j: "judge (scripted_ops echo) sample_registry default_judge_config
      (sample_request sample_tests) False mock_init = Some (Ok ?res, s', ps)"
    by (rule sample_judged)
  have "rq_stop_on_first_failure (sample_request sample_tests)"
    by (simp add: sample_request_def)
  moreover have "find (\<lambda>r. tr_verdict r \<noteq> Accepted) (jr_tests ?res) \<noteq> None \<Longrightarrow> jr_tests ?res \<noteq> []"
    by auto
  ultimately show ?thesis
    using first_failure_decides [OF j] sample_rejected j by (fastforce split: option.splits)
qed

section \<open>What a test entry shows\<close>

text \<open>Whether the test at index \<open>i\<close> is the first that is not Accepted.\<close>

definition first_failing :: "test_result list \<Rightarrow> nat \<Rightarrow> bool" where
  "first_failing rs i \<longleftrightarrow> tr_verdict (rs ! i) \<noteq> Accepted \<and>
     list_all (\<lambda>r. tr_verdict r = Accepted) (take i rs)"

lemma first_failing_entries:
  assumes "i < length xs"
  shows "first_failing (entries cfg req False xs) i \<longleftrightarrow>
    is_bad req (fst (xs ! i)) (snd (xs ! i)) \<and> (\<forall>j < i. \<not> is_bad req (fst (xs ! j)) (snd (xs ! j)))"
proof -
  have "tr_verdict (entries cfg req False xs ! j) = Accepted \<longleftrightarrow> \<not> is_bad req (fst (xs ! j)) (snd (xs ! j))"
    if "j < i" for j
    using bad_verdict [of j xs cfg req False] that assms by auto
  with bad_verdict [OF assms] assms show ?thesis
    by (auto simp: first_failing_def list_all_length)
qed

lemma test_entry_shows:
  "let e = test_entry cfg req b t out; n = jc_excerpt_bytes cfg
   in if rq_capture_output req \<or> rq_show_failed_input req \<and> b
      then tr_input e = Some (excerpt (tc_input t) n) \<and>
        tr_expected e = map_option (\<lambda>x. excerpt x n) (tc_expected t)
      else tr_input e = None \<and> tr_expected e = None \<and> tr_stdout e = None \<and>
        (tr_stderr e = None \<or> tr_verdict e = RuntimeError)"
  by (cases "tc_expected t") (auto simp: test_entry_def Let_def split_beta then_some_def)

text \<open>C28: test data is disclosed only where the request allows it. The entry of a test shows
(truncated) its input and expected output exactly when the request captures output, or allows
showing failures and this is the first failing test. Any other entry shows no input, no
expected output and no standard output, and standard error only of a runtime error.\<close>

theorem entry_discloses_only_when_allowed:
  assumes "judge sb langs cfg req l s = Some (Ok res, s', ps)" and "i < length (jr_tests res)"
  shows "let e = jr_tests res ! i; t = rq_tests req ! i; n = jc_excerpt_bytes cfg;
      shown = (rq_capture_output req \<or> rq_show_failed_input req \<and> first_failing (jr_tests res) i)
    in if shown
       then tr_input e = Some (excerpt (tc_input t) n) \<and>
         tr_expected e = map_option (\<lambda>x. excerpt x n) (tc_expected t)
       else tr_input e = None \<and> tr_expected e = None \<and> tr_stdout e = None \<and>
         (tr_stderr e = None \<or> tr_verdict e = RuntimeError)"
proof -
  obtain lang bx s1 t where "judge_in_box sb cfg bx lang req l (s1, []) = (Ok res, (t, ps))"
    using assms(1) by (rule judge_OkE)
  then show ?thesis
  proof (cases rule: judge_in_box_OkE)
    case (compile_error out)
    with assms(2) show ?thesis by (simp add: compile_error_result_def)
  next
    case (run co s2 xs)
    have i: "i < length xs" using assms(2) run(2) by (simp add: run_result_def Let_def)
    have t: "fst (xs ! i) = rq_tests req ! i"
      using run_all_prefix [OF run(1)] i by (metis nth_map nth_take)
    have rs: "jr_tests res = entries cfg req False xs"
      using run(2) by (simp add: run_result_def Let_def)
    have "jr_tests res ! i = test_entry cfg req (first_failing (jr_tests res) i) (rq_tests req ! i) (snd (xs ! i))"
      unfolding rs using i by (simp add: entries_nth first_failing_entries t)
    then show ?thesis
      using test_entry_shows [of cfg req "first_failing (jr_tests res) i" "rq_tests req ! i" "snd (xs ! i)"]
      by (simp add: Let_def)
  qed
qed

lemma sample_entries:
  "length (jr_tests (judge_spec echo
     (sample_language\<lparr>lg_source_file := ''main.py'', lg_compile := None\<rparr>)
     default_judge_config (sample_request sample_tests))) = 2"
proof -
  have "length (counted_tests (\<lambda>i. mock_ok i) (sample_request sample_tests) sample_tests) = 2"
    by code_simp
  moreover have "echo spec = mock_ok" for spec
    by (rule ext) (simp add: echo_def)
  ultimately show ?thesis
    by (simp add: judge_spec_def compile_outcome_def Let_def run_result_def sample_request_def)
qed

theorem entry_discloses_only_when_allowed_witness:
  "\<exists>res s' ps. judge (scripted_ops echo) sample_registry default_judge_config
      (sample_request sample_tests) False mock_init = Some (Ok res, s', ps) \<and>
    jr_verdict res = WrongAnswer \<and> length (jr_tests res) = 2 \<and>
    tr_input (jr_tests res ! 1) = None \<and> tr_expected (jr_tests res ! 1) = None \<and>
    tr_stdout (jr_tests res ! 1) = None"
proof -
  let ?res = "judge_spec echo (sample_language\<lparr>lg_source_file := ''main.py'', lg_compile := None\<rparr>)
     default_judge_config (sample_request sample_tests)"
  obtain s' ps where j: "judge (scripted_ops echo) sample_registry default_judge_config
      (sample_request sample_tests) False mock_init = Some (Ok ?res, s', ps)"
    by (rule sample_judged)
  have i: "1 < length (jr_tests ?res)"
    by (simp add: sample_entries)
  have "\<not> rq_capture_output (sample_request sample_tests)"
    "\<not> rq_show_failed_input (sample_request sample_tests)"
    by (simp_all add: sample_request_def)
  with entry_discloses_only_when_allowed [OF j i] j show ?thesis
    by (simp add: Let_def sample_entries sample_rejected)
qed

section \<open>The sandbox sees inputs, never answers\<close>

text \<open>
  The states a backend can go through when it is given the source, the compile command, and the
  inputs in order. Expected outputs, the comparer and the disclosure flags do not occur.
\<close>

fun exec_worlds :: "('s, 'b) sandbox \<Rightarrow> 'b \<Rightarrow> exec_spec \<Rightarrow> bytes list \<Rightarrow> 's \<Rightarrow> 's list" where
  "exec_worlds sb bx spec [] s = [s]"
| "exec_worlds sb bx spec (i # inputs) s =
     s # exec_worlds sb bx spec inputs (snd (sb_exec sb bx spec i s))"

definition box_worlds ::
  "('s, 'b) sandbox \<Rightarrow> 'b \<Rightarrow> string \<Rightarrow> bytes \<Rightarrow> exec_spec option \<Rightarrow> exec_spec \<Rightarrow> bytes list \<Rightarrow> 's \<Rightarrow>
   's list" where
  "box_worlds sb bx file source compiling running inputs s =
     (let s1 = snd (sb_write_file sb bx file source s)
      in s1 # exec_worlds sb bx running inputs
           (case compiling of None \<Rightarrow> s1 | Some spec \<Rightarrow> snd (sb_exec sb bx spec [] s1)))"

lemma exec_worlds_first: "s \<in> set (exec_worlds sb bx spec inputs s)"
  by (cases inputs) simp_all

lemma run_all_worlds:
  "snd (snd (run_all sb bx spec req failed tests s)) \<in>
     set (exec_worlds sb bx spec (map tc_input tests) s)"
proof (induction tests arbitrary: failed s)
  case (Cons t ts)
  obtain r s1 where e: "sb_exec sb bx spec (tc_input t) s = (r, s1)" by fastforce
  show ?case
  proof (cases r)
    case (Inr out)
    show ?thesis
      using e Inr Cons.IH [of "failed \<or> is_bad req t out" s1]
        exec_worlds_first [of s1 sb bx spec "map tc_input ts"]
      by (auto simp: Let_def split_beta)
  qed (use e exec_worlds_first [of s1 sb bx spec "map tc_input ts"] in auto)
qed simp

lemma run_loop_world:
  "fst (snd (run_loop sb cfg bx spec req l i tests rs ft w)) =
     snd (snd (run_all sb bx spec req (ft \<noteq> None) tests (fst w)))"
  by (cases w) (auto simp: run_loop_eq Let_def split: prod.splits option.splits)

lemma compile_phase_world:
  "fst (snd (compile_phase sb cfg bx lang l w)) =
     (case lg_compile lang of None \<Rightarrow> fst w
      | Some st \<Rightarrow> snd (sb_exec sb bx (compile_spec cfg lang st) [] (fst w)))"
  by (cases w) (auto simp: compile_phase_def and_then_def notify_def in_box_def io_ok_def Let_def
      split: option.splits prod.splits sum.splits)

lemma and_then_world:
  "fst (snd (m w)) \<in> A \<Longrightarrow> (\<And>a w'. m w = (Ok a, w') \<Longrightarrow> fst (snd (k a w')) \<in> A) \<Longrightarrow>
     fst (snd (and_then m k w)) \<in> A"
  by (auto simp: and_then_def split: prod.splits sum.splits)

lemma in_box_world: "fst (snd (in_box m w)) = snd (m (fst w))"
  by (auto simp: in_box_def split: prod.splits sum.splits)

lemma judge_in_box_worlds:
  "fst (snd (judge_in_box sb cfg bx lang req l (s, []))) \<in>
     set (box_worlds sb bx (lg_source_file lang) (rq_source req)
       (map_option (compile_spec cfg lang) (lg_compile lang)) (run_spec cfg lang req)
       (map tc_input (rq_tests req)) s)" (is "_ \<in> ?W")
proof -
  define s1 where "s1 = snd (sb_write_file sb bx (lg_source_file lang) (rq_source req) s)"
  define s2 where "s2 = (case lg_compile lang of None \<Rightarrow> s1
      | Some st \<Rightarrow> snd (sb_exec sb bx (compile_spec cfg lang st) [] s1))"
  have W: "?W = insert s1 (set (exec_worlds sb bx (run_spec cfg lang req) (map tc_input (rq_tests req)) s2))"
    by (simp add: box_worlds_def Let_def s1_def s2_def split: option.splits)
  show ?thesis
    unfolding judge_in_box_def Let_def
  proof (intro and_then_world)
    show "fst (snd (in_box (sb_write_file sb bx (lg_source_file lang) (rq_source req)) (s, []))) \<in> ?W"
      by (simp add: in_box_world W s1_def)
  next
    fix a w1 assume "in_box (sb_write_file sb bx (lg_source_file lang) (rq_source req)) (s, []) = (Ok a, w1)"
    then have w1: "fst w1 = s1" by (metis in_box_world fst_conv snd_conv s1_def)
    then have "fst (snd (compile_phase sb cfg bx lang l w1)) = s2"
      by (simp add: compile_phase_world s2_def split: option.splits)
    then show "fst (snd (compile_phase sb cfg bx lang l w1)) \<in> ?W"
      by (simp add: W exec_worlds_first)
    fix c w2 assume "compile_phase sb cfg bx lang l w1 = (Ok c, w2)"
    then have w2: "fst w2 = s2"
      using compile_phase_world [of sb cfg bx lang l w1] w1 by (simp add: s2_def split: option.splits)
    show "fst (snd ((case c of
           Inl txt \<Rightarrow>
             io_ok \<lparr>jr_verdict = CompileError, jr_time_ms = 0, jr_memory_kb = 0,
               jr_failed_test = None, jr_compile_output = Some txt, jr_tests = [],
               jr_tests_total = length (rq_tests req)\<rparr>
         | Inr compile_output \<Rightarrow>
             and_then (notify l (P_Running 0 (length (rq_tests req)))) (\<lambda>_.
             and_then (run_loop sb cfg bx (run_spec cfg lang req) req l 0
                         (rq_tests req) [] None) (\<lambda>(results, failed_test).
             io_ok \<lparr>jr_verdict = final_verdict results,
               jr_time_ms = max_u64 (map tr_time_ms results),
               jr_memory_kb = max_u64 (map tr_memory_kb results),
               jr_failed_test = failed_test, jr_compile_output = compile_output,
               jr_tests = results, jr_tests_total = length (rq_tests req)\<rparr>))) w2)) \<in> ?W"
      using w2 run_all_worlds [of sb bx "run_spec cfg lang req" req False "rq_tests req" s2]
      by (cases c; cases w2)
        (auto simp: W and_then_def notify_def io_ok_def run_loop_eq Let_def exec_worlds_first
          split: prod.splits option.splits)
  qed
qed

text \<open>
  Two runs that agree on what the sandbox is told. \<open>box_setup\<close> is what happens before the tests: the
  state after it, and whether the tests are run. \<open>exec_inputs\<close> executes inputs until one fails.
\<close>

definition box_setup ::
  "('s, 'b) sandbox \<Rightarrow> judge_config \<Rightarrow> 'b \<Rightarrow> language \<Rightarrow> bytes \<Rightarrow> 's \<Rightarrow> bool \<times> 's" where
  "box_setup sb cfg bx lang source s =
     (case sb_write_file sb bx (lg_source_file lang) source s of
        (Err e, s1) \<Rightarrow> (False, s1)
      | (Ok u, s1) \<Rightarrow>
          (case lg_compile lang of
             None \<Rightarrow> (True, s1)
           | Some st \<Rightarrow>
               (case sb_exec sb bx (compile_spec cfg lang st) [] s1 of
                  (Err e, s2) \<Rightarrow> (False, s2)
                | (Ok out, s2) \<Rightarrow> (oc_status out = ExOk, s2))))"

fun exec_inputs ::
  "('s, 'b) sandbox \<Rightarrow> 'b \<Rightarrow> exec_spec \<Rightarrow> bytes list \<Rightarrow> 's \<Rightarrow> sandbox_error option \<times> 's" where
  "exec_inputs sb bx spec [] s = (None, s)"
| "exec_inputs sb bx spec (i # inputs) s =
     (case sb_exec sb bx spec i s of
        (Err e, s') \<Rightarrow> (Some e, s')
      | (Ok out, s') \<Rightarrow> exec_inputs sb bx spec inputs s')"

lemma run_all_inputs:
  "run_all sb bx spec req failed tests s = (xs, err, s') \<Longrightarrow>
     exec_inputs sb bx spec (if err = None then take (length xs) (map tc_input tests) else map tc_input tests) s = (err, s')"
  by (induction tests arbitrary: failed s xs) (auto simp: Let_def split: prod.splits sum.splits if_splits)

lemma run_all_every_input:
  assumes "run_all sb bx spec req failed tests s = (xs, err, s')" "\<not> rq_stop_on_first_failure req"
  shows "exec_inputs sb bx spec (map tc_input tests) s = (err, s')"
  using run_all_inputs [OF assms(1)] run_all_complete [of sb bx spec req failed tests s xs s'] assms
  by (cases err) auto

lemma judge_in_box_asks:
  assumes "judge_in_box sb cfg bx lang req l (s, ps) = (q, t, qs)" "box_setup sb cfg bx lang (rq_source req) s = (go, s2)"
  shows "\<not> go \<Longrightarrow> t = s2 \<and> (\<forall>res. q = Ok res \<longrightarrow> jr_tests res = [])"
    and "go \<Longrightarrow> \<exists>xs err. run_all sb bx (run_spec cfg lang req) req False (rq_tests req) s2 = (xs, err, t) \<and>
      (\<forall>res. q = Ok res \<longrightarrow> err = None \<and> length (jr_tests res) = length xs)"
  using assms
  by (auto simp: judge_in_box_def box_setup_def compile_phase_def and_then_def in_box_def notify_def io_ok_def
      run_loop_eq Let_def split: prod.splits sum.splits option.splits if_splits)

text \<open>C29: comparison runs outside the sandbox, so user code never sees answers. Take two requests
that agree on language, source, limits and the inputs of their tests, and differ in whatever else
they like: expected outputs, comparer, test names, disclosure flags. Judged from the same state,
both leave the backend as the release of a state of one and the same sequence, which is fixed by
what they agree on. The rest can only influence how many tests are executed, through stopping at
the first failure: when neither request stops there, or both report equally many tests, they
leave the backend in the same state.\<close>

theorem sandbox_sees_inputs_only:
  assumes "get_language langs (rq_language req) = Some lang"
    and "sb_acquire sb s = Some (Ok bx, s1)"
    and "rq_language req' = rq_language req" and "rq_source req' = rq_source req"
    and "map tc_input (rq_tests req') = map tc_input (rq_tests req)"
    and "rq_time_limit_ms req' = rq_time_limit_ms req" and "rq_memory_limit_kb req' = rq_memory_limit_kb req"
    and "judge sb langs cfg req l s = Some (r, t, ps)"
    and "judge sb langs cfg req' l' s = Some (r', t', ps')"
  shows "{t, t'} \<subseteq> (\<lambda>w. snd (sb_release sb bx w)) `
      set (box_worlds sb bx (lg_source_file lang) (rq_source req)
        (map_option (compile_spec cfg lang) (lg_compile lang)) (run_spec cfg lang req)
        (map tc_input (rq_tests req)) s1) \<and>
    (\<not> rq_stop_on_first_failure req \<and> \<not> rq_stop_on_first_failure req' \<longrightarrow> t = t') \<and>
    (\<forall>res res'. r = Ok res \<and> r' = Ok res' \<and> length (jr_tests res) = length (jr_tests res') \<longrightarrow> t = t')"
proof -
  have spec: "run_spec cfg lang req' = run_spec cfg lang req" using assms(6,7) by (simp add: run_spec_def)
  obtain q u qs where j: "judge_in_box sb cfg bx lang req l (s1, []) = (q, u, qs)" by (metis prod_cases3)
  obtain q' u' qs' where j': "judge_in_box sb cfg bx lang req' l' (s1, []) = (q', u', qs')" by (metis prod_cases3)
  have t: "t = snd (sb_release sb bx u)" "r = q" using j assms(1,2,8) by (simp_all add: judge_def)
  have t': "t' = snd (sb_release sb bx u')" "r' = q'" using j' assms(1,2,3,9) by (simp_all add: judge_def)
  have "{u, u'} \<subseteq> set (box_worlds sb bx (lg_source_file lang) (rq_source req)
      (map_option (compile_spec cfg lang) (lg_compile lang)) (run_spec cfg lang req) (map tc_input (rq_tests req)) s1)"
    using judge_in_box_worlds [of sb cfg bx lang req l s1] judge_in_box_worlds [of sb cfg bx lang req' l' s1] j j'
      assms(4,5) spec by simp
  moreover obtain go s2 where set_up: "box_setup sb cfg bx lang (rq_source req) s1 = (go, s2)" by fastforce
  with assms(4) have set_up': "box_setup sb cfg bx lang (rq_source req') s1 = (go, s2)" by simp
  have "u = u'" if "\<not> rq_stop_on_first_failure req \<and> \<not> rq_stop_on_first_failure req' \<or>
      (\<exists>res res'. q = Ok res \<and> q' = Ok res' \<and> length (jr_tests res) = length (jr_tests res'))"
  proof (cases go)
    case False
    with judge_in_box_asks(1) [OF j set_up] judge_in_box_asks(1) [OF j' set_up'] show ?thesis by simp
  next
    case True
    obtain xs err xs' err' where
      x: "run_all sb bx (run_spec cfg lang req) req False (rq_tests req) s2 = (xs, err, u)"
        "\<And>res. q = Ok res \<Longrightarrow> err = None \<and> length (jr_tests res) = length xs"
      and x': "run_all sb bx (run_spec cfg lang req) req' False (rq_tests req') s2 = (xs', err', u')"
        "\<And>res. q' = Ok res \<Longrightarrow> err' = None \<and> length (jr_tests res) = length xs'"
      using judge_in_box_asks(2) [OF j set_up True] judge_in_box_asks(2) [OF j' set_up' True] spec by auto
    from that show ?thesis
    proof (elim disjE exE conjE)
      assume "\<not> rq_stop_on_first_failure req" "\<not> rq_stop_on_first_failure req'"
      with run_all_every_input [OF x(1)] run_all_every_input [OF x'(1)] assms(5) show ?thesis by simp
    next
      fix res res' assume "q = Ok res" "q' = Ok res'" "length (jr_tests res) = length (jr_tests res')"
      with x(2) x'(2) run_all_inputs [OF x(1)] run_all_inputs [OF x'(1)] assms(5) show ?thesis by simp
    qed
  qed
  ultimately show ?thesis using t t' by auto
qed

text \<open>The same source, once with the expected outputs and once without any: the verdicts differ, the
final state does not.\<close>

definition without_answers :: "test_case list \<Rightarrow> test_case list" where
  "without_answers ts = map (\<lambda>t. t\<lparr>tc_expected := None\<rparr>) ts"

theorem sandbox_sees_inputs_only_witness:
  "\<exists>res res' s' ps ps'.
    judge (scripted_ops echo) sample_registry default_judge_config
      ((sample_request sample_tests)\<lparr>rq_stop_on_first_failure := False\<rparr>) False mock_init = Some (Ok res, s', ps) \<and>
    judge (scripted_ops echo) sample_registry default_judge_config
      ((sample_request (without_answers sample_tests))\<lparr>rq_stop_on_first_failure := False\<rparr>) False mock_init =
        Some (Ok res', s', ps') \<and>
    jr_verdict res \<noteq> Accepted \<and> jr_verdict res' = Accepted"
proof -
  let ?req = "(sample_request sample_tests)\<lparr>rq_stop_on_first_failure := False\<rparr>"
    and ?req' = "(sample_request (without_answers sample_tests))\<lparr>rq_stop_on_first_failure := False\<rparr>"
    and ?lang = "sample_language\<lparr>lg_source_file := ''main.py'', lg_compile := None\<rparr>"
  have lang: "get_language sample_registry (rq_language ?req) = Some ?lang"
    "get_language sample_registry (rq_language ?req') = Some ?lang"
    by (simp_all add: get_language_def sample_registry_def sample_request_def)
  obtain s1 where a: "sb_acquire (scripted_ops echo) mock_init = Some (Ok (), s1)"
    using scripted_acquires by blast
  have src: "validate_file_name (lg_source_file ?lang) = Ok ()" by (simp add: main_py_valid)
  obtain r s' ps where j: "judge (scripted_ops echo) sample_registry default_judge_config ?req False mock_init = Some (r, s', ps)"
    using judge_returns [OF a] by blast
  obtain r' t' ps' where j': "judge (scripted_ops echo) sample_registry default_judge_config ?req' False mock_init = Some (r', t', ps')"
    using judge_returns [OF a] by blast
  have r: "r = Ok (judge_spec echo ?lang default_judge_config ?req)" "r' = Ok (judge_spec echo ?lang default_judge_config ?req')"
    using scripted.judge_det [OF lang(1) src j a] scripted.judge_det [OF lang(2) src j' a] by simp_all
  have "t' = s'"
    using sandbox_sees_inputs_only [OF lang(1) a _ _ _ _ _ j j']
    by (simp add: sample_request_def without_answers_def o_def)
  moreover have "\<not> passes Lines (sample_tests ! 1) (mock_ok ''2'')" by code_simp
  then have "jr_verdict (judge_spec echo ?lang default_judge_config ?req) \<noteq> Accepted"
    by (simp add: judge_spec_Accepted sample_request_def echo_def sample_tests_def)
  moreover have "jr_verdict (judge_spec echo ?lang default_judge_config ?req') = Accepted"
    by (simp add: judge_spec_Accepted compiles_def compile_outcome_def sample_request_def echo_def without_answers_def
        passes_def mock_ok_def)
  ultimately show ?thesis using j j' r by auto
qed

section \<open>Limits\<close>

lemma floor_as_u64: "0 \<le> x \<Longrightarrow> x < 2 ^ 64 \<Longrightarrow> unat (f64_as_u64 (Fin x)) = nat \<lfloor>x\<rfloor>"
proof -
  assume x: "0 \<le> x" "x < 2 ^ 64"
  then have "\<lfloor>x\<rfloor> < 2 ^ 64" by (simp add: floor_less_iff)
  moreover have "0 \<le> \<lfloor>x\<rfloor>" using x by simp
  ultimately show ?thesis
    using x by (simp add: unat_eq_nat_uint uint_word_of_int take_bit_int_eq_self)
qed

lemma scaled_cpu_ms_eq:
  assumes "1 \<le> x" and "of_nat (unat limit) * x \<le> of_nat n" and "n < 2 ^ 53"
  shows "unat (scaled_cpu_ms limit (Fin x)) = nat \<lceil>round_mag (of_nat (unat limit) * x)\<rceil>"
    and "of_nat (unat limit) \<le> round_mag (of_nat (unat limit) * x)"
    and "round_mag (of_nat (unat limit) * x) \<le> of_nat n"
proof -
  let ?l = "of_nat (unat limit) :: rat"
  have l: "?l \<le> ?l * x" using mult_left_mono [OF assms(1), of ?l] by (simp only: of_nat_0_le_iff mult_1_right)
  with assms(2) have "?l \<le> of_nat n" by linarith
  then have "unat limit \<le> n" by (simp only: of_nat_le_iff)
  then have ln: "unat limit < 2 ^ 53" using assms(3) by (rule le_less_trans)
  show lo: "?l \<le> round_mag (?l * x)" using round_mag_ge_nat [OF ln l] .
  have nonneg: "0 \<le> ?l * x" using l of_nat_0_le_iff by (rule order_trans [rotated])
  show hi: "round_mag (?l * x) \<le> of_nat n"
    using round_mag_le_nat [OF nonneg assms(3,2)] .
  have "(of_nat n :: rat) < of_nat (2 ^ 53)" using assms(3) by (simp only: of_nat_less_iff)
  also have "(of_nat (2 ^ 53) :: rat) < 2 ^ 64" by simp
  finally have n64: "(of_nat n :: rat) < 2 ^ 64" .
  have "(2 :: rat) ^ 64 < 2 ^ 1024" by simp
  with hi n64 have "f64_of_rat (?l * x) = Fin (round_mag (?l * x))"
    by (intro f64_of_rat_nonneg nonneg) linarith
  moreover have "f64_of_u64 limit = Fin ?l"
    using f64_of_nat_exact [OF ln] by (simp add: f64_of_u64_def flip: uint_nat)
  moreover have "\<lceil>round_mag (?l * x)\<rceil> \<le> int n" using hi by (simp add: ceiling_le_iff)
  then have "(of_int \<lceil>round_mag (?l * x)\<rceil> :: rat) \<le> of_nat n"
    by (metis of_int_le_iff of_int_of_nat_eq)
  then have "(of_int \<lceil>round_mag (?l * x)\<rceil> :: rat) < 2 ^ 64" using n64 by linarith
  moreover have "0 \<le> round_mag (?l * x)" by (rule round_mag_nonneg [OF nonneg])
  then have "(0 :: rat) \<le> of_int \<lceil>round_mag (?l * x)\<rceil>" by simp
  ultimately show "unat (scaled_cpu_ms limit (Fin x)) = nat \<lceil>round_mag (?l * x)\<rceil>"
    unfolding scaled_cpu_ms_def by (simp add: floor_as_u64 del: f64_as_u64.simps)
qed

text \<open>The limits of a run. With a multiplier of at least 1 (all that a registry admits) and
any whole bound \<open>n\<close> below \<open>2 ^ 53\<close> ms on limit times multiplier, the CPU limit of a run is at
least the problem's limit and at most \<open>n\<close> ms, floating-point rounding included, so with
multiplier 1 it is the problem's limit; the wall-clock limit is twice that plus one second.\<close>

lemma run_limits_scale:
  assumes "lg_time_multiplier lang = Fin x" and "1 \<le> x"
    and "of_nat (unat (rq_time_limit_ms req)) * x \<le> of_nat n" and "n < 2 ^ 53"
  shows "let lim = es_limits (run_spec cfg lang req)
    in from_millis (rq_time_limit_ms req) \<le> el_cpu_time lim \<and> el_cpu_time lim \<le> n * 10 ^ 6 \<and>
       el_wall_time lim = 2 * el_cpu_time lim + 10 ^ 9"
proof -
  let ?l = "of_nat (unat (rq_time_limit_ms req)) :: rat"
  define cpu where "cpu = scaled_cpu_ms (rq_time_limit_ms req) (lg_time_multiplier lang)"
  note s = scaled_cpu_ms_eq [OF assms(2-4)]
  have cpu: "unat cpu = nat \<lceil>round_mag (of_nat (unat (rq_time_limit_ms req)) * x)\<rceil>"
    using s(1) by (simp add: cpu_def assms(1))
  have hi: "unat cpu \<le> n"
    unfolding cpu using s(3) by (simp add: nat_le_iff ceiling_le_iff)
  have lo: "unat (rq_time_limit_ms req) \<le> unat cpu"
  proof -
    have "int (unat (rq_time_limit_ms req)) \<le> \<lceil>round_mag (of_nat (unat (rq_time_limit_ms req)) * x)\<rceil>"
      using s(2) by (metis ceiling_mono ceiling_of_nat)
    then show ?thesis unfolding cpu by linarith
  qed
  have "unat (cpu * 2 + 1000) = unat cpu * 2 + 1000"
    using hi assms(4) by (simp add: unat_word_ariths)
  with hi lo show ?thesis
    by (simp add: run_spec_def Let_def from_millis_def flip: cpu_def)
qed

lemma run_limits_scale_witness:
  "from_millis 1000 \<le> el_cpu_time (es_limits (run_spec default_judge_config
     (sample_language\<lparr>lg_time_multiplier := Fin (5 / 2)\<rparr>) (sample_request sample_tests))) \<and>
   el_cpu_time (es_limits (run_spec default_judge_config
     (sample_language\<lparr>lg_time_multiplier := Fin (5 / 2)\<rparr>) (sample_request sample_tests))) \<le> 2500 * 10 ^ 6"
  using run_limits_scale [of "sample_language\<lparr>lg_time_multiplier := Fin (5 / 2)\<rparr>" "5 / 2"
      "sample_request sample_tests" 2500 default_judge_config]
  by (simp add: Let_def sample_request_def)

lemma round_mag_powi:
  assumes "0 \<le> n"
  shows "round_mag (2 powi n) = 2 powi n"
proof -
  have "2 powi rat_log2 (2 powi n) \<le> (2 :: rat) powi n"
    using rat_log2_bounds [of "2 powi n"] by simp
  then have "rat_log2 (2 powi n) \<le> n"
    using powi_less [of n "rat_log2 (2 powi n)"] by linarith
  then have "quantum (2 powi n) \<le> n" using assms by (simp add: quantum_le)
  then show ?thesis
    using round_mag_le_powi [of "2 powi n" n] round_mag_ge_powi [of "2 powi n" n] by simp
qed

text \<open>The wall-clock limit is computed in 64-bit arithmetic that wraps: a time limit of
\<open>2 ^ 63\<close> ms gives a wall-clock limit of one second, below the CPU limit it should exceed.\<close>

lemma wall_limit_wraps:
  assumes "lg_time_multiplier lang = Fin 1" and "rq_time_limit_ms req = 2 ^ 63"
  shows "el_wall_time (es_limits (run_spec cfg lang req)) = from_millis 1000 \<and>
    el_cpu_time (es_limits (run_spec cfg lang req)) = from_millis (2 ^ 63)"
proof -
  have "round_mag (2 ^ 63) = 2 ^ 63" using round_mag_powi [of 63] by simp
  then have "f64_of_rat (2 ^ 63) = Fin (2 ^ 63)" by (simp add: f64_of_rat_def)
  moreover have "uint (2 ^ 63 :: u64) = 2 ^ 63" by code_simp
  ultimately have "scaled_cpu_ms (2 ^ 63) (Fin 1) = 2 ^ 63"
    by (simp add: scaled_cpu_ms_def f64_of_u64_def)
  moreover have "(2 ^ 63 * 2 + 1000 :: u64) = 1000" by code_simp
  ultimately show ?thesis using assms by (simp only: run_spec_def Let_def) simp
qed

lemma wall_limit_wraps_witness:
  "el_wall_time (es_limits (run_spec default_judge_config sample_language
     (sample_request []\<lparr>rq_time_limit_ms := 2 ^ 63\<rparr>))) = from_millis 1000"
  using wall_limit_wraps [of sample_language "sample_request []\<lparr>rq_time_limit_ms := 2 ^ 63\<rparr>"
      default_judge_config]
  by (simp add: sample_language_def)

end
