(* ===== verification/Rust_Path.thy ===== *)
theory Rust_Path
  imports Bytes
begin

text \<open>
  \<open>std::path::Path\<close> on Unix, as far as the program takes paths apart: joining, the parent, the file
  name, its stem and its extension. A path is its bytes.
\<close>

definition is_absolute :: "string \<Rightarrow> bool" where
  "is_absolute p \<longleftrightarrow> p \<noteq> [] \<and> hd p = CHR ''/''"

definition path_join :: "string \<Rightarrow> string \<Rightarrow> string" where
  "path_join a b = (if is_absolute b then b else if a = [] \<or> last a = CHR ''/'' then a @ b
     else a @ ''/'' @ b)"

text \<open>The last component, unless it is \<open>..\<close>; empty components and \<open>.\<close> do not count.\<close>

definition file_name :: "string \<Rightarrow> string option" where
  "file_name p =
     (case rev (filter (\<lambda>c. c \<noteq> [] \<and> c \<noteq> ''.'') (split_on (\<lambda>c. c = CHR ''/'') p)) of
        [] \<Rightarrow> None
      | c # _ \<Rightarrow> if c = ''..'' then None else Some c)"

text \<open>A file name at its last dot, which does not count at the front.\<close>

fun last_dot :: "string \<Rightarrow> (string \<times> string) option" where
  "last_dot [] = None"
| "last_dot (c # cs) =
     (case last_dot cs of
        Some (a, b) \<Rightarrow> Some (c # a, b)
      | None \<Rightarrow> if c = CHR ''.'' then Some ([], cs) else None)"

definition split_dot :: "string \<Rightarrow> string \<times> string option" where
  "split_dot f =
     (case last_dot f of
        None \<Rightarrow> (f, None)
      | Some (a, b) \<Rightarrow> if a = [] then (f, None) else (a, Some b))"

definition file_stem :: "string \<Rightarrow> string option" where
  "file_stem p = map_option (\<lambda>f. fst (split_dot f)) (file_name p)"

definition extension :: "string \<Rightarrow> string option" where
  "extension p = Option.bind (file_name p) (\<lambda>f. snd (split_dot f))"

definition to_str :: "string \<Rightarrow> string option" where
  "to_str s = (if valid_utf8 s then Some s else None)"

text \<open>
  The path without its last component, if it has one. Separators at the end, and \<open>.\<close> after one, do not
  count; the root has no parent. Both functions take the path backwards.
\<close>

fun trim_tail :: "string \<Rightarrow> string" where
  "trim_tail [] = []"
| "trim_tail (c # cs) =
     (if c = CHR ''/'' \<and> cs \<noteq> [] \<or> c = CHR ''.'' \<and> cs \<noteq> [] \<and> hd cs = CHR ''/'' then trim_tail cs
      else c # cs)"

definition path_parent :: "string \<Rightarrow> string option" where
  "path_parent p =
     (let q = trim_tail (rev p)
      in if q = [] \<or> q = ''/'' then None
         else Some (rev (trim_tail (dropWhile (\<lambda>c. c \<noteq> CHR ''/'') q))))"

lemma last_dot_None: "last_dot s = None \<longleftrightarrow> CHR ''.'' \<notin> set s"
  by (induction s) (auto split: option.splits)

lemma last_dot_Some: "last_dot s = Some (a, b) \<longleftrightarrow> s = a @ CHR ''.'' # b \<and> CHR ''.'' \<notin> set b"
proof (induction s arbitrary: a)
  case (Cons c cs)
  show ?case
  proof (cases "last_dot cs")
    case None
    with last_dot_None [of cs] have d: "CHR ''.'' \<notin> set cs" by simp
    from None have "last_dot (c # cs) = Some (a, b) \<longleftrightarrow> c = CHR ''.'' \<and> a = [] \<and> b = cs" by auto
    with d show ?thesis by (auto simp: Cons_eq_append_conv)
  next
    case (Some ab)
    obtain x y where ab: "ab = (x, y)" by fastforce
    with Some have l: "last_dot cs = Some (x, y)" by simp
    with Cons.IH [of x] last_dot_None [of cs] have "CHR ''.'' \<in> set cs" by auto
    moreover from l have "last_dot (c # cs) = Some (a, b) \<longleftrightarrow> (\<exists>a'. a = c # a' \<and> last_dot cs = Some (a', b))"
      by auto
    ultimately show ?thesis unfolding Cons.IH by (auto simp: Cons_eq_append_conv)
  qed
qed simp

lemma split_dot_ext: "split_dot f = (a, Some b) \<Longrightarrow> f = a @ CHR ''.'' # b \<and> a \<noteq> [] \<and> CHR ''.'' \<notin> set b"
  by (auto simp: split_dot_def last_dot_Some split: option.splits if_splits)

text \<open>The file name of a plain component joined to a directory.\<close>

definition plain :: "string \<Rightarrow> bool" where
  "plain f \<longleftrightarrow> f \<noteq> [] \<and> CHR ''/'' \<notin> set f \<and> f \<noteq> ''.'' \<and> f \<noteq> ''..''"

lemma split_plain: "plain f \<Longrightarrow> split_on (\<lambda>c. c = CHR ''/'') f = [f]"
  by (rule split_on_no) (auto simp: plain_def)

lemma file_name_plain: "plain f \<Longrightarrow> file_name f = Some f"
  by (frule split_plain) (simp add: file_name_def plain_def)

lemma file_name_last: "plain f \<Longrightarrow> file_name (d @ CHR ''/'' # f) = Some f"
  by (frule split_plain) (simp add: file_name_def plain_def split_on_app)

lemma file_name_join: "plain f \<Longrightarrow> file_name (path_join d f) = Some f"
proof -
  assume f: "plain f"
  then have na: "\<not> is_absolute f" by (cases f) (auto simp: is_absolute_def plain_def)
  consider "d = []" | e where "d = e @ ''/''" | "d \<noteq> []" "last d \<noteq> CHR ''/''"
    by (metis append_butlast_last_id)
  then show ?thesis
    by cases (use na file_name_plain [OF f] file_name_last [OF f] in \<open>simp_all add: path_join_def\<close>)
qed

lemma rev_comp: "plain f \<Longrightarrow> trim_tail (rev f) = rev f"
proof (cases "rev f")
  case (Cons c cs)
  assume f: "plain f"
  then have "CHR ''/'' \<notin> set (rev f)" "rev f \<noteq> ''.''" by (auto simp: plain_def)
  with Cons show ?thesis by (cases cs) auto
qed simp

lemma parent_plain: "plain f \<Longrightarrow> path_parent f = Some []"
proof -
  assume f: "plain f"
  then have "dropWhile (\<lambda>c. c \<noteq> CHR ''/'') (rev f) = []" by (auto simp: plain_def dropWhile_eq_Nil_conv)
  then have "trim_tail (dropWhile (\<lambda>c. c \<noteq> CHR ''/'') (rev f)) = []" by (simp only: trim_tail.simps)
  moreover have "CHR ''/'' \<notin> set (rev f)" "rev f \<noteq> []" using f by (simp_all add: plain_def)
  then have "rev f \<noteq> ''/''" by (metis list.set_intros(1))
  ultimately show ?thesis using rev_comp [OF f] f by (simp add: path_parent_def Let_def plain_def)
qed

lemma file_parts_join:
  assumes "plain f"
  shows "file_stem (path_join d f) = Some (fst (split_dot f))" "extension (path_join d f) = snd (split_dot f)"
  using file_name_join [OF assms] by (simp_all add: file_stem_def extension_def)

end
