(* ===== verification/Judge_Isolate.thy ===== *)
theory Judge_Isolate
  imports Judge_Sandbox Rust_Path "HOL-Library.AList"
begin

text \<open>
  \<open>crates/judge/src/isolate.rs\<close>: the production backend, which drives the \<open>isolate\<close> binary. The
  pool of boxes and every step of a box are translated; what the operating system does (running
  a command, creating and reading host files) is a record of parameters over a host state \<open>'h\<close>,
  as is the text of \<open>{:?}\<close>, which only occurs in messages. A live box object is kept in the
  world under its id, which is also its handle.
\<close>

section \<open>Configuration and host\<close>

record isolate_config =
  ic_isolate_path :: string
  ic_use_cgroups :: bool
  ic_first_box_id :: u32
  ic_slots :: u32
  ic_meta_dir :: string
  ic_extra_dirs :: "string list"

definition default_isolate_config :: "string \<Rightarrow> isolate_config" where
  "default_isolate_config temp_dir = \<lparr>ic_isolate_path = ''isolate'', ic_use_cgroups = True,
     ic_first_box_id = 0, ic_slots = 2, ic_meta_dir = path_join temp_dir ''codexec-meta'',
     ic_extra_dirs = []\<rparr>"

text \<open>The exit code is \<open>None\<close> when a signal ended the command.\<close>

record cmd_output =
  co_code :: "int option"
  co_stdout :: bytes
  co_stderr :: bytes

datatype read_event = Chunk bytes | Read_Error string

datatype spawn_result =
    Spawn_Failed string
  | Timed_Out
  | Finished "read_event list" "read_event list" "string + int option"

record 'h host_ops =
  ho_output :: "string \<Rightarrow> string list \<Rightarrow> 'h \<Rightarrow> (string + cmd_output) \<times> 'h"
  ho_spawn :: "string \<Rightarrow> string list \<Rightarrow> bytes \<Rightarrow> duration \<Rightarrow> 'h \<Rightarrow> spawn_result \<times> 'h"
  ho_create_new :: "string \<Rightarrow> 'h \<Rightarrow> (string + unit) \<times> 'h"
  ho_write_all :: "string \<Rightarrow> bytes \<Rightarrow> 'h \<Rightarrow> (string + unit) \<times> 'h"
  ho_flush :: "string \<Rightarrow> 'h \<Rightarrow> (string + unit) \<times> 'h"
  ho_remove_file :: "string \<Rightarrow> 'h \<Rightarrow> (string + unit) \<times> 'h"
  ho_read_to_string :: "string \<Rightarrow> 'h \<Rightarrow> (string + string) \<times> 'h"
  ho_create_dir_all :: "string \<Rightarrow> 'h \<Rightarrow> (string + unit) \<times> 'h"
  ho_debug_str :: "string \<Rightarrow> string"
  ho_debug_duration :: "duration \<Rightarrow> string"

section \<open>Pure parts\<close>

definition secs :: "duration \<Rightarrow> string" where
  "secs d = fixed3 (as_secs_f64 d)"

definition mem_args :: "isolate_config \<Rightarrow> exec_limits \<Rightarrow> string list" where
  "mem_args cfg l =
     (if ic_use_cgroups cfg then [''--cg-mem='' @ show_nat (unat (el_memory_kb l))]
      else if el_address_space_limit l then [''--mem='' @ show_nat (unat (el_memory_kb l))] else [])"

definition build_run_args :: "isolate_config \<Rightarrow> string \<Rightarrow> exec_spec \<Rightarrow> string list" where
  "build_run_args cfg meta_path spec =
     (let l = es_limits spec
      in [''--silent'', ''--meta='' @ meta_path, ''--time='' @ secs (el_cpu_time l),
          ''--extra-time='' @ secs (el_extra_time l), ''--wall-time='' @ secs (el_wall_time l),
          ''--processes='' @ show_nat (unat (max (el_processes l) 1)),
          ''--fsize='' @ show_nat (unat (el_file_size_kb l))] @
         mem_args cfg l @
         (case es_syscall_flags spec of None \<Rightarrow> [] | Some f \<Rightarrow> [''--syscalls='' @ show_nat (unat f)]) @
         (if es_stderr_to_stdout spec then [''--stderr-to-stdout''] else []) @
         map (\<lambda>dir. ''--dir='' @ dir) (ic_extra_dirs cfg @ es_dirs spec) @
         map (\<lambda>(k, v). ''--env='' @ k @ ''='' @ v) (es_env spec) @
         [''--run'', ''--''] @ es_argv spec)"

text \<open>Collecting into a \<open>HashMap\<close>: a later line replaces an earlier one with its key.\<close>

definition parse_meta :: "string \<Rightarrow> (string \<times> string) list" where
  "parse_meta text =
     fold (\<lambda>(k, v). AList.update (trim k) (trim v))
       (List.map_filter (split_once (CHR '':'')) (str_lines text)) []"

definition sat_mul :: "u64 \<Rightarrow> nat \<Rightarrow> nat" where
  "sat_mul w n = min (unat w * n) (2 ^ 64 - 1)"

definition meta_ms :: "(string \<times> string) list \<Rightarrow> string \<Rightarrow> u64" where
  "meta_ms meta key =
     (case Option.bind (map_of meta key) parse_f64 of
        None \<Rightarrow> 0
      | Some s \<Rightarrow> f64_as_u64 (f64_max0 (f64_round (f64_mul s (Fin 1000)))))"

definition meta_kb :: "(string \<times> string) list \<Rightarrow> string \<Rightarrow> u64 option" where
  "meta_kb meta key = Option.bind (map_of meta key) parse_u64"

definition meta_memory_kb :: "(string \<times> string) list \<Rightarrow> u64" where
  "meta_memory_kb meta =
     (case meta_kb meta ''max-rss'' of
        Some kb \<Rightarrow> kb
      | None \<Rightarrow> (case meta_kb meta ''cg-mem'' of Some kb \<Rightarrow> kb | None \<Rightarrow> 0))"

definition out_of_memory :: "(string \<times> string) list \<Rightarrow> exec_limits \<Rightarrow> bool \<Rightarrow> bool" where
  "out_of_memory meta limits use_cgroups \<longleftrightarrow>
     map_of meta ''cg-oom-killed'' \<noteq> None \<or>
     el_memory_kb limits < meta_memory_kb meta \<or>
     (\<not> use_cgroups \<and> map_of meta ''status'' \<noteq> None \<and>
      sat_mul (el_memory_kb limits) 9 \<le> sat_mul (meta_memory_kb meta) 10)"

definition show_code :: "int option \<Rightarrow> string" where
  "show_code c = (case c of None \<Rightarrow> ''None'' | Some i \<Rightarrow> ''Some('' @ show_int i @ '')'')"

definition show_opt :: "(string \<Rightarrow> string) \<Rightarrow> string option \<Rightarrow> string" where
  "show_opt dbg s = (case s of None \<Rightarrow> ''None'' | Some t \<Rightarrow> ''Some('' @ dbg t @ '')'')"

definition meta_i32 :: "(string \<times> string) list \<Rightarrow> string \<Rightarrow> int \<Rightarrow> int" where
  "meta_i32 meta key dflt = (case Option.bind (map_of meta key) parse_i32 of Some i \<Rightarrow> i | None \<Rightarrow> dflt)"

definition interpret_meta ::
  "(string \<Rightarrow> string) \<Rightarrow> (string \<times> string) list \<Rightarrow> int option \<Rightarrow> exec_limits \<Rightarrow> bool \<Rightarrow> bool \<Rightarrow>
   string + (exec_status \<times> u64 \<times> u64 \<times> u64)" where
  "interpret_meta dbg meta exit_code limits use_cgroups stdout_truncated =
     (let status_key = map_of meta ''status''
      in if \<not> ((exit_code = Some 0 \<or> exit_code = Some 1) \<and> status_key \<noteq> Some ''XX'')
         then Err (''isolate internal error (exit '' @ show_code exit_code @ '', status '' @
                   show_opt dbg status_key @ '', message '' @ show_opt dbg (map_of meta ''message'') @ '')'')
         else if meta = [] then Err ''isolate produced no meta file''
         else
           (let oom = out_of_memory meta limits use_cgroups;
                numbers = (meta_ms meta ''time'', meta_ms meta ''time-wall'', meta_memory_kb meta)
            in if status_key = Some ''TO'' then
                 (let wall = (case map_of meta ''message'' of
                                Some m \<Rightarrow> str_contains m ''wall'' | None \<Rightarrow> False)
                  in Ok (if wall then WallTimeLimit else TimeLimit, numbers))
               else if oom then Ok (MemoryLimit, numbers)
               else (case status_key of
                       Some s \<Rightarrow>
                         if s = ''SG'' then Ok (Signaled (meta_i32 meta ''exitsig'' 0), numbers)
                         else if s = ''RE'' then Ok (NonZeroExit (meta_i32 meta ''exitcode'' 1), numbers)
                         else Err (''unknown isolate status '' @ dbg s)
                     | None \<Rightarrow> Ok (if stdout_truncated then OutputLimit else ExOk, numbers))))"

text \<open>The reading loop: an empty read is the end of the stream.\<close>

fun read_loop :: "nat \<Rightarrow> bytes \<Rightarrow> bool \<Rightarrow> read_event list \<Rightarrow> string + (bytes \<times> bool)" where
  "read_loop cap kept truncated [] = Ok (kept, truncated)"
| "read_loop cap kept truncated (Read_Error e # rest) = Err e"
| "read_loop cap kept truncated (Chunk buf # rest) =
     (if buf = [] then Ok (kept, truncated)
      else (let room = cap - length kept
            in read_loop cap (kept @ take (min (length buf) room) buf)
                 (truncated \<or> room < length buf) rest))"

definition read_capped :: "read_event list \<Rightarrow> nat \<Rightarrow> string + (bytes \<times> bool)" where
  "read_capped r cap = read_loop cap [] False r"

section \<open>The pool and its boxes\<close>

record iso_box =
  ib_box_dir :: string
  ib_executed :: bool

record 'h iso_world =
  iw_free :: "u32 list"
  iw_permits :: nat
  iw_boxes :: "(u32 \<times> iso_box) list"
  iw_host :: 'h

type_synonym ('h, 'a) boxed = "('h iso_world, sandbox_error, 'a) io"

text \<open>\<open>first .. first + slots\<close> in \<open>u32\<close>, whose sum wraps in release builds; ids are popped from the end.\<close>

definition box_ids :: "isolate_config \<Rightarrow> u32 list" where
  "box_ids cfg = rev (map of_nat [unat (ic_first_box_id cfg) ..<
     unat (ic_first_box_id cfg + ic_slots cfg)])"

definition isolate_new ::
  "'h host_ops \<Rightarrow> isolate_config \<Rightarrow> 'h \<Rightarrow> sandbox_error + 'h iso_world" where
  "isolate_new ho cfg h =
     (if ic_slots cfg = 0 then Err (Backend ''isolate: slots must be at least 1'')
      else (case ho_create_dir_all ho (ic_meta_dir cfg) h of
              (Err e, h') \<Rightarrow> Err (Io e)
            | (Ok u, h') \<Rightarrow> Ok \<lparr>iw_free = box_ids cfg, iw_permits = unat (ic_slots cfg),
                             iw_boxes = [], iw_host = h'\<rparr>))"

text \<open>A step of the host inside a box operation; an I/O error becomes \<open>SandboxError::Io\<close>.\<close>

definition on_host :: "('h \<Rightarrow> (string + 'a) \<times> 'h) \<Rightarrow> ('h, 'a) boxed" where
  "on_host f w =
     (case f (iw_host w) of
        (Err e, h) \<Rightarrow> (Err (Io e), w\<lparr>iw_host := h\<rparr>)
      | (Ok a, h) \<Rightarrow> (Ok a, w\<lparr>iw_host := h\<rparr>))"

definition base_args :: "isolate_config \<Rightarrow> u32 \<Rightarrow> string list" where
  "base_args cfg b = (if ic_use_cgroups cfg then [''--cg''] else []) @ [''--box-id='' @ show_nat (unat b)]"

definition box_cleanup :: "'h host_ops \<Rightarrow> isolate_config \<Rightarrow> u32 \<Rightarrow> ('h, unit) boxed" where
  "box_cleanup ho cfg b =
     and_then (on_host (ho_output ho (ic_isolate_path cfg) (base_args cfg b @ [''--cleanup'']))) (\<lambda>out.
     if co_code out \<noteq> Some 0
     then io_err (Backend (''isolate --cleanup failed for box '' @ show_nat (unat b) @ '': '' @
            trim (from_utf8_lossy (co_stderr out))))
     else io_ok ())"

definition set_box :: "u32 \<Rightarrow> (iso_box \<Rightarrow> iso_box) \<Rightarrow> ('h, unit) boxed" where
  "set_box b f w =
     (Ok (), w\<lparr>iw_boxes := map (\<lambda>(i, bx). (i, if i = b then f bx else bx)) (iw_boxes w)\<rparr>)"

definition box_init :: "'h host_ops \<Rightarrow> isolate_config \<Rightarrow> u32 \<Rightarrow> ('h, unit) boxed" where
  "box_init ho cfg b =
     and_then (box_cleanup ho cfg b) (\<lambda>_.
     and_then (on_host (ho_output ho (ic_isolate_path cfg) (base_args cfg b @ [''--init'']))) (\<lambda>out.
     if co_code out \<noteq> Some 0
     then io_err (Backend (''isolate --init failed for box '' @ show_nat (unat b) @ '': '' @
            trim (from_utf8_lossy (co_stderr out))))
     else
       (let root = trim (from_utf8_lossy (co_stdout out))
        in if root = [] \<or> \<not> is_absolute root
           then io_err (Backend (''isolate --init printed an unexpected box path: '' @ ho_debug_str ho root))
           else set_box b (\<lambda>bx. bx\<lparr>ib_box_dir := path_join root ''box'', ib_executed := False\<rparr>))))"

text \<open>\<open>Drop\<close>: the id goes back to the pool, then the permit.\<close>

definition drop_box :: "u32 \<Rightarrow> 'h iso_world \<Rightarrow> 'h iso_world" where
  "drop_box b w = w\<lparr>iw_free := iw_free w @ [b], iw_permits := iw_permits w + 1,
     iw_boxes := filter (\<lambda>(i, _). i \<noteq> b) (iw_boxes w)\<rparr>"

datatype 'h acquired = Waits | Panics | Returns "sandbox_error + u32" "'h iso_world"

definition isolate_acquire :: "'h host_ops \<Rightarrow> isolate_config \<Rightarrow> 'h iso_world \<Rightarrow> 'h acquired" where
  "isolate_acquire ho cfg w =
     (if iw_permits w = 0 then Waits
      else if iw_free w = [] then Panics
      else
        (let b = last (iw_free w);
             w1 = w\<lparr>iw_permits := iw_permits w - 1, iw_free := butlast (iw_free w),
                    iw_boxes := (b, \<lparr>ib_box_dir = [], ib_executed = False\<rparr>) # iw_boxes w\<rparr>
         in case box_init ho cfg b w1 of
              (Err e, w2) \<Rightarrow> Returns (Err e) (drop_box b w2)
            | (Ok u, w2) \<Rightarrow> Returns (Ok b) w2))"

definition box_of :: "u32 \<Rightarrow> 'h iso_world \<Rightarrow> iso_box" where
  "box_of b w = (case map_of (iw_boxes w) b of
     Some bx \<Rightarrow> bx | None \<Rightarrow> \<lparr>ib_box_dir = [], ib_executed = False\<rparr>)"

definition isolate_write_file ::
  "'h host_ops \<Rightarrow> u32 \<Rightarrow> string \<Rightarrow> bytes \<Rightarrow> ('h, unit) boxed" where
  "isolate_write_file ho b name contents w =
     (case validate_file_name name of
        Err e \<Rightarrow> (Err e, w)
      | Ok u \<Rightarrow>
          if ib_executed (box_of b w)
          then (Err (Backend ''refusing to write into a box after code has run in it''), w)
          else
            (let path = path_join (ib_box_dir (box_of b w)) name
             in and_then (on_host (ho_create_new ho path)) (\<lambda>_.
                and_then (on_host (ho_write_all ho path contents)) (\<lambda>_.
                on_host (ho_flush ho path))) w))"

definition meta_path :: "isolate_config \<Rightarrow> u32 \<Rightarrow> string" where
  "meta_path cfg b = path_join (ic_meta_dir cfg) (''box-'' @ show_nat (unat b) @ ''.meta'')"

definition no_io :: "string + 'a \<Rightarrow> ('h, 'a) boxed" where
  "no_io r w = (case r of Err e \<Rightarrow> (Err (Io e), w) | Ok a \<Rightarrow> (Ok a, w))"

definition guard_time :: "exec_limits \<Rightarrow> duration" where
  "guard_time l = el_wall_time l + el_extra_time l + 15 * 10 ^ 9"

text \<open>What \<open>exec\<close> makes of the command's streams, its exit and the meta file.\<close>

definition exec_outcome_of ::
  "'h host_ops \<Rightarrow> isolate_config \<Rightarrow> exec_spec \<Rightarrow> bytes \<times> bool \<Rightarrow> bytes \<Rightarrow> int option \<Rightarrow> string \<Rightarrow>
   sandbox_error + exec_outcome" where
  "exec_outcome_of ho cfg spec out stderr exit_code meta_text =
     (case interpret_meta (ho_debug_str ho) (parse_meta meta_text) exit_code (es_limits spec)
             (ic_use_cgroups cfg) (snd out) of
        Err msg \<Rightarrow> Err (Backend (msg @ ''; isolate stderr: '' @ trim (from_utf8_lossy stderr)))
      | Ok (st, cpu, wall, mem) \<Rightarrow>
          Ok \<lparr>oc_status = st, oc_stdout = fst out, oc_stderr = stderr, oc_cpu_time_ms = cpu,
              oc_wall_time_ms = wall, oc_memory_kb = mem\<rparr>)"

text \<open>The part of \<open>exec\<close> after the command ended in time.\<close>

definition exec_collect ::
  "'h host_ops \<Rightarrow> isolate_config \<Rightarrow> u32 \<Rightarrow> exec_spec \<Rightarrow> read_event list \<Rightarrow> read_event list \<Rightarrow>
   string + int option \<Rightarrow> ('h, exec_outcome) boxed" where
  "exec_collect ho cfg b spec outs errs exit_res =
     and_then (no_io (read_capped outs (el_stdout_bytes (es_limits spec)))) (\<lambda>out.
     and_then (no_io (read_capped errs (el_stderr_bytes (es_limits spec)))) (\<lambda>err.
     and_then (no_io exit_res) (\<lambda>exit_code w.
     (let (m, h) = ho_read_to_string ho (meta_path cfg b) (iw_host w);
          meta_text = (case m of Ok t \<Rightarrow> t | Err e \<Rightarrow> [])
      in (exec_outcome_of ho cfg spec out (fst err) exit_code meta_text, w\<lparr>iw_host := h\<rparr>)))))"

definition exec_command ::
  "'h host_ops \<Rightarrow> isolate_config \<Rightarrow> u32 \<Rightarrow> exec_spec \<Rightarrow> bytes \<Rightarrow> ('h, exec_outcome) boxed" where
  "exec_command ho cfg b spec stdin w =
     (let h1 = snd (ho_remove_file ho (meta_path cfg b) (iw_host w));
          args = base_args cfg b @ build_run_args cfg (meta_path cfg b) spec;
          guard = guard_time (es_limits spec);
          (r, h2) = ho_spawn ho (ic_isolate_path cfg) args stdin guard h1;
          w2 = w\<lparr>iw_host := h2\<rparr>
      in case r of
           Spawn_Failed e \<Rightarrow> (Err (Io e), w2)
         | Timed_Out \<Rightarrow> (Err (Backend (''isolate did not finish within '' @ ho_debug_duration ho guard @
             '' for box '' @ show_nat (unat b))), w2)
         | Finished outs errs exit_res \<Rightarrow> exec_collect ho cfg b spec outs errs exit_res w2)"

definition isolate_exec ::
  "'h host_ops \<Rightarrow> isolate_config \<Rightarrow> u32 \<Rightarrow> exec_spec \<Rightarrow> bytes \<Rightarrow> ('h, exec_outcome) boxed" where
  "isolate_exec ho cfg b spec stdin =
     (if es_argv spec = [] then io_err (Backend ''empty argv'')
      else and_then (set_box b (\<lambda>bx. bx\<lparr>ib_executed := True\<rparr>)) (\<lambda>_.
           exec_command ho cfg b spec stdin))"

text \<open>\<open>release\<close>: clean up, then drop the box whatever came of it.\<close>

definition isolate_release :: "'h host_ops \<Rightarrow> isolate_config \<Rightarrow> u32 \<Rightarrow> ('h, unit) boxed" where
  "isolate_release ho cfg b w = (case box_cleanup ho cfg b w of (r, w') \<Rightarrow> (r, drop_box b w'))"

definition isolate_ops :: "'h host_ops \<Rightarrow> isolate_config \<Rightarrow> ('h iso_world, u32) sandbox" where
  "isolate_ops ho cfg =
     \<lparr>sb_acquire = (\<lambda>w. case isolate_acquire ho cfg w of Returns r w' \<Rightarrow> Some (r, w') | _ \<Rightarrow> None),
      sb_write_file = isolate_write_file ho, sb_exec = isolate_exec ho cfg,
      sb_release = isolate_release ho cfg\<rparr>"

definition isolate_check :: "'h host_ops \<Rightarrow> isolate_config \<Rightarrow> 'h \<Rightarrow> (sandbox_error + string) \<times> 'h" where
  "isolate_check ho cfg h =
     (case ho_output ho (ic_isolate_path cfg) [''--version''] h of
        (Err e, h') \<Rightarrow> (Err (Backend (''cannot execute '' @ ho_debug_str ho (ic_isolate_path cfg) @ '': '' @ e @
           ''. Run scripts/setup-isolate.sh first.'')), h')
      | (Ok out, h') \<Rightarrow>
          (Ok (case str_lines (from_utf8_lossy (co_stdout out)) of
             l # _ \<Rightarrow> l | [] \<Rightarrow> ''isolate (unknown version)''), h'))"

section \<open>Setting up\<close>

text \<open>What both programs do first: make the pool, and run \<open>isolate --version\<close> to fail early.\<close>

definition start_sandbox ::
  "'h host_ops \<Rightarrow> isolate_config \<Rightarrow> 'h \<Rightarrow> sandbox_error + 'h iso_world" where
  "start_sandbox ho icfg h =
     try_then (isolate_new ho icfg h) (\<lambda>pool.
       (case isolate_check ho icfg (iw_host pool) of
          (Err e, h') \<Rightarrow> Err e
        | (Ok version, h') \<Rightarrow> Ok (pool\<lparr>iw_host := h'\<rparr>)))"

end
