(* ===== verification/Judge_Isolate_Facts.thy ===== *)
theory Judge_Isolate_Facts
  imports Judge_Isolate Judge_Pipeline_Facts
begin

text \<open>
  The isolate backend keeps its pool: every box id is free or in use, never both, and there is a
  permit for every free id. That makes it a provider of the sandbox interface, from which the
  pipeline's guarantees follow. Then the pure parts: capped reading, the command line, and the
  reading of the exit code and the meta file.
\<close>

section \<open>Box operations leave the pool alone\<close>

definition same_pool :: "'h iso_world \<Rightarrow> 'h iso_world \<Rightarrow> bool" where
  "same_pool w w' \<longleftrightarrow> iw_free w' = iw_free w \<and> iw_permits w' = iw_permits w \<and>
     map fst (iw_boxes w') = map fst (iw_boxes w)"

lemma same_pool_refl [simp]: "same_pool w w"
  by (simp add: same_pool_def)

lemma same_pool_trans: "same_pool u v \<Longrightarrow> same_pool v w \<Longrightarrow> same_pool u w"
  by (simp add: same_pool_def)

lemma same_pool_host [simp]: "same_pool w (w'\<lparr>iw_host := h\<rparr>) \<longleftrightarrow> same_pool w w'"
  by (simp add: same_pool_def)

definition keeps_pool :: "('h, 'a) boxed \<Rightarrow> bool" where
  "keeps_pool m \<longleftrightarrow> (\<forall>w. same_pool w (snd (m w)))"

lemma keeps_pool_step: "keeps_pool m \<Longrightarrow> m w = (r, w') \<Longrightarrow> same_pool w w'"
  unfolding keeps_pool_def by (metis snd_conv)

lemma keeps_and_then [inv_intros]:
  "keeps_pool m \<Longrightarrow> (\<And>a. keeps_pool (f a)) \<Longrightarrow> keeps_pool (and_then m f)"
  unfolding keeps_pool_def
proof
  fix w
  assume m: "\<forall>w. same_pool w (snd (m w))" and f: "\<And>a. \<forall>w. same_pool w (snd (f a w))"
  obtain r w1 where e: "m w = (r, w1)" by fastforce
  then have 1: "same_pool w w1" using m [rule_format, of w] by simp
  show "same_pool w (snd (and_then m f w))"
  proof (cases r)
    case (Inr a)
    with e 1 f [of a, rule_format, of w1] show ?thesis
      by (auto simp: and_then_def intro: same_pool_trans)
  qed (use e 1 in \<open>simp add: and_then_def\<close>)
qed

lemma keeps_on_host [inv_intros]: "keeps_pool (on_host f)"
  by (auto simp: keeps_pool_def on_host_def split: prod.splits sum.splits)

lemma keeps_ok_err [inv_intros]: "keeps_pool (io_ok a)" "keeps_pool (io_err e)" "keeps_pool (no_io r)"
  by (auto simp: keeps_pool_def no_io_def split: sum.splits)

lemma keeps_set_box [inv_intros]: "keeps_pool (set_box b f)"
  by (auto simp: keeps_pool_def set_box_def same_pool_def)

lemma keeps_cleanup [inv_intros]: "keeps_pool (box_cleanup ho cfg b)"
  unfolding box_cleanup_def by (auto intro!: inv_intros)

lemma keeps_init [inv_intros]: "keeps_pool (box_init ho cfg b)"
  unfolding box_init_def Let_def by (auto intro!: inv_intros)

lemma keeps_write: "keeps_pool (isolate_write_file ho b name c)"
proof -
  have "keeps_pool (and_then (on_host (ho_create_new ho p)) (\<lambda>_.
      and_then (on_host (ho_write_all ho p c)) (\<lambda>_. on_host (ho_flush ho p))))" for p
    by (intro inv_intros)
  then show ?thesis
    by (auto simp: keeps_pool_def isolate_write_file_def Let_def split: sum.splits)
qed

lemma keeps_collect: "keeps_pool (exec_collect ho cfg b spec outs errs exit_res)"
  unfolding exec_collect_def
  by (intro inv_intros) (auto simp: keeps_pool_def Let_def split: prod.splits)

lemma keeps_command: "keeps_pool (exec_command ho cfg b spec i)"
  unfolding keeps_pool_def
proof
  fix w
  have "same_pool w (snd (exec_collect ho cfg b spec outs errs x (w\<lparr>iw_host := h\<rparr>)))" for outs errs x h
  proof -
    obtain r w' where e: "exec_collect ho cfg b spec outs errs x (w\<lparr>iw_host := h\<rparr>) = (r, w')"
      by fastforce
    from keeps_pool_step [OF keeps_collect e] e show ?thesis by (simp add: same_pool_def)
  qed
  then show "same_pool w (snd (exec_command ho cfg b spec i w))"
    by (auto simp: exec_command_def Let_def split: prod.splits spawn_result.splits)
qed

lemma keeps_exec: "keeps_pool (isolate_exec ho cfg b spec i)"
  unfolding isolate_exec_def by (auto intro!: inv_intros keeps_command)

section \<open>The pool invariant\<close>

definition pool_inv :: "isolate_config \<Rightarrow> 'h iso_world \<Rightarrow> bool" where
  "pool_inv cfg w \<longleftrightarrow> distinct (iw_free w @ map fst (iw_boxes w)) \<and>
     set (iw_free w @ map fst (iw_boxes w)) = set (box_ids cfg) \<and>
     iw_permits w = length (iw_free w)"

definition live_boxes :: "'h iso_world \<Rightarrow> nat" where
  "live_boxes w = length (iw_boxes w)"

definition holds_box :: "u32 \<Rightarrow> 'h iso_world \<Rightarrow> bool" where
  "holds_box b w \<longleftrightarrow> b \<in> set (map fst (iw_boxes w))"

lemma same_pool_inv:
  assumes "same_pool w w'"
  shows "pool_inv cfg w' \<longleftrightarrow> pool_inv cfg w" "live_boxes w' = live_boxes w" "holds_box b w' \<longleftrightarrow> holds_box b w"
  using assms unfolding same_pool_def pool_inv_def live_boxes_def holds_box_def
  by (simp_all, metis length_map)

lemma filter_fst_neq:
  "distinct (map fst xs) \<Longrightarrow> b \<in> fst ` set xs \<Longrightarrow>
     Suc (length (filter (\<lambda>(i, _). i \<noteq> b) xs)) = length xs"
proof (induction xs)
  case (Cons x xs)
  show ?case
  proof (cases "fst x = b")
    case True
    with Cons.prems have "b \<notin> fst ` set xs" by simp
    then have "\<forall>y \<in> set xs. fst y \<noteq> b" by blast
    then have "filter (\<lambda>(i, _). i \<noteq> b) xs = xs" by (auto simp: filter_id_conv)
    with True show ?thesis by (cases x) simp
  next
    case False
    with Cons show ?thesis by (auto simp: split_beta)
  qed
qed simp

lemma drop_box_inv:
  assumes "pool_inv cfg w" "holds_box b w"
  shows "pool_inv cfg (drop_box b w) \<and> Suc (live_boxes (drop_box b w)) = live_boxes w"
proof -
  have m: "map fst (filter (\<lambda>(i, _). i \<noteq> b) xs) = filter (\<lambda>i. i \<noteq> b) (map fst xs)"
    for xs :: "(u32 \<times> iso_box) list"
    by (induction xs) auto
  from assms show ?thesis
    using filter_fst_neq [of "iw_boxes w" b]
    by (auto simp: pool_inv_def holds_box_def live_boxes_def drop_box_def m)
qed

lemma acquire_cases:
  assumes inv: "pool_inv cfg w" and "iw_permits w \<noteq> 0"
  obtains b r w1 w2 where "iw_free w = butlast (iw_free w) @ [b]"
    "pool_inv cfg w1" "holds_box b w1" "live_boxes w1 = Suc (live_boxes w)"
    "box_init ho cfg b w1 = (r, w2)" "same_pool w1 w2"
    "isolate_acquire ho cfg w = (case r of Err e \<Rightarrow> Returns (Err e) (drop_box b w2) | Ok u \<Rightarrow> Returns (Ok b) w2)"
proof -
  have free: "iw_free w \<noteq> []" using assms by (auto simp: pool_inv_def)
  define b where "b = last (iw_free w)"
  define w1 where "w1 = w\<lparr>iw_permits := iw_permits w - 1, iw_free := butlast (iw_free w),
    iw_boxes := (b, \<lparr>ib_box_dir = [], ib_executed = False\<rparr>) # iw_boxes w\<rparr>"
  have split: "iw_free w = butlast (iw_free w) @ [b]" using free by (simp add: b_def)
  obtain r w2 where i: "box_init ho cfg b w1 = (r, w2)" by fastforce
  have "distinct (butlast (iw_free w) @ [b] @ map fst (iw_boxes w))"
    "set (butlast (iw_free w) @ [b] @ map fst (iw_boxes w)) = set (box_ids cfg)"
    "iw_permits w = length (butlast (iw_free w) @ [b])"
    using inv split unfolding pool_inv_def by (metis append.assoc)+
  then have "pool_inv cfg w1" by (auto simp: pool_inv_def w1_def)
  moreover have "isolate_acquire ho cfg w =
      (case r of Err e \<Rightarrow> Returns (Err e) (drop_box b w2) | Ok u \<Rightarrow> Returns (Ok b) w2)"
    using assms(2) free i unfolding isolate_acquire_def Let_def b_def w1_def by simp
  ultimately show thesis
    using split i keeps_pool_step [OF keeps_init i]
    by (intro that) (auto simp: holds_box_def live_boxes_def w1_def)
qed

lemma acquire_Waits: "isolate_acquire ho cfg w = Waits \<longleftrightarrow> iw_permits w = 0"
  by (auto simp: isolate_acquire_def Let_def split: prod.splits sum.splits)

lemma acquire_never_panics: "pool_inv cfg w \<Longrightarrow> isolate_acquire ho cfg w \<noteq> Panics"
  by (auto simp: isolate_acquire_def pool_inv_def Let_def split: prod.splits sum.splits)

lemma acquire_returns:
  assumes "pool_inv cfg w" "isolate_acquire ho cfg w = Returns r w'"
  shows "pool_inv cfg w' \<and> (case r of Err e \<Rightarrow> live_boxes w' = live_boxes w
    | Ok b \<Rightarrow> holds_box b w' \<and> live_boxes w' = Suc (live_boxes w))"
proof -
  have "iw_permits w \<noteq> 0" using assms(2) acquire_Waits by (metis acquired.distinct(3))
  then obtain b q w1 w2 where "iw_free w = butlast (iw_free w) @ [b]"
    and w1: "pool_inv cfg w1" "holds_box b w1" "live_boxes w1 = Suc (live_boxes w)"
    and "box_init ho cfg b w1 = (q, w2)" and w2: "same_pool w1 w2"
    and a: "isolate_acquire ho cfg w =
      (case q of Err e \<Rightarrow> Returns (Err e) (drop_box b w2) | Ok u \<Rightarrow> Returns (Ok b) w2)"
    by (rule acquire_cases [OF assms(1)])
  from w1 same_pool_inv [OF w2] have "pool_inv cfg w2" "holds_box b w2" "live_boxes w2 = Suc (live_boxes w)"
    by simp_all
  with a assms(2) drop_box_inv [of cfg w2 b] show ?thesis
    by (cases q) auto
qed

interpretation isolate: sandbox_provider "isolate_ops ho cfg" "pool_inv cfg" live_boxes holds_box
  for ho :: "'h host_ops" and cfg
proof
  fix s s' :: "'h iso_world" and b :: u32 and e r name c
  show "pool_inv cfg s \<Longrightarrow> sb_acquire (isolate_ops ho cfg) s = Some (Ok b, s') \<Longrightarrow>
      pool_inv cfg s' \<and> holds_box b s' \<and> live_boxes s' = Suc (live_boxes s)"
    using acquire_returns [of cfg s ho "Ok b" s'] by (auto simp: isolate_ops_def split: acquired.splits)
  show "pool_inv cfg s \<Longrightarrow> sb_acquire (isolate_ops ho cfg) s = Some (Err e, s') \<Longrightarrow>
      pool_inv cfg s' \<and> live_boxes s' = live_boxes s"
    using acquire_returns [of cfg s ho "Err e" s'] by (auto simp: isolate_ops_def split: acquired.splits)
  show "pool_inv cfg s \<Longrightarrow> holds_box b s \<Longrightarrow> sb_write_file (isolate_ops ho cfg) b name c s = (r, s') \<Longrightarrow>
      pool_inv cfg s' \<and> holds_box b s' \<and> live_boxes s' = live_boxes s" for r
    using keeps_pool_step [OF keeps_write, of ho b name c s] same_pool_inv [of s s']
    by (simp add: isolate_ops_def)
  show "pool_inv cfg s \<Longrightarrow> holds_box b s \<Longrightarrow> sb_exec (isolate_ops ho cfg) b spec input s = (r', s') \<Longrightarrow>
      pool_inv cfg s' \<and> holds_box b s' \<and> live_boxes s' = live_boxes s" for spec input r'
    using keeps_pool_step [OF keeps_exec, of ho cfg b spec input s] same_pool_inv [of s s']
    by (simp add: isolate_ops_def)
  show "pool_inv cfg s \<Longrightarrow> holds_box b s \<Longrightarrow> sb_release (isolate_ops ho cfg) b s = (r'', s') \<Longrightarrow>
      pool_inv cfg s' \<and> Suc (live_boxes s') = live_boxes s" for r''
  proof -
    assume inv: "pool_inv cfg s" "holds_box b s" and rel: "sb_release (isolate_ops ho cfg) b s = (r'', s')"
    obtain q w where c: "box_cleanup ho cfg b s = (q, w)" by fastforce
    with rel have "s' = drop_box b w" by (simp add: isolate_ops_def isolate_release_def)
    with drop_box_inv [of cfg w b] same_pool_inv [OF keeps_pool_step [OF keeps_cleanup c]] inv
    show ?thesis by simp
  qed
  show "validate_file_name name = Err e \<Longrightarrow> sb_write_file (isolate_ops ho cfg) b name c s = (Err e, s)"
    by (simp add: isolate_ops_def isolate_write_file_def)
qed

end
