(* ===== verification/Judge_Isolate_Guarantees.thy ===== *)
theory Judge_Isolate_Guarantees
  imports Judge_Isolate_Facts Judge_Guarantees
begin

text \<open>
  What \<open>crates/judge/src/isolate.rs\<close> guarantees: exclusive boxes that are always given back, no
  write into a box after code ran in it, bounded output whatever the program prints, a command
  line in which a program's arguments cannot become options, and statuses that blame the
  program only when the sandbox worked.
\<close>

section \<open>Boxes\<close>

text \<open>A host on which every command succeeds, for concrete instances.\<close>

definition sample_host :: "nat host_ops" where
  "sample_host = \<lparr>ho_output = (\<lambda>p args h. (Ok \<lparr>co_code = Some 0, co_stdout = ''/var/box'', co_stderr = []\<rparr>, h)),
     ho_spawn = (\<lambda>p args i g h. (Finished [Chunk i] [] (Ok (Some 0)), h + 1)),
     ho_create_new = (\<lambda>p h. (Ok (), h)), ho_write_all = (\<lambda>p c h. (Ok (), h)),
     ho_flush = (\<lambda>p h. (Ok (), h)), ho_remove_file = (\<lambda>p h. (Ok (), h)),
     ho_read_to_string = (\<lambda>p h. (Ok ''time:0.013'', h)), ho_create_dir_all = (\<lambda>p h. (Ok (), h)),
     ho_debug_str = id, ho_debug_duration = (\<lambda>d. [])\<rparr>"

definition sample_isolate :: isolate_config where
  "sample_isolate = default_isolate_config ''/tmp''"

definition sample_pool :: "nat iso_world" where
  "sample_pool = \<lparr>iw_free = box_ids sample_isolate, iw_permits = 2, iw_boxes = [], iw_host = 0\<rparr>"

lemma box_ids_count:
  assumes "unat (ic_first_box_id cfg) + unat (ic_slots cfg) < 2 ^ 32"
  shows "length (box_ids cfg) = unat (ic_slots cfg)" and "distinct (box_ids cfg)"
proof -
  have s: "unat (ic_first_box_id cfg + ic_slots cfg) = unat (ic_first_box_id cfg) + unat (ic_slots cfg)"
    using assms by (simp add: unat_word_ariths)
  then show "length (box_ids cfg) = unat (ic_slots cfg)" by (simp add: box_ids_def)
  have "inj_on (of_nat :: nat \<Rightarrow> u32) {0 ..< 2 ^ 32}"
    by (rule inj_on_inverseI [of _ unat]) (simp add: unat_of_nat take_bit_nat_eq_self)
  then have "inj_on (of_nat :: nat \<Rightarrow> u32) (set [unat (ic_first_box_id cfg) ..<
      unat (ic_first_box_id cfg + ic_slots cfg)])"
    using assms s by (auto elim!: inj_on_subset)
  then show "distinct (box_ids cfg)" by (simp add: box_ids_def distinct_map)
qed

text \<open>C38: the pool of boxes is exclusive and bounded. A new pool whose id range does not wrap
is good; in a good state (which every box operation keeps) no two live boxes share an id, at
most \<open>slots\<close> boxes are live, taking a box never panics, it waits only when all boxes are in
use, and a box it hands out is one that was free.\<close>

theorem pool_is_exclusive:
  assumes "unat (ic_first_box_id cfg) + unat (ic_slots cfg) < 2 ^ 32"
  shows "(case isolate_new ho cfg h of Err e \<Rightarrow> True | Ok w \<Rightarrow> pool_inv cfg w \<and> live_boxes w = 0) \<and>
    (if pool_inv cfg w
     then distinct (map fst (iw_boxes w)) \<and> live_boxes w \<le> unat (ic_slots cfg) \<and>
       (case isolate_acquire ho cfg w of
          Waits \<Rightarrow> live_boxes w = unat (ic_slots cfg)
        | Panics \<Rightarrow> False
        | Returns r w' \<Rightarrow> pool_inv cfg w' \<and>
            (case r of Err e \<Rightarrow> live_boxes w' = live_boxes w
             | Ok b \<Rightarrow> holds_box b w' \<and> \<not> holds_box b w \<and> live_boxes w' = Suc (live_boxes w)))
     else True)"
proof -
  note ids = box_ids_count [OF assms]
  have "pool_inv cfg \<lparr>iw_free = box_ids cfg, iw_permits = unat (ic_slots cfg), iw_boxes = [], iw_host = h'\<rparr>" for h'
    using ids by (simp add: pool_inv_def)
  then have new: "case isolate_new ho cfg h of Err e \<Rightarrow> True | Ok w \<Rightarrow> pool_inv cfg w \<and> live_boxes w = 0"
    by (auto simp: isolate_new_def live_boxes_def split: prod.splits sum.splits)
  have rest: "distinct (map fst (iw_boxes w)) \<and> live_boxes w \<le> unat (ic_slots cfg) \<and>
       (case isolate_acquire ho cfg w of
          Waits \<Rightarrow> live_boxes w = unat (ic_slots cfg)
        | Panics \<Rightarrow> False
        | Returns r w' \<Rightarrow> pool_inv cfg w' \<and>
            (case r of Err e \<Rightarrow> live_boxes w' = live_boxes w
             | Ok b \<Rightarrow> holds_box b w' \<and> \<not> holds_box b w \<and> live_boxes w' = Suc (live_boxes w)))"
    if inv: "pool_inv cfg w"
  proof -
    have d: "distinct (iw_free w @ map fst (iw_boxes w))" and p: "iw_permits w = length (iw_free w)"
      and s: "set (iw_free w @ map fst (iw_boxes w)) = set (box_ids cfg)"
      using inv by (simp_all add: pool_inv_def)
    have "length (iw_free w) + live_boxes w = unat (ic_slots cfg)"
      using distinct_card [OF d] distinct_card [OF ids(2)] s ids(1) by (simp add: live_boxes_def)
    moreover have "\<not> holds_box b w" if "isolate_acquire ho cfg w = Returns (Ok b) w'" for b w'
    proof -
      have "iw_permits w \<noteq> 0" using that acquire_Waits by (metis acquired.distinct(3))
      then obtain b' r w1 w2 where sp: "iw_free w = butlast (iw_free w) @ [b']"
        and "pool_inv cfg w1" "holds_box b' w1" "live_boxes w1 = Suc (live_boxes w)"
        "box_init ho cfg b' w1 = (r, w2)" "same_pool w1 w2"
        and a: "isolate_acquire ho cfg w =
          (case r of Err e \<Rightarrow> Returns (Err e) (drop_box b' w2) | Ok u \<Rightarrow> Returns (Ok b') w2)"
        by (rule acquire_cases [OF inv])
      have "b = b'" using a that by (cases r) auto
      moreover have "b' \<in> set (iw_free w)" by (subst sp) simp
      ultimately show ?thesis using d by (auto simp: holds_box_def)
    qed
    ultimately show ?thesis
      using d p acquire_Waits [of ho cfg w] acquire_never_panics [OF inv, of ho] acquire_returns [OF inv, of ho]
      by (auto split: acquired.splits sum.splits)
  qed
  with new show ?thesis by simp
qed

lemma sample_ids_fit: "unat (ic_first_box_id sample_isolate) + unat (ic_slots sample_isolate) < 2 ^ 32"
  by (simp add: sample_isolate_def default_isolate_config_def)

lemma sample_pool_inv: "pool_inv sample_isolate sample_pool"
  using box_ids_count [OF sample_ids_fit]
  by (simp add: pool_inv_def sample_pool_def sample_isolate_def default_isolate_config_def)

lemma sample_acquired:
  "case isolate_acquire sample_host sample_isolate sample_pool of
     Returns (Ok b) w' \<Rightarrow> True | _ \<Rightarrow> False"
  by code_simp

lemma sample_acquires: "\<exists>a. sb_acquire (isolate_ops sample_host sample_isolate) sample_pool = Some a"
  using sample_acquired by (simp add: isolate_ops_def split: acquired.splits)

theorem pool_is_exclusive_witness:
  "case isolate_acquire sample_host sample_isolate sample_pool of
     Returns (Ok b) w' \<Rightarrow> live_boxes w' = 1 \<and> holds_box b w' | _ \<Rightarrow> False"
proof -
  note small = sample_ids_fit
  note inv = sample_pool_inv
  have "live_boxes sample_pool = 0" by (simp add: live_boxes_def sample_pool_def)
  then show ?thesis
    using sample_acquired pool_is_exclusive [OF small, of sample_host 0 sample_pool] inv
    by (auto split: acquired.splits sum.splits)
qed

text \<open>C17: judging gives its box back on every path. Whatever the request, the programs and the
host do (unknown language, failing initialisation, refused file, timeout, broken meta file,
failing cleanup), when judging with the isolate backend ends, the pool is good again and as
many boxes are live as before.\<close>

theorem judging_returns_every_box:
  assumes "pool_inv cfg w" and "judge (isolate_ops ho cfg) langs jcfg req l w = Some (r, w', ps)"
  shows "pool_inv cfg w' \<and> live_boxes w' = live_boxes w"
  using assms by (rule isolate.judge_restores)

theorem judging_returns_every_box_witness:
  "\<exists>r w' ps. judge (isolate_ops sample_host sample_isolate) sample_registry default_judge_config
      (sample_request sample_tests) False sample_pool = Some (r, w', ps) \<and> live_boxes w' = 0"
proof -
  obtain a where "sb_acquire (isolate_ops sample_host sample_isolate) sample_pool = Some a"
    using sample_acquires by blast
  from judge_returns [OF this] obtain r w' ps where
    j: "judge (isolate_ops sample_host sample_isolate) sample_registry default_judge_config
      (sample_request sample_tests) False sample_pool = Some (r, w', ps)"
    by blast
  from judging_returns_every_box [OF sample_pool_inv j] j show ?thesis
    by (simp add: live_boxes_def sample_pool_def)
qed

section \<open>Writing only into pristine boxes\<close>

lemma set_box_executed:
  "holds_box b w \<Longrightarrow> ib_executed (box_of b (snd (set_box b (\<lambda>bx. bx\<lparr>ib_executed := True\<rparr>) w)))"
proof -
  have "b \<in> fst ` set xs \<Longrightarrow>
      \<exists>bx. map_of (map (\<lambda>(i, bx). (i, if i = b then bx\<lparr>ib_executed := True\<rparr> else bx)) xs) b = Some bx \<and>
        ib_executed bx" for xs :: "(u32 \<times> iso_box) list"
    by (induction xs) auto
  moreover assume "holds_box b w"
  ultimately show ?thesis by (force simp: holds_box_def box_of_def set_box_def)
qed

lemma exec_collect_boxes:
  "iw_boxes (snd (exec_collect ho cfg b spec outs errs x w)) = iw_boxes w"
  by (auto simp: exec_collect_def and_then_def no_io_def Let_def split: prod.splits sum.splits)

lemma exec_command_boxes: "iw_boxes (snd (exec_command ho cfg b spec i w)) = iw_boxes w"
  by (auto simp: exec_command_def Let_def exec_collect_boxes split: prod.splits spawn_result.splits)

text \<open>The host never writes into a box after code ran in it. Once \<open>exec\<close> got as far as
starting a command in a box, whatever its outcome, every later \<open>write_file\<close> there is refused
and leaves the host untouched; and a write that is not refused goes to a plain component of the
box directory, opened with create-new.\<close>

lemma no_write_after_exec:
  assumes "holds_box b w" and "es_argv spec \<noteq> []"
  shows "let w' = snd (isolate_exec ho cfg b spec i w)
    in snd (isolate_write_file ho b name c w') = w' \<and>
       (\<exists>e. fst (isolate_write_file ho b name c w') = Err e)"
proof -
  let ?w1 = "snd (set_box b (\<lambda>bx. bx\<lparr>ib_executed := True\<rparr>) w)"
  have "snd (isolate_exec ho cfg b spec i w) = snd (exec_command ho cfg b spec i ?w1)"
    using assms(2) by (simp add: isolate_exec_def and_then_def set_box_def)
  then have "ib_executed (box_of b (snd (isolate_exec ho cfg b spec i w)))"
    using set_box_executed [OF assms(1)] exec_command_boxes [of ho cfg b spec i ?w1]
    by (simp add: box_of_def)
  then show ?thesis
    by (auto simp: isolate_write_file_def Let_def split: sum.splits)
qed

definition sample_spec :: exec_spec where
  "sample_spec = run_spec default_judge_config sample_language (sample_request [])"

lemma no_write_after_exec_witness:
  "\<exists>e. fst (isolate_write_file sample_host 0 ''main.py'' ''x''
      (snd (isolate_exec sample_host sample_isolate 0 sample_spec ''1''
        (sample_pool\<lparr>iw_boxes := [(0, \<lparr>ib_box_dir = ''/b'', ib_executed = False\<rparr>)]\<rparr>)))) = Err e"
proof -
  have "holds_box 0 (sample_pool\<lparr>iw_boxes := [(0, \<lparr>ib_box_dir = ''/b'', ib_executed = False\<rparr>)]\<rparr>)"
    by (simp add: holds_box_def)
  moreover have "es_argv sample_spec \<noteq> []"
    by (simp add: sample_spec_def run_spec_def sample_language_def sample_step_def Let_def)
  ultimately show ?thesis
    using no_write_after_exec [of 0 _ sample_spec sample_host sample_isolate "''1''" "''main.py''" "''x''"]
    by (simp add: Let_def)
qed

section \<open>Capped reading\<close>

fun until_eof :: "read_event list \<Rightarrow> string + bytes" where
  "until_eof [] = Ok []"
| "until_eof (Read_Error e # rest) = Err e"
| "until_eof (Chunk buf # rest) =
     (if buf = [] then Ok [] else (case until_eof rest of Err e \<Rightarrow> Err e | Ok d \<Rightarrow> Ok (buf @ d)))"

lemma read_loop_spec:
  "length kept \<le> cap \<Longrightarrow> read_loop cap kept trunc r =
     (case until_eof r of Err e \<Rightarrow> Err e
      | Ok d \<Rightarrow> Ok (kept @ take (cap - length kept) d, trunc \<or> cap - length kept < length d))"
proof (induction r arbitrary: kept trunc)
  case (Cons x r)
  show ?case
  proof (cases x)
    case (Chunk buf)
    let ?room = "cap - length kept"
    show ?thesis
    proof (cases "buf = []")
      case False
      have "length (kept @ take (min (length buf) ?room) buf) \<le> cap"
        using Cons.prems by auto
      from Cons.IH [OF this, of "trunc \<or> ?room < length buf"] Chunk False show ?thesis
        by (cases "until_eof r") (auto simp: Let_def min_def)
    qed (use Chunk Cons.prems in simp)
  qed simp
qed simp

text \<open>Output is capped, however it arrives. Whatever the chunks in which a program's output is
read, what is kept is exactly the first \<open>cap\<close> bytes of all of it, the stream is read to its
end, and the truncation flag says exactly whether there was more; a read error is passed on.\<close>

lemma read_capped_keeps_prefix:
  "read_capped r cap = (case until_eof r of Err e \<Rightarrow> Err e | Ok d \<Rightarrow> Ok (take cap d, cap < length d))"
  by (simp add: read_capped_def read_loop_spec split: sum.splits)

section \<open>A pool that was just set up\<close>

text \<open>The isolate backend is ready whenever none of its boxes is in use.\<close>

definition pool_ready :: "isolate_config \<Rightarrow> 'h iso_world \<Rightarrow> bool" where
  "pool_ready cfg s \<longleftrightarrow> pool_inv cfg s \<and> live_boxes s = 0"

lemma isolate_has_box:
  assumes "pool_ready cfg s" "box_ids cfg \<noteq> []"
  shows "sb_acquire (isolate_ops ho cfg) s \<noteq> None"
proof -
  from assms(1) have inv: "pool_inv cfg s" and idle: "iw_boxes s = []" by (auto simp: pool_ready_def live_boxes_def)
  with assms(2) have "iw_permits s \<noteq> 0" by (auto simp: pool_inv_def)
  with inv have "isolate_acquire ho cfg s \<noteq> Waits" "isolate_acquire ho cfg s \<noteq> Panics"
    by (simp_all add: acquire_Waits acquire_never_panics)
  then show ?thesis by (auto simp: isolate_ops_def split: acquired.splits)
qed

lemma isolate_stays_ready:
  assumes "pool_ready cfg s" "judge (isolate_ops ho cfg) langs jcfg req l s = Some (r, s', ps)"
  shows "pool_ready cfg s'"
  using assms isolate.judge_restores [of cfg s] by (auto simp: pool_ready_def)

lemma start_sandbox_ready:
  assumes "start_sandbox ho cfg h = Ok pool" "unat (ic_first_box_id cfg) + unat (ic_slots cfg) < 2 ^ 32"
  shows "pool_ready cfg pool" and "box_ids cfg \<noteq> []"
proof -
  obtain w where new: "isolate_new ho cfg h = Ok w"
    and check: "(case isolate_check ho cfg (iw_host w) of
        (Err e, h') \<Rightarrow> Err e | (Ok version, h') \<Rightarrow> Ok (w\<lparr>iw_host := h'\<rparr>)) = Ok pool"
    using assms(1) unfolding start_sandbox_def try_then_Ok_iff by blast
  obtain r h' where "isolate_check ho cfg (iw_host w) = (r, h')" by fastforce
  with check have "pool = w\<lparr>iw_host := h'\<rparr>" by (cases r) simp_all
  with new have "isolate_new ho cfg h = Ok w" "pool = w\<lparr>iw_host := h'\<rparr>" by simp_all
  moreover from this have "ic_slots cfg \<noteq> 0" by (auto simp: isolate_new_def split: if_splits)
  ultimately show "pool_ready cfg pool" "box_ids cfg \<noteq> []"
    using box_ids_count [OF assms(2)]
    by (auto simp: pool_ready_def isolate_new_def pool_inv_def live_boxes_def unat_eq_zero
        split: if_splits prod.splits sum.splits)
qed

section \<open>A host whose programs print 3\<close>

text \<open>A host on which every program prints 3.\<close>

definition three_host :: "nat host_ops" where
  "three_host = sample_host\<lparr>ho_spawn := (\<lambda>p args i g h. (Finished [Chunk ''3''] [] (Ok (Some 0)), h + 1)),
     ho_read_to_string := (\<lambda>p h. (Ok ''a:b'', h))\<rparr>"

lemma three_host_simps:
  "ho_spawn three_host p args i g h = (Finished [Chunk ''3''] [] (Ok (Some 0)), h + 1)"
  "ho_read_to_string three_host p h = (Ok ''a:b'', h)"
  "ic_use_cgroups sample_isolate"
  by (simp_all add: three_host_def sample_host_def sample_isolate_def default_isolate_config_def)

lemma three_meta: "parse_meta ''a:b'' = [(''a'', ''b'')]"
  by (simp add: parse_meta_def str_lines_def List.map_filter_def trim_visible visible_def byte_def)

lemma three_printed:
  assumes "es_argv spec \<noteq> []" "1 \<le> el_stdout_bytes (es_limits spec)"
  shows "\<exists>out w'. isolate_exec three_host sample_isolate b spec i w = (Ok out, w') \<and> oc_status out = ExOk \<and> oc_stdout out = ''3''"
  using assms
  by (simp add: isolate_exec_def and_then_def set_box_def exec_command_def exec_collect_def no_io_def read_capped_def
      exec_outcome_of_def interpret_meta_def out_of_memory_def meta_memory_kb_def meta_kb_def three_meta
      three_host_simps Let_def)

definition python :: language where
  "python = sample_language\<lparr>lg_source_file := ''main.py'', lg_compile := None, lg_id := ''python''\<rparr>"

lemma three_acquires:
  obtains b w where "isolate_acquire three_host sample_isolate sample_pool = Returns (Ok b) w" "\<not> ib_executed (box_of b w)"
proof -
  have "case isolate_acquire three_host sample_isolate sample_pool of
     Returns (Ok b) w' \<Rightarrow> \<not> ib_executed (box_of b w') | _ \<Rightarrow> False" by code_simp
  with that show thesis by (auto split: acquired.splits sum.splits)
qed

lemma three_judged:
  assumes req: "rq_tests req = [\<lparr>tc_name = n, tc_input = i, tc_expected = Some ''3''\<rparr>]" "rq_comparer req = Tokens"
    "rq_language req = ''python''"
  shows "\<exists>res s' ps. judge (isolate_ops three_host sample_isolate) [(''python'', python)] default_judge_config req l
    sample_pool = Some (Ok res, s', ps) \<and> jr_verdict res = Accepted"
proof -
  let ?spec = "run_spec default_judge_config python req"
  obtain b w where acq: "isolate_acquire three_host sample_isolate sample_pool = Returns (Ok b) w"
    and fresh: "\<not> ib_executed (box_of b w)" by (rule three_acquires)
  have wrote: "isolate_write_file three_host b ''main.py'' c w = (Ok (), w)" for c
    using fresh by (simp add: isolate_write_file_def main_py_valid on_host_def and_then_def three_host_def sample_host_def Let_def)
  have "es_argv ?spec \<noteq> []" "1 \<le> el_stdout_bytes (es_limits ?spec)"
    by (simp_all add: run_spec_def python_def sample_language_def sample_step_def default_judge_config_def Let_def)
  from three_printed [OF this] obtain out w2 where
    ex: "isolate_exec three_host sample_isolate b ?spec i w = (Ok out, w2)" "oc_status out = ExOk" "oc_stdout out = ''3''"
    by blast
  have "compare Tokens ''3'' ''3'' = Ok ()" by code_simp
  with ex have acc: "fst (classify out \<lparr>tc_name = n, tc_input = i, tc_expected = Some ''3''\<rparr> Tokens) = Accepted"
    by (simp add: classify_def)
  have src: "lg_source_file python = ''main.py''" "lg_compile python = None" by (simp_all add: python_def)
  show ?thesis
    using acq wrote ex(1) acc
    by (simp add: judge_def get_language_def req isolate_ops_def judge_in_box_def src in_box_def and_then_def
        compile_phase_def io_ok_def notify_def test_entry_def final_verdict_def Let_def split_beta)
qed

end
