(* ===== verification/Judge_Isolate_Wire.thy ===== *)
theory Judge_Isolate_Wire
  imports Judge_Isolate
begin

text \<open>
  What \<open>crates/judge/src/isolate.rs\<close> says to the \<open>isolate\<close> binary and reads back from it: the
  command line, the times and sizes on it, and the meta file with the exit code.
\<close>

section \<open>The command line\<close>

text \<open>
  How \<open>isolate\<close> reads its command line: options up to the first \<open>--\<close>, the rest is the command. An
  option with a value is \<open>--name=value\<close>, split at the first \<open>=\<close>; an option without \<open>=\<close> is a flag.
\<close>

definition given_options :: "string list \<Rightarrow> string list" where
  "given_options args = takeWhile (\<lambda>a. a \<noteq> ''--'') args"

definition given_command :: "string list \<Rightarrow> string list" where
  "given_command args = tl (dropWhile (\<lambda>a. a \<noteq> ''--'') args)"

definition option_pairs :: "string list \<Rightarrow> (string \<times> string) list" where
  "option_pairs args = List.map_filter (split_once (CHR ''='')) (given_options args)"

definition option_values :: "string \<Rightarrow> string list \<Rightarrow> string list" where
  "option_values n args = map snd (filter (\<lambda>(k, v). k = n) (option_pairs args))"

definition option_flags :: "string list \<Rightarrow> string list" where
  "option_flags args = filter (\<lambda>a. split_once (CHR ''='') a = None) (given_options args)"

definition sandbox_options :: "string list" where
  "sandbox_options = [''--meta'', ''--time'', ''--extra-time'', ''--wall-time'', ''--processes'', ''--fsize'',
     ''--cg-mem'', ''--mem'', ''--syscalls'', ''--dir'', ''--env'']"

definition option_list :: "isolate_config \<Rightarrow> string \<Rightarrow> exec_spec \<Rightarrow> string list" where
  "option_list cfg mp spec =
     [''--silent'', ''--meta='' @ mp, ''--time='' @ secs (el_cpu_time (es_limits spec)),
      ''--extra-time='' @ secs (el_extra_time (es_limits spec)),
      ''--wall-time='' @ secs (el_wall_time (es_limits spec)),
      ''--processes='' @ show_nat (unat (max (el_processes (es_limits spec)) 1)),
      ''--fsize='' @ show_nat (unat (el_file_size_kb (es_limits spec)))] @
     mem_args cfg (es_limits spec) @
     (case es_syscall_flags spec of None \<Rightarrow> [] | Some f \<Rightarrow> [''--syscalls='' @ show_nat (unat f)]) @
     (if es_stderr_to_stdout spec then [''--stderr-to-stdout''] else []) @
     map (\<lambda>dir. ''--dir='' @ dir) (ic_extra_dirs cfg @ es_dirs spec) @
     map (\<lambda>(k, v). ''--env='' @ k @ ''='' @ v) (es_env spec) @ [''--run'']"

lemma build_run_args_split: "build_run_args cfg mp spec = option_list cfg mp spec @ ''--'' # es_argv spec"
  by (simp add: build_run_args_def option_list_def Let_def)

lemma option_list_options: "a \<in> set (option_list cfg mp spec) \<Longrightarrow> a \<noteq> ''--'' \<and> take 2 a = ''--''"
  by (auto simp: option_list_def mem_args_def split: option.splits if_splits)

lemma given_options_run: "given_options (build_run_args cfg mp spec) = option_list cfg mp spec"
  using option_list_options [of _ cfg mp spec]
  by (simp add: given_options_def build_run_args_split takeWhile_append2)

lemma given_command_run: "given_command (build_run_args cfg mp spec) = es_argv spec"
  using option_list_options [of _ cfg mp spec]
  by (simp add: given_command_def build_run_args_split dropWhile_append2)

lemma map_filter_append: "List.map_filter f (xs @ ys) = List.map_filter f xs @ List.map_filter f ys"
  by (simp add: List.map_filter_def)

lemma map_filter_Some: "(\<And>x. f (g x) = Some (h x)) \<Longrightarrow> List.map_filter f (map g xs) = map h xs"
  by (induction xs) (simp_all add: map_filter_simps)

lemma option_pairs_run:
  "option_pairs (build_run_args cfg mp spec) =
     [(''--meta'', mp), (''--time'', secs (el_cpu_time (es_limits spec))),
      (''--extra-time'', secs (el_extra_time (es_limits spec))),
      (''--wall-time'', secs (el_wall_time (es_limits spec))),
      (''--processes'', show_nat (unat (max (el_processes (es_limits spec)) 1))),
      (''--fsize'', show_nat (unat (el_file_size_kb (es_limits spec))))] @
     (if ic_use_cgroups cfg then [(''--cg-mem'', show_nat (unat (el_memory_kb (es_limits spec))))]
      else if el_address_space_limit (es_limits spec)
      then [(''--mem'', show_nat (unat (el_memory_kb (es_limits spec))))] else []) @
     (case es_syscall_flags spec of None \<Rightarrow> [] | Some f \<Rightarrow> [(''--syscalls'', show_nat (unat f))]) @
     map (\<lambda>dir. (''--dir'', dir)) (ic_extra_dirs cfg @ es_dirs spec) @
     map (\<lambda>(k, v). (''--env'', k @ ''='' @ v)) (es_env spec)"
proof -
  have dirs: "List.map_filter (split_once (CHR ''='')) (map (\<lambda>dir. ''--dir='' @ dir) ds) = map (\<lambda>dir. (''--dir'', dir)) ds" for ds
    by (rule map_filter_Some) simp
  have envs: "List.map_filter (split_once (CHR ''='')) (map (\<lambda>(k, v). ''--env='' @ k @ ''='' @ v) es) =
      map (\<lambda>(k, v). (''--env'', k @ ''='' @ v)) es" for es :: "(string \<times> string) list"
    by (rule map_filter_Some) (simp split: prod.split)
  show ?thesis
    unfolding option_pairs_def given_options_run option_list_def map_filter_append dirs envs mem_args_def
    by (simp add: map_filter_simps map_filter_append split: option.split)
qed

lemma option_flags_run:
  "option_flags (build_run_args cfg mp spec) =
     ''--silent'' # (if es_stderr_to_stdout spec then [''--stderr-to-stdout''] else []) @ [''--run'']"
  unfolding option_flags_def given_options_run option_list_def mem_args_def
  by (auto simp: filter_empty_conv split: option.split)

lemma filter_key_map: "filter (\<lambda>(k, v). k = n) (map (\<lambda>x. (m, f x)) xs) = (if m = n then map (\<lambda>x. (m, f x)) xs else [])"
  by (induction xs) auto

lemmas option_values_run = option_values_def option_pairs_run filter_key_map split_beta

text \<open>C36: a submitted program cannot pass options to the sandbox. Read the way \<open>isolate\<close> reads it, the
command line is the command of the specification after the first \<open>--\<close>, and before it the options:
the meta file; CPU, extra and wall-clock time; process limit (at least one) and file size limit; the
memory limit as \<open>--cg-mem\<close> with control groups, as \<open>--mem\<close> without them, and not at all only when
the language opted out of address space limits; the system call filter if there is one; the
directories of the configuration and then those of the specification; each variable of its
environment. The flags are \<open>--silent\<close>, \<open>--stderr-to-stdout\<close> if asked for, and at last \<open>--run\<close>.
No option is given that is not in this list.\<close>

theorem command_cannot_inject_options:
  "(let args = build_run_args cfg mp spec; l = es_limits spec in
    given_command args = es_argv spec \<and>
    option_flags args = ''--silent'' # (if es_stderr_to_stdout spec then [''--stderr-to-stdout''] else []) @ [''--run''] \<and>
    last (given_options args) = ''--run'' \<and>
    option_values ''--meta'' args = [mp] \<and>
    option_values ''--time'' args = [secs (el_cpu_time l)] \<and>
    option_values ''--extra-time'' args = [secs (el_extra_time l)] \<and>
    option_values ''--wall-time'' args = [secs (el_wall_time l)] \<and>
    option_values ''--processes'' args = [show_nat (unat (max (el_processes l) 1))] \<and>
    option_values ''--fsize'' args = [show_nat (unat (el_file_size_kb l))] \<and>
    option_values ''--cg-mem'' args = (if ic_use_cgroups cfg then [show_nat (unat (el_memory_kb l))] else []) \<and>
    option_values ''--mem'' args =
      (if \<not> ic_use_cgroups cfg \<and> el_address_space_limit l then [show_nat (unat (el_memory_kb l))] else []) \<and>
    option_values ''--syscalls'' args = (case es_syscall_flags spec of None \<Rightarrow> [] | Some f \<Rightarrow> [show_nat (unat f)]) \<and>
    option_values ''--dir'' args = ic_extra_dirs cfg @ es_dirs spec \<and>
    option_values ''--env'' args = map (\<lambda>(k, v). k @ ''='' @ v) (es_env spec) \<and>
    set (map fst (option_pairs args)) \<subseteq> set sandbox_options)"
proof -
  let ?args = "build_run_args cfg mp spec"
  have "last (given_options ?args) = ''--run''" by (simp add: given_options_run option_list_def)
  moreover have "set (map fst (option_pairs ?args)) \<subseteq> set sandbox_options"
    by (auto simp: option_pairs_run sandbox_options_def split: option.split)
  ultimately show ?thesis
    unfolding Let_def
    by (simp add: given_command_run option_flags_run option_values_run o_def split: option.split)
qed

section \<open>Times\<close>

lemma take_digits_app:
  "\<forall>c \<in> set ds. is_ascii_digit c \<Longrightarrow> r = [] \<or> \<not> is_ascii_digit (hd r) \<Longrightarrow> take_digits (ds @ r) = (ds, r)"
proof (induction ds)
  case Nil
  then show ?case by (cases r) auto
qed auto

lemma digits_int_val: "digits_val n ds = Some v \<Longrightarrow> foldl (\<lambda>acc c. acc * 10 + int (digit_val c)) (int n) ds = int v"
proof (induction ds arbitrary: n)
  case (Cons d ds)
  then have "digits_val (n * 10 + digit_val d) ds = Some v" by (auto split: if_splits)
  from Cons.IH [OF this] show ?case by simp
qed simp

lemma pad3_digits: "c \<in> set (pad3 n) \<Longrightarrow> is_ascii_digit c"
  by (auto simp: pad3_def)

lemma pad3_value: "n < 1000 \<Longrightarrow> digits_val acc (pad3 n) = Some (acc * 1000 + n)"
proof -
  assume n: "n < 1000"
  have "n div 100 mod 10 = n div 100" using n by simp
  moreover have "n div 10 = n div 100 * 10 + n div 10 mod 10"
    using div_mult_mod_eq [of "n div 10" 10] by (simp add: div_mult2_eq [symmetric])
  then have "(n div 100 * 10 + n div 10 mod 10) * 10 + n mod 10 = n"
    using div_mult_mod_eq [of n 10] by metis
  moreover have "((acc * 10 + a) * 10 + b) * 10 + c = acc * 1000 + ((a * 10 + b) * 10 + c)" for a b c :: nat
    by simp
  ultimately have "((acc * 10 + n div 100) * 10 + n div 10 mod 10) * 10 + n mod 10 = acc * 1000 + n"
    "n div 100 mod 10 = n div 100"
    by metis+
  then show ?thesis by (simp add: pad3_def)
qed

lemma parse_decimal_millis: "parse_decimal (millis_text m) = Some (of_nat m / 1000)"
proof -
  let ?ip = "show_nat (m div 1000)" and ?fp = "pad3 (m mod 1000)"
  have dot: "\<not> is_ascii_digit (CHR ''.'')" by (simp add: is_ascii_digit_def in_range_def byte_def)
  have 1: "take_digits (?ip @ CHR ''.'' # ?fp) = (?ip, CHR ''.'' # ?fp)"
    by (rule take_digits_app) (auto simp: dot show_nat_digits)
  have 2: "take_digits ?fp = (?fp, [])"
    using take_digits_app [of ?fp "[]"] pad3_digits by auto
  have "digits_val 0 (?ip @ ?fp) = Some (m div 1000 * 1000 + m mod 1000)"
    by (simp add: digits_val_append digits_val_show_nat pad3_value)
  then have "digits_int (?ip @ ?fp) = int m"
    using digits_int_val [of 0 "?ip @ ?fp"] by (simp add: digits_int_def)
  moreover have "length ?fp = 3" by (simp add: pad3_def)
  moreover have "(10 :: rat) powi (- 3) = 1 / 1000"
    by (simp add: power_int_minus)
  ultimately show ?thesis
    by (simp add: parse_decimal_def millis_text_def 1 2 after_char_def parse_exponent_def)
qed

lemma parse_f64_millis: "parse_f64 (millis_text m) = Some (f64_of_rat (of_nat m / 1000))"
proof -
  obtain d ds where d: "show_nat (m div 1000) = d # ds" by (cases "show_nat (m div 1000)") auto
  then have "is_ascii_digit d" using show_nat_digits [of d "m div 1000"] by simp
  then have "d \<noteq> CHR ''-''" "d \<noteq> CHR ''+''" "\<not> is_ascii_uppercase d" "d \<noteq> CHR ''n''" "d \<noteq> CHR ''i''"
    by (auto simp: is_ascii_digit_def is_ascii_uppercase_def in_range_def byte_def)
  moreover obtain r where "millis_text m = d # r" using d by (simp add: millis_text_def)
  ultimately show ?thesis
    using parse_decimal_millis [of m] by (simp add: parse_f64_def after_char_def)
qed

text \<open>Seconds with three decimals are read back as the milliseconds they stand for.\<close>

lemma millis_roundtrip:
  assumes m: "m < 2 ^ 50"
  shows "f64_as_u64 (f64_max0 (f64_round (f64_mul (f64_of_rat (of_nat m / 1000)) (Fin 1000)))) = of_nat m"
proof -
  define q where "q = (of_nat m / 1000 :: rat)"
  define v where "v = round_mag q"
  define z where "z = round_mag (v * 1000)"
  have q0: "0 \<le> q" by (simp add: q_def)
  have m1: "(of_nat m :: rat) \<le> of_nat (2 ^ 50)" using m by (intro of_nat_mono) simp
  have q1: "q \<le> of_nat (2 ^ 50)" using m1 by (simp add: q_def)
  have v0: "0 \<le> v" unfolding v_def by (rule round_mag_nonneg [OF q0])
  have v1: "v \<le> of_nat (2 ^ 50)" unfolding v_def by (rule round_mag_le_nat [OF q0 _ q1]) simp
  have "q = 0 \<or> 1 / 2 ^ 20 \<le> q" by (cases m) (simp_all add: q_def field_simps)
  then have ve: "\<bar>v - q\<bar> \<le> q / 2 ^ 53" unfolding v_def by (rule round_mag_near)
  have q2: "q / 2 ^ 53 \<le> 1 / 8000" using m1 by (simp add: q_def)
  have fv: "f64_of_rat q = Fin v"
    unfolding v_def by (rule f64_of_rat_nonneg [OF q0], fold v_def, rule le_less_trans [OF v1]) simp
  have y0: "0 \<le> v * 1000" using v0 by simp
  have y1: "v * 1000 \<le> of_nat (2 ^ 50) + 1"
    using ve q2 m1 unfolding q_def by linarith
  have y: "v * 1000 = 0 \<or> 1 / 2 ^ 20 \<le> v * 1000"
  proof (cases m)
    case (Suc k)
    then have "1 \<le> (of_nat m :: rat)" by simp
    then have "1 / 2 \<le> v * 1000" using ve q2 unfolding q_def by linarith
    then show ?thesis by simp
  qed (simp add: v_def q_def)
  then have ze: "\<bar>z - v * 1000\<bar> \<le> v * 1000 / 2 ^ 53" unfolding z_def by (rule round_mag_near)
  have z0: "0 \<le> z" unfolding z_def by (rule round_mag_nonneg [OF y0])
  have "v * 1000 / 2 ^ 53 \<le> 1 / 4" using y1 by simp
  with ze have a: "\<bar>z - v * 1000\<bar> \<le> 1 / 4" by (rule order_trans)
  have "\<bar>v - q\<bar> \<le> 1 / 8000" using ve q2 by (rule order_trans)
  then have "\<bar>v * 1000 - of_nat m\<bar> \<le> 1 / 8" unfolding q_def abs_le_iff by linarith
  with a have near: "\<bar>z - of_nat m\<bar> < 1 / 2" unfolding abs_le_iff abs_less_iff by linarith
  have "(of_nat m :: rat) \<le> 1125899906842624" using m1 by simp
  then have "z < 1125899906842625" using near unfolding abs_less_iff by linarith
  then have z1: "z < 2 ^ 51" by simp
  have "z < 2 ^ 1024" using z1 by (rule less_trans) simp
  then have "f64_mul (f64_of_rat q) (Fin 1000) = Fin z"
    unfolding fv by (simp add: z_def f64_of_rat_nonneg [OF y0])
  moreover have "of_nat m \<le> z + 1 / 2 \<and> z + 1 / 2 < of_nat m + 1"
    using near unfolding abs_less_iff by linarith
  then have "\<lfloor>z + 1 / 2\<rfloor> = int m" by (intro floor_unique) simp_all
  then have "f64_round (Fin z) = Fin (of_nat m)" using z0 by simp
  moreover have "(of_nat m :: rat) < 2 ^ 64" using m1 by (rule le_less_trans) simp
  then have "f64_as_u64 (Fin (of_nat m)) = of_nat m" by simp
  ultimately show ?thesis by (simp add: q_def)
qed

text \<open>C18: times cross the boundary to \<open>isolate\<close> exactly. For any number of milliseconds below
\<open>2 ^ 50\<close>, the limit is printed as seconds with three decimals without rounding error, and a time
that the meta file gives in that form is read back as the same number of milliseconds, in spite
of the conversions to and from floating point.\<close>

theorem times_roundtrip:
  assumes "unat ms < 2 ^ 50"
  shows "secs (from_millis ms) = millis_text (unat ms) \<and>
    meta_ms [(key, secs (from_millis ms))] key = ms"
proof -
  have "secs (from_millis ms) = millis_text (unat ms)"
    using secs_millis [OF assms] by (simp add: secs_def from_millis_def)
  with millis_roundtrip [OF assms] show ?thesis
    by (simp add: meta_ms_def parse_f64_millis)
qed

theorem times_roundtrip_witness:
  "secs (from_millis 1500) = ''1.500'' \<and> meta_ms [(''time'', ''1.500'')] ''time'' = 1500"
proof -
  have "unat (1500 :: u64) < 2 ^ 50" by simp
  note r = times_roundtrip [OF this, of "''time''"]
  have "millis_text (unat (1500 :: u64)) = ''1.500''" by code_simp
  with conjunct1 [OF r] have s: "secs (from_millis 1500) = ''1.500''" by (rule trans)
  from r show ?thesis unfolding s by blast
qed

section \<open>Exit code and meta file\<close>

text \<open>C37: statuses blame the right party. A run gets a status only when \<open>isolate\<close> exited with 0 or
1, wrote a meta file and did not report a failure of its own; anything else is an error of the
sandbox. The status then says what the meta file says: Ok only with no failure recorded, memory
within the limit and untruncated output; time limits only for \<open>TO\<close>, that of the wall clock exactly
when the message of the meta file speaks of it; memory before any other
failure, signals and exit codes only for \<open>SG\<close> and \<open>RE\<close> within memory.\<close>

theorem status_blames_right_party:
  "case interpret_meta dbg meta exit_code limits cg truncated of
     Err msg \<Rightarrow> exit_code \<notin> {Some 0, Some 1} \<or> meta = [] \<or>
       (map_of meta ''status'' \<notin> {None, Some ''TO'', Some ''SG'', Some ''RE''} \<and>
        (map_of meta ''status'' = Some ''XX'' \<or> \<not> out_of_memory meta limits cg))
   | Ok (st, cpu, wall, mem) \<Rightarrow> exit_code \<in> {Some 0, Some 1} \<and> meta \<noteq> [] \<and>
       map_of meta ''status'' \<noteq> Some ''XX'' \<and>
       (cpu, wall, mem) = (meta_ms meta ''time'', meta_ms meta ''time-wall'', meta_memory_kb meta) \<and>
       (let status = map_of meta ''status''; oom = out_of_memory meta limits cg
        in (st = ExOk \<longleftrightarrow> status = None \<and> \<not> oom \<and> \<not> truncated) \<and>
           (st = OutputLimit \<longleftrightarrow> status = None \<and> \<not> oom \<and> truncated) \<and>
           (st = TimeLimit \<or> st = WallTimeLimit \<longleftrightarrow> status = Some ''TO'') \<and>
           (st = WallTimeLimit \<longleftrightarrow> status = Some ''TO'' \<and>
              (case map_of meta ''message'' of None \<Rightarrow> False | Some m \<Rightarrow> str_contains m ''wall'')) \<and>
           (st = MemoryLimit \<longleftrightarrow> oom \<and> status \<noteq> Some ''TO'') \<and>
           ((\<exists>s. st = Signaled s) \<longleftrightarrow> status = Some ''SG'' \<and> \<not> oom) \<and>
           ((\<exists>c. st = NonZeroExit c) \<longleftrightarrow> status = Some ''RE'' \<and> \<not> oom)) \<and>
       (st = ExOk \<or> st = OutputLimit \<or> (\<exists>s. st = Signaled s) \<or> (\<exists>c. st = NonZeroExit c) \<longrightarrow>
        mem \<le> el_memory_kb limits)"
proof -
  have mem: "\<not> out_of_memory meta limits cg \<Longrightarrow> meta_memory_kb meta \<le> el_memory_kb limits"
    by (auto simp: out_of_memory_def not_less)
  show ?thesis
    by (cases "map_of meta ''status''") (auto simp: interpret_meta_def Let_def dest!: mem)
qed

definition sample_limits :: exec_limits where
  "sample_limits = \<lparr>el_cpu_time = from_millis 1000, el_extra_time = from_millis 500,
     el_wall_time = from_millis 3000, el_memory_kb = 65536, el_processes = 1,
     el_file_size_kb = 1024, el_stdout_bytes = 100, el_stderr_bytes = 100,
     el_address_space_limit = True\<rparr>"

definition sample_meta :: "(string \<times> string) list" where
  "sample_meta = [(''status'', ''SG''), (''exitsig'', ''11''), (''max-rss'', ''2048'')]"

theorem status_blames_right_party_witness:
  "case interpret_meta id sample_meta (Some 1) sample_limits True False of
     Err msg \<Rightarrow> False
   | Ok (st, cpu, wall, mem) \<Rightarrow> st = Signaled 11 \<and> mem \<le> 65536"
proof -
  have "case interpret_meta id sample_meta (Some 1) sample_limits True False of
     Err msg \<Rightarrow> False | Ok (st, cpu, wall, mem) \<Rightarrow> st = Signaled 11"
  proof -
    have "show_nat (unat (2048 :: u64)) = ''2048''" by code_simp
    with parse_u64_show [of 2048] have "parse_u64 ''2048'' = Some 2048" by simp
    moreover have "digits_val 0 ''11'' = Some 11" by code_simp
    then have "parse_i32 ''11'' = Some 11"
      by (simp add: parse_i32_def after_char_def parse_unsigned_def del: digits_val.simps)
    ultimately show ?thesis
      by (simp add: interpret_meta_def sample_meta_def sample_limits_def out_of_memory_def
        meta_memory_kb_def meta_kb_def meta_i32_def sat_mul_def)
  qed
  moreover have "el_memory_kb sample_limits = 65536" by (simp add: sample_limits_def)
  ultimately show ?thesis
    using status_blames_right_party [where dbg = id and meta = sample_meta and exit_code = "Some 1" and
      limits = sample_limits and cg = True and truncated = False]
    by (cases "interpret_meta id sample_meta (Some 1) sample_limits True False") auto
qed

end
