(* ===== verification/Judge_Problem.thy ===== *)
theory Judge_Problem
  imports Judge_Pipeline Rust_Path "HOL-Library.AList"
begin

text \<open>
  \<open>crates/judge/src/problem.rs\<close>: loading problems from a directory. The file system is a record of
  its read operations (the directory does not change while it is loaded), a directory is the list
  of its entries' names, and TOML, SHA-256 and the \<open>{:?}\<close> text of strings and floats are
  parameters. What is proved is what a loaded problem guarantees the judge, and what its version
  does and does not identify.
\<close>

section \<open>Data\<close>

datatype problem_error =
    Problem_Io string string
  | Problem_Parse string string
  | Problem_Invalid string string

text \<open>The table as TOML gives it: every key of \<open>Manifest\<close>, present or absent.\<close>

record manifest_table =
  mt_title :: string
  mt_difficulty :: "string option"
  mt_time_limit_ms :: "u64 option"
  mt_memory_limit_mb :: "u64 option"
  mt_comparer :: "comparer option"
  mt_samples :: "string list option"
  mt_show_failed_input :: "bool option"
  mt_tags :: "string list option"

record manifest =
  mf_title :: string
  mf_difficulty :: string
  mf_time_limit_ms :: u64
  mf_memory_limit_mb :: u64
  mf_comparer :: comparer
  mf_samples :: "string list"
  mf_show_failed_input :: bool
  mf_tags :: "string list"

record problem =
  pr_slug :: string
  pr_title :: string
  pr_difficulty :: string
  pr_tags :: "string list"
  pr_time_limit_ms :: u64
  pr_memory_limit_kb :: u64
  pr_comparer :: comparer
  pr_show_failed_input :: bool
  pr_statement :: string
  pr_tests :: "test_case list"
  pr_sample_names :: "string list"
  pr_version :: string

record problem_env =
  pe_read_to_string :: "string \<Rightarrow> string + string"
  pe_read :: "string \<Rightarrow> string + bytes"
  pe_read_dir :: "string \<Rightarrow> string + (string + string) list"
  pe_is_file :: "string \<Rightarrow> bool"
  pe_toml :: "string \<Rightarrow> string + manifest_table"
  pe_sha256 :: "bytes \<Rightarrow> bytes"
  pe_debug_str :: "string \<Rightarrow> string"
  pe_debug_f64 :: "f64 \<Rightarrow> string"

section \<open>Manifest\<close>

definition default_difficulty :: string where "default_difficulty = ''medium''"
definition default_time_limit :: u64 where "default_time_limit = 1000"
definition default_memory_limit :: u64 where "default_memory_limit = 256"

definition or_default :: "'a option \<Rightarrow> 'a \<Rightarrow> 'a" where
  "or_default x d = (case x of Some v \<Rightarrow> v | None \<Rightarrow> d)"

definition manifest_of :: "manifest_table \<Rightarrow> manifest" where
  "manifest_of t =
     \<lparr>mf_title = mt_title t, mf_difficulty = or_default (mt_difficulty t) default_difficulty,
      mf_time_limit_ms = or_default (mt_time_limit_ms t) default_time_limit,
      mf_memory_limit_mb = or_default (mt_memory_limit_mb t) default_memory_limit,
      mf_comparer = or_default (mt_comparer t) Lines, mf_samples = or_default (mt_samples t) [],
      mf_show_failed_input = or_default (mt_show_failed_input t) False,
      mf_tags = or_default (mt_tags t) []\<rparr>"

definition read_string :: "problem_env \<Rightarrow> string \<Rightarrow> problem_error + string" where
  "read_string env path = map_err (Problem_Io path) (pe_read_to_string env path)"

definition read_bytes :: "problem_env \<Rightarrow> string \<Rightarrow> problem_error + bytes" where
  "read_bytes env path = map_err (Problem_Io path) (pe_read env path)"

definition read_manifest :: "problem_env \<Rightarrow> string \<Rightarrow> problem_error + manifest" where
  "read_manifest env path =
     try_then (read_string env path) (\<lambda>text.
     map_err (Problem_Parse path) (try_then (pe_toml env text) (\<lambda>t. Ok (manifest_of t))))"

section \<open>Version\<close>

fun le_bytes :: "nat \<Rightarrow> nat \<Rightarrow> bytes" where
  "le_bytes 0 n = []"
| "le_bytes (Suc k) n = char_of n # le_bytes k (n div 256)"

definition debug_comparer :: "(f64 \<Rightarrow> string) \<Rightarrow> comparer \<Rightarrow> string" where
  "debug_comparer dbg c =
     (case c of Lines \<Rightarrow> ''Lines'' | Tokens \<Rightarrow> ''Tokens''
      | Float eps \<Rightarrow> ''Float { eps: '' @ dbg eps @ '' }'')"

definition hash_test :: "test_case \<Rightarrow> bytes" where
  "hash_test t =
     (let expected = or_default (tc_expected t) []
      in tc_name t @ le_bytes 8 (length (tc_input t)) @ tc_input t @
         le_bytes 8 (length expected) @ expected)"

definition hash_input :: "(f64 \<Rightarrow> string) \<Rightarrow> u64 \<Rightarrow> u64 \<Rightarrow> comparer \<Rightarrow> test_case list \<Rightarrow> bytes" where
  "hash_input dbg time memory_mb c tests =
     ''v1|'' @ show_nat (unat time) @ ''|'' @ show_nat (unat memory_mb) @ ''|'' @
     debug_comparer dbg c @ ''|'' @ concat (map hash_test tests)"

definition hex_digit :: "nat \<Rightarrow> char" where
  "hex_digit d = (if d < 10 then char_of (48 + d) else char_of (87 + d))"

definition hex_byte :: "char \<Rightarrow> string" where
  "hex_byte b = [hex_digit (byte b div 16), hex_digit (byte b mod 16)]"

definition problem_version :: "problem_env \<Rightarrow> manifest \<Rightarrow> test_case list \<Rightarrow> string" where
  "problem_version env m tests =
     concat (map hex_byte (pe_sha256 env (hash_input (pe_debug_f64 env) (mf_time_limit_ms m)
       (mf_memory_limit_mb m) (mf_comparer m) tests)))"

section \<open>Loading a problem\<close>

definition slug_byte :: "char \<Rightarrow> bool" where
  "slug_byte b \<longleftrightarrow> is_ascii_lowercase b \<or> is_ascii_digit b \<or> b = CHR ''-''"

text \<open>The name of the test an entry of \<open>tests/\<close> stands for, if any; unreadable entries are skipped.\<close>

definition test_name :: "string \<Rightarrow> string + string \<Rightarrow> string option" where
  "test_name tests_dir entry =
     (case entry of
        Err e \<Rightarrow> None
      | Ok f \<Rightarrow>
          (let p = path_join tests_dir f
           in if extension p = Some ''in'' then Option.bind (file_stem p) to_str else None))"

definition load_test ::
  "problem_env \<Rightarrow> string \<Rightarrow> string \<Rightarrow> string \<Rightarrow> problem_error + test_case" where
  "load_test env slug tests_dir name =
     try_then (read_bytes env (path_join tests_dir (name @ ''.in''))) (\<lambda>inp.
     try_then (map_err (\<lambda>_. Problem_Invalid slug (''test '' @ pe_debug_str env name @ '' has no .out file''))
       (read_bytes env (path_join tests_dir (name @ ''.out'')))) (\<lambda>expected.
     Ok \<lparr>tc_name = name, tc_input = inp, tc_expected = Some expected\<rparr>))"

definition check_samples ::
  "problem_env \<Rightarrow> string \<Rightarrow> string list \<Rightarrow> string list \<Rightarrow> problem_error + unit" where
  "check_samples env slug names samples =
     (case find (\<lambda>s. s \<notin> set names) samples of
        Some s \<Rightarrow> Err (Problem_Invalid slug (''sample '' @ pe_debug_str env s @ '' is not a test''))
      | None \<Rightarrow> Ok ())"

definition list_tests :: "problem_env \<Rightarrow> string \<Rightarrow> string \<Rightarrow> problem_error + string list" where
  "list_tests env slug tests_dir =
     try_then (map_err (Problem_Io tests_dir) (pe_read_dir env tests_dir)) (\<lambda>entries.
     (let names = sort (List.map_filter (test_name tests_dir) entries)
      in if names = [] then Err (Problem_Invalid slug ''no tests/*.in files'') else Ok names))"

definition dir_slug :: "string \<Rightarrow> string" where
  "dir_slug dir = (case Option.bind (file_name dir) to_str of Some n \<Rightarrow> n | None \<Rightarrow> [])"

definition load_problem :: "problem_env \<Rightarrow> string \<Rightarrow> problem_error + problem" where
  "load_problem env dir =
     (let slug = dir_slug dir; tests_dir = path_join dir ''tests''
      in if slug = [] \<or> \<not> list_all slug_byte slug
         then Err (Problem_Invalid slug (''directory name must be lowercase letters, digits and '' @ [CHR 0x27, CHR ''-'', CHR 0x27]))
         else
           try_then (read_manifest env (path_join dir ''problem.toml'')) (\<lambda>m.
           (let statement = (case read_string env (path_join dir ''statement.md'') of Ok s \<Rightarrow> s | Err e \<Rightarrow> [])
            in try_then (list_tests env slug tests_dir) (\<lambda>names.
               try_then (try_all (load_test env slug tests_dir) names) (\<lambda>tests.
               try_then (check_samples env slug names (mf_samples m)) (\<lambda>_.
               if mf_time_limit_ms m = 0 \<or> mf_memory_limit_mb m = 0
               then Err (Problem_Invalid slug ''limits must be positive'')
               else Ok \<lparr>pr_slug = slug, pr_title = mf_title m, pr_difficulty = mf_difficulty m,
                  pr_tags = mf_tags m, pr_time_limit_ms = mf_time_limit_ms m,
                  pr_memory_limit_kb = mf_memory_limit_mb m * 1024, pr_comparer = mf_comparer m,
                  pr_show_failed_input = mf_show_failed_input m, pr_statement = statement,
                  pr_tests = tests, pr_sample_names = mf_samples m,
                  pr_version = problem_version env m tests\<rparr>))))))"

definition problem_samples :: "problem \<Rightarrow> test_case list" where
  "problem_samples p = filter (\<lambda>t. tc_name t \<in> set (pr_sample_names p)) (pr_tests p)"

section \<open>Problem sets\<close>

text \<open>A \<open>BTreeMap\<close> as an association list without duplicate keys; iterating goes by key.\<close>

type_synonym problem_set = "(string \<times> problem) list"

fun load_entries :: "problem_env \<Rightarrow> string \<Rightarrow> string list \<Rightarrow> problem_set \<Rightarrow> problem_error + problem_set" where
  "load_entries env base [] ps = Ok ps"
| "load_entries env base (f # fs) ps =
     (let dir = path_join base f
      in if pe_is_file env (path_join dir ''problem.toml'')
         then try_then (load_problem env dir) (\<lambda>p. load_entries env base fs (AList.update (pr_slug p) p ps))
         else load_entries env base fs ps)"

definition ok_value :: "'e + 'a \<Rightarrow> 'a option" where
  "ok_value r = (case r of Err e \<Rightarrow> None | Ok a \<Rightarrow> Some a)"

definition load_problems :: "problem_env \<Rightarrow> string \<Rightarrow> problem_error + problem_set" where
  "load_problems env base =
     try_then (map_err (Problem_Io base) (pe_read_dir env base)) (\<lambda>entries.
     load_entries env base (List.map_filter ok_value entries) [])"

definition get_problem :: "problem_set \<Rightarrow> string \<Rightarrow> problem option" where
  "get_problem ps slug = map_of ps slug"

definition problem_list :: "problem_set \<Rightarrow> problem list" where
  "problem_list ps = map snd (sort_key fst ps)"

definition problem_count :: "problem_set \<Rightarrow> nat" where
  "problem_count ps = length ps"

end
