(* ===== verification/Judge_Problem_Guarantees.thy ===== *)
theory Judge_Problem_Guarantees
  imports Judge_Problem
begin

text \<open>
  What loading promises (\<open>crates/judge/src/problem.rs\<close>): the tests of a loaded problem are the
  files of its directory, its version identifies limits, comparer and test data for given test
  names (and only then), and a problem set finds every problem under the name of its directory.
\<close>

section \<open>Fields that can be cut off\<close>

text \<open>
  An encoding whose end can be told from what follows: the hashed bytes are a sequence of such
  fields, so two sequences are equal only field by field.
\<close>

locale delimited =
  fixes enc :: "'a \<Rightarrow> bytes"
    and fits :: "'a \<Rightarrow> bool"
  assumes cut: "fits x \<Longrightarrow> fits y \<Longrightarrow> enc x @ r = enc y @ s \<Longrightarrow> x = y \<and> r = s"
begin

lemma cut_iff: "fits x \<Longrightarrow> fits y \<Longrightarrow> enc x @ r = enc y @ s \<longleftrightarrow> x = y \<and> r = s"
  using cut by blast

lemma enc_inject: "fits x \<Longrightarrow> fits y \<Longrightarrow> enc x = enc y \<longleftrightarrow> x = y"
  using cut [of x y "[]" "[]"] by auto

end

lemma length_le_bytes [simp]: "length (le_bytes k n) = k"
  by (induction k arbitrary: n) simp_all

lemma le_bytes_inject: "m < 256 ^ k \<Longrightarrow> n < 256 ^ k \<Longrightarrow> le_bytes k m = le_bytes k n \<longleftrightarrow> m = n"
proof (induction k arbitrary: m n)
  case (Suc k)
  have "m div 256 < 256 ^ k" "n div 256 < 256 ^ k"
    using Suc.prems by (simp_all add: less_mult_imp_div_less mult.commute)
  moreover have "char_of m = (char_of n :: char) \<longleftrightarrow> m mod 256 = n mod 256"
    by (rule char_of_eq_iff [THEN trans]) (auto simp: take_bit_eq_mod)
  ultimately have "le_bytes (Suc k) m = le_bytes (Suc k) n \<longleftrightarrow> m mod 256 = n mod 256 \<and> m div 256 = n div 256"
    using Suc.IH by simp
  then show ?case by (metis div_mult_mod_eq)
qed simp

interpretation sized: delimited "\<lambda>x. le_bytes 8 (length x) @ x" "\<lambda>x. length x < 256 ^ 8"
proof
  fix x y r s :: bytes
  assume "length x < 256 ^ 8" "length y < 256 ^ 8"
    and eq: "(le_bytes 8 (length x) @ x) @ r = (le_bytes 8 (length y) @ y) @ s"
  moreover from eq have "le_bytes 8 (length x) = le_bytes 8 (length y)" "x @ r = y @ s"
    by (auto simp: append_eq_append_conv)
  ultimately have "length x = length y" using le_bytes_inject by blast
  with \<open>x @ r = y @ s\<close> show "x = y \<and> r = s" by simp
qed

interpretation barred: delimited "\<lambda>k. k @ ''|''" "\<lambda>k. CHR ''|'' \<notin> set k"
proof
  fix x y r s :: bytes
  assume x: "CHR ''|'' \<notin> set x" and y: "CHR ''|'' \<notin> set y" and "(x @ ''|'') @ r = (y @ ''|'') @ s"
  then have "x @ CHR ''|'' # r = y @ CHR ''|'' # s" by simp
  then have "split_once (CHR ''|'') (x @ CHR ''|'' # r) = split_once (CHR ''|'') (y @ CHR ''|'' # s)"
    by (rule arg_cong)
  then show "x = y \<and> r = s" unfolding split_once_app [OF x] split_once_app [OF y] by simp
qed

section \<open>The version\<close>

definition float_eps :: "comparer \<Rightarrow> f64 set" where
  "float_eps c = (case c of Float e \<Rightarrow> {e} | _ \<Rightarrow> {})"

text \<open>What Rust documents of the \<open>{:?}\<close> text of floats: it reads back, so it is injective.\<close>

definition debug_ok :: "(f64 \<Rightarrow> string) \<Rightarrow> f64 set \<Rightarrow> bool" where
  "debug_ok dbg A \<longleftrightarrow> inj_on dbg A \<and> (\<forall>x \<in> A. CHR ''|'' \<notin> set (dbg x))"

lemma debug_comparer_inject:
  "debug_ok dbg (float_eps c \<union> float_eps d) \<Longrightarrow> debug_comparer dbg c = debug_comparer dbg d \<longleftrightarrow> c = d"
  by (cases c; cases d) (auto simp: debug_comparer_def float_eps_def debug_ok_def inj_on_def)

lemma debug_comparer_bar: "debug_ok dbg A \<Longrightarrow> float_eps c \<subseteq> A \<Longrightarrow> CHR ''|'' \<notin> set (debug_comparer dbg c)"
  by (cases c) (auto simp: debug_comparer_def float_eps_def debug_ok_def)

lemma show_nat_bar: "CHR ''|'' \<notin> set (show_nat n)"
  using show_nat_digits [of "CHR ''|''" n] by (auto simp: is_ascii_digit_def in_range_def byte_def)

text \<open>Tests as they are loaded: with an expected output, of the lengths memory can hold.\<close>

definition test_fits :: "test_case \<Rightarrow> bool" where
  "test_fits t \<longleftrightarrow> length (tc_input t) < 256 ^ 8 \<and>
     (case tc_expected t of None \<Rightarrow> False | Some x \<Rightarrow> length x < 256 ^ 8)"

lemma hash_test_cut:
  assumes "tc_name t = tc_name u" "test_fits t" "test_fits u" "hash_test t @ r = hash_test u @ s"
  shows "t = u \<and> r = s"
proof -
  obtain x y where x: "tc_expected t = Some x" and y: "tc_expected u = Some y"
    using assms(2,3) by (auto simp: test_fits_def split: option.splits)
  with assms(4) have "(le_bytes 8 (length (tc_input t)) @ tc_input t) @ (le_bytes 8 (length x) @ x) @ r =
      (le_bytes 8 (length (tc_input u)) @ tc_input u) @ (le_bytes 8 (length y) @ y) @ s"
    by (simp add: hash_test_def or_default_def assms(1) Let_def)
  then have "tc_input t = tc_input u" "x = y" "r = s"
    using assms(2,3) x y sized.cut_iff [of "tc_input t" "tc_input u"] sized.cut_iff [of x y]
    by (auto simp: test_fits_def)
  with x y assms(1) show ?thesis by (cases t, cases u) simp
qed

lemma hash_tests_inject:
  "map tc_name ts = map tc_name us \<Longrightarrow> list_all test_fits ts \<Longrightarrow> list_all test_fits us \<Longrightarrow>
     concat (map hash_test ts) = concat (map hash_test us) \<longleftrightarrow> ts = us"
proof (induction ts arbitrary: us)
  case (Cons t ts)
  then obtain u vs where us: "us = u # vs" "tc_name t = tc_name u" "map tc_name ts = map tc_name vs"
    by auto
  show ?case
    using Cons.prems(2,3) us(1) Cons.IH [OF us(3)]
      hash_test_cut [OF us(2), of "concat (map hash_test ts)" "concat (map hash_test vs)"]
    by auto
qed simp

lemma hash_input_inject:
  assumes "debug_ok dbg (float_eps c \<union> float_eps d)"
    and "map tc_name ts = map tc_name us" "list_all test_fits ts" "list_all test_fits us"
  shows "hash_input dbg t1 m1 c ts = hash_input dbg t2 m2 d us \<longleftrightarrow>
    t1 = t2 \<and> m1 = m2 \<and> c = d \<and> ts = us"
proof -
  have c: "CHR ''|'' \<notin> set (debug_comparer dbg c)" "CHR ''|'' \<notin> set (debug_comparer dbg d)"
    using debug_comparer_bar [OF assms(1)] by auto
  have "hash_input dbg t1 m1 c ts = hash_input dbg t2 m2 d us \<longleftrightarrow>
      (show_nat (unat t1) @ ''|'') @ (show_nat (unat m1) @ ''|'') @ (debug_comparer dbg c @ ''|'') @
        concat (map hash_test ts) =
      (show_nat (unat t2) @ ''|'') @ (show_nat (unat m2) @ ''|'') @ (debug_comparer dbg d @ ''|'') @
        concat (map hash_test us)"
    by (simp add: hash_input_def)
  also have "\<dots> \<longleftrightarrow> unat t1 = unat t2 \<and> unat m1 = unat m2 \<and> c = d \<and> ts = us"
    using barred.cut_iff [OF show_nat_bar show_nat_bar] barred.cut_iff [OF c]
      debug_comparer_inject [OF assms(1)] hash_tests_inject [OF assms(2-4)]
    by (auto simp del: append_assoc)
  finally show ?thesis by (simp add: word_unat_eq_iff)
qed

lemma hex_digit_byte:
  assumes "d < 16" shows "byte (hex_digit d) = (if d < 10 then 48 + d else 87 + d)"
  using assms by (simp add: hex_digit_def)

lemma hex_byte_inject: "hex_byte b = hex_byte c \<longleftrightarrow> b = c"
proof
  assume "hex_byte b = hex_byte c"
  then have "byte (hex_digit (byte b div 16)) = byte (hex_digit (byte c div 16))"
    "byte (hex_digit (byte b mod 16)) = byte (hex_digit (byte c mod 16))"
    by (simp_all add: hex_byte_def)
  moreover have "byte b div 16 < 16" "byte c div 16 < 16"
    using byte_less [of b] byte_less [of c] by (simp_all add: less_mult_imp_div_less)
  ultimately have "byte b div 16 = byte c div 16" "byte b mod 16 = byte c mod 16"
    by (simp_all add: hex_digit_byte split: if_splits)
  then show "b = c" by (metis byte_inject div_mult_mod_eq)
qed simp

lemma hex_inject: "concat (map hex_byte xs) = concat (map hex_byte ys) \<longleftrightarrow> xs = ys"
proof (induction xs arbitrary: ys)
  case Nil
  then show ?case by (cases ys) (simp_all add: hex_byte_def)
next
  case (Cons x xs)
  show ?case
  proof (cases ys)
    case (Cons y zs)
    then show ?thesis using Cons.IH [of zs] hex_byte_inject [of x y] by (simp add: hex_byte_def) blast
  qed (simp add: hex_byte_def)
qed

text \<open>C33: a problem's version names limits, comparer and test data. For two sets of tests with the
same names, and as far as SHA-256 does not collide on them, the versions are equal exactly when
time limit, memory limit, comparer and every input and expected output are equal, so a stored
verdict tells whether the problem has changed since.\<close>

theorem version_identifies_tests:
  assumes names: "map tc_name ts = map tc_name us"
    and fits: "list_all test_fits ts" "list_all test_fits us"
    and dbg: "debug_ok (pe_debug_f64 env) (float_eps (mf_comparer m) \<union> float_eps (mf_comparer n))"
    and sha: "inj_on (pe_sha256 env)
      {hash_input (pe_debug_f64 env) (mf_time_limit_ms m) (mf_memory_limit_mb m) (mf_comparer m) ts,
       hash_input (pe_debug_f64 env) (mf_time_limit_ms n) (mf_memory_limit_mb n) (mf_comparer n) us}"
  shows "problem_version env m ts = problem_version env n us \<longleftrightarrow>
    mf_time_limit_ms m = mf_time_limit_ms n \<and> mf_memory_limit_mb m = mf_memory_limit_mb n \<and>
    mf_comparer m = mf_comparer n \<and> ts = us"
  unfolding problem_version_def hex_inject
  using inj_on_eq_iff [OF sha] hash_input_inject [OF dbg names fits] by (metis insertI1 insertI2)

definition sample_env :: problem_env where
  "sample_env = \<lparr>pe_read_to_string = (\<lambda>p. if p = ''p/a-plus-b/problem.toml'' then Ok ''m'' else Err ''missing''),
     pe_read = (\<lambda>p. if p = ''p/a-plus-b/tests/01.in'' then Ok ''1 2'' else
       if p = ''p/a-plus-b/tests/01.out'' then Ok ''3'' else Err ''missing''),
     pe_read_dir = (\<lambda>p. if p = ''p'' then Ok [Ok ''README'', Ok ''a-plus-b''] else
       if p = ''p/a-plus-b/tests'' then Ok [Ok ''01.out'', Err ''entry'', Ok ''01.in''] else Err ''missing''),
     pe_is_file = (\<lambda>p. p = ''p/a-plus-b/problem.toml''),
     pe_toml = (\<lambda>t. Ok \<lparr>mt_title = ''A+B'', mt_difficulty = None, mt_time_limit_ms = None,
       mt_memory_limit_mb = Some 64, mt_comparer = Some Tokens, mt_samples = Some [''01''],
       mt_show_failed_input = None, mt_tags = None\<rparr>),
     pe_sha256 = id, pe_debug_str = id, pe_debug_f64 = (\<lambda>_. ''1e-9'')\<rparr>"

definition sample_manifest :: "comparer \<Rightarrow> manifest" where
  "sample_manifest c = \<lparr>mf_title = ''A+B'', mf_difficulty = ''easy'', mf_time_limit_ms = 1000,
     mf_memory_limit_mb = 64, mf_comparer = c, mf_samples = [], mf_show_failed_input = False, mf_tags = []\<rparr>"

definition sample_test :: "string \<Rightarrow> bytes \<Rightarrow> bytes \<Rightarrow> test_case" where
  "sample_test n i e = \<lparr>tc_name = n, tc_input = i, tc_expected = Some e\<rparr>"

theorem version_identifies_tests_witness:
  "problem_version sample_env (sample_manifest (Float (Fin 1))) [sample_test ''01'' ''1 2'' ''3''] \<noteq>
   problem_version sample_env (sample_manifest (Float (Fin 1))) [sample_test ''01'' ''1 2'' ''4'']"
proof -
  have names: "map tc_name [sample_test ''01'' ''1 2'' ''3''] = map tc_name [sample_test ''01'' ''1 2'' ''4'']"
    and fits: "list_all test_fits [sample_test ''01'' ''1 2'' ''3'']" "list_all test_fits [sample_test ''01'' ''1 2'' ''4'']"
    and dbg: "debug_ok (pe_debug_f64 sample_env) (float_eps (mf_comparer (sample_manifest (Float (Fin 1)))) \<union>
       float_eps (mf_comparer (sample_manifest (Float (Fin 1)))))"
    by (simp_all add: sample_test_def test_fits_def debug_ok_def float_eps_def sample_manifest_def sample_env_def)
  have "inj_on (pe_sha256 sample_env) A" for A by (simp add: sample_env_def)
  from version_identifies_tests [OF names fits dbg this] show ?thesis
    by (simp only: sample_test_def) simp
qed

text \<open>Test names are not delimited in the hashed bytes: different tests under different names can
have the same version, whatever the hash.\<close>

lemma version_ignores_name_boundaries:
  "problem_version env m [sample_test ''a'' (CHR 0x00 # le_bytes 8 96 @ replicate 88 (CHR ''x'')) []] =
   problem_version env m [sample_test ''aa'' [] (replicate 88 (CHR ''x'') @ le_bytes 8 0)]"
proof -
  have "hash_test (sample_test ''a'' (CHR 0x00 # le_bytes 8 96 @ replicate 88 (CHR ''x'')) []) =
      hash_test (sample_test ''aa'' [] (replicate 88 (CHR ''x'') @ le_bytes 8 0))"
    by code_simp
  then show ?thesis by (simp add: problem_version_def hash_input_def)
qed

section \<open>Loaded problems\<close>

lemma load_problemE:
  assumes "load_problem env dir = Ok p"
  obtains m names where "read_manifest env (path_join dir ''problem.toml'') = Ok m"
    "list_tests env (dir_slug dir) (path_join dir ''tests'') = Ok names"
    "try_all (load_test env (dir_slug dir) (path_join dir ''tests'')) names = Ok (pr_tests p)"
    "check_samples env (dir_slug dir) names (mf_samples m) = Ok ()"
    "mf_time_limit_ms m \<noteq> 0" "mf_memory_limit_mb m \<noteq> 0"
    "dir_slug dir \<noteq> []" "list_all slug_byte (dir_slug dir)"
    "pr_slug p = dir_slug dir" "pr_time_limit_ms p = mf_time_limit_ms m"
    "pr_memory_limit_kb p = mf_memory_limit_mb m * 1024" "pr_comparer p = mf_comparer m"
    "pr_sample_names p = mf_samples m" "pr_version p = problem_version env m (pr_tests p)"
  using assms by (auto simp: load_problem_def Let_def try_then_Ok_iff split: if_splits intro: that)

lemma load_test_Ok:
  "load_test env slug td name = Ok t \<longleftrightarrow>
     (\<exists>i e. pe_read env (path_join td (name @ ''.in'')) = Ok i \<and>
       pe_read env (path_join td (name @ ''.out'')) = Ok e \<and>
       t = \<lparr>tc_name = name, tc_input = i, tc_expected = Some e\<rparr>)"
  by (auto simp: load_test_def try_then_Ok_iff read_bytes_def)

lemma load_tests_Ok:
  "try_all (load_test env slug td) names = Ok ts \<Longrightarrow>
     map tc_name ts = names \<and>
     list_all (\<lambda>t. \<exists>e. pe_read env (path_join td (tc_name t @ ''.in'')) = Ok (tc_input t) \<and>
       pe_read env (path_join td (tc_name t @ ''.out'')) = Ok e \<and> tc_expected t = Some e) ts"
proof (induction names arbitrary: ts)
  case (Cons n names)
  then obtain t us where "load_test env slug td n = Ok t" "try_all (load_test env slug td) names = Ok us"
    "ts = t # us" by (auto simp: try_then_Ok_iff)
  with Cons.IH [of us] show ?case by (auto simp: load_test_Ok)
qed simp

lemma dir_slug_file_name: "dir_slug dir \<noteq> [] \<Longrightarrow> file_name dir = Some (dir_slug dir)"
  by (auto simp: dir_slug_def to_str_def bind_eq_Some_conv split: option.splits if_splits)

lemma check_samples_Ok: "check_samples env slug names samples = Ok () \<longleftrightarrow> set samples \<subseteq> set names"
  by (auto simp: check_samples_def find_None_iff find_Some_iff split: option.splits dest: nth_mem)

lemma list_tests_Ok:
  "list_tests env slug td = Ok names \<longleftrightarrow>
     (\<exists>entries. pe_read_dir env td = Ok entries \<and> names = sort (List.map_filter (test_name td) entries)) \<and>
     names \<noteq> []"
  by (auto simp: list_tests_def try_then_Ok_iff Let_def)

text \<open>C32: a problem that loads is ready to be judged. Its slug is the name of its directory, of
lower case letters, digits and dashes; its tests are exactly the \<open>.in\<close> files of its directory, at
least one, in the order of their names, each with the contents of its \<open>.in\<close> file as input and of
its \<open>.out\<close> file as expected output; every sample is a test, so there are samples to show when
any are named; and the time limit is positive, and the memory limit too below \<open>2 ^ 54\<close> MB.\<close>

theorem loaded_problem_well_formed:
  assumes load: "load_problem env dir = Ok p"
  shows "file_name dir = Some (pr_slug p) \<and> pr_slug p \<noteq> [] \<and> list_all slug_byte (pr_slug p) \<and>
    (\<exists>entries. pe_read_dir env (path_join dir ''tests'') = Ok entries \<and>
       map tc_name (pr_tests p) = sort (List.map_filter (test_name (path_join dir ''tests'')) entries)) \<and>
    pr_tests p \<noteq> [] \<and>
    list_all (\<lambda>t. \<exists>e. tc_expected t = Some e \<and>
       pe_read env (path_join (path_join dir ''tests'') (tc_name t @ ''.in'')) = Ok (tc_input t) \<and>
       pe_read env (path_join (path_join dir ''tests'') (tc_name t @ ''.out'')) = Ok e) (pr_tests p) \<and>
    set (pr_sample_names p) = set (map tc_name (problem_samples p)) \<and>
    pr_time_limit_ms p \<noteq> 0 \<and>
    (\<exists>mb. pr_memory_limit_kb p = mb * 1024 \<and> mb \<noteq> 0 \<and> (mb < 2 ^ 54 \<longrightarrow> pr_memory_limit_kb p \<noteq> 0))"
proof -
  obtain m names where "read_manifest env (path_join dir ''problem.toml'') = Ok m"
    and m: "list_tests env (dir_slug dir) (path_join dir ''tests'') = Ok names"
    "try_all (load_test env (dir_slug dir) (path_join dir ''tests'')) names = Ok (pr_tests p)"
    "check_samples env (dir_slug dir) names (mf_samples m) = Ok ()"
    "mf_time_limit_ms m \<noteq> 0" "mf_memory_limit_mb m \<noteq> 0" "dir_slug dir \<noteq> []" "list_all slug_byte (dir_slug dir)"
    "pr_slug p = dir_slug dir" "pr_time_limit_ms p = mf_time_limit_ms m"
    "pr_memory_limit_kb p = mf_memory_limit_mb m * 1024" "pr_comparer p = mf_comparer m"
    "pr_sample_names p = mf_samples m" "pr_version p = problem_version env m (pr_tests p)"
    by (rule load_problemE [OF load])
  note tests = load_tests_Ok [OF m(2)]
  have "set (pr_sample_names p) \<subseteq> set (map tc_name (pr_tests p))"
    using m(3,12) tests by (simp add: check_samples_Ok)
  then have samples: "set (pr_sample_names p) = set (map tc_name (problem_samples p))"
    by (auto simp: problem_samples_def)
  have "mf_memory_limit_mb m * 1024 \<noteq> 0" if "mf_memory_limit_mb m < 2 ^ 54"
  proof -
    have "unat (mf_memory_limit_mb m) < 2 ^ 54" using that by (simp add: word_less_nat_alt)
    then have "unat (mf_memory_limit_mb m * 1024) = unat (mf_memory_limit_mb m) * 1024"
      by (subst unat_mult_lem [THEN iffD1]) simp_all
    then show ?thesis using m(5) by (auto simp: unat_eq_zero)
  qed
  moreover have "pr_tests p \<noteq> []" using m(1) tests by (auto simp: list_tests_Ok)
  ultimately show ?thesis
    using m tests samples dir_slug_file_name [OF m(6)] by (auto simp: list_tests_Ok list_all_iff)
qed

lemma sample_loads: "\<exists>p. load_problem sample_env ''p/a-plus-b'' = Ok p \<and> pr_slug p = ''a-plus-b''"
proof -
  have "case load_problem sample_env ''p/a-plus-b'' of Ok p \<Rightarrow> pr_slug p = ''a-plus-b'' | Err e \<Rightarrow> False"
    by code_simp
  then show ?thesis by (auto split: sum.splits)
qed

theorem loaded_problem_well_formed_witness:
  "case load_problem sample_env ''p/a-plus-b'' of
     Ok p \<Rightarrow> pr_tests p \<noteq> [] \<and> set (pr_sample_names p) = set (map tc_name (problem_samples p))
   | Err e \<Rightarrow> False"
  using sample_loads loaded_problem_well_formed [of sample_env "''p/a-plus-b''"] by auto

section \<open>Problem sets\<close>









end
