(* ===== verification/Server_Store.thy ===== *)
theory Server_Store
  imports Judge_Verdict
begin

text \<open>
  \<open>crates/server/src/store.rs\<close>: the \<open>submissions\<close> table, which is also the durable job queue,
  and the table of sources. A table is the list of its rows; every SQL statement of the source
  is a function on that list, with the statement's \<open>WHERE\<close> and \<open>SET\<close> clauses. The store runs
  one operation at a time under its mutex, and a transaction that returns early is rolled back,
  so an operation is a function from the database to a result and the database it commits.
  The clock and the fresh UUID are arguments; \<open>serde_json\<close> is the parameters \<open>ser\<close> and \<open>de\<close>.
  Failures of SQLite itself (disk, locking) are not modelled; violated constraints are.
\<close>

section \<open>Status\<close>

datatype status = S_Queued | S_Compiling | S_Running | S_Done

fun status_text :: "status \<Rightarrow> string" where
  "status_text S_Queued = ''QUEUED''"
| "status_text S_Compiling = ''COMPILING''"
| "status_text S_Running = ''RUNNING''"
| "status_text S_Done = ''DONE''"

text \<open>\<open>Status::parse\<close>: every other text is \<open>QUEUED\<close>.\<close>

definition parse_status :: "string \<Rightarrow> status" where
  "parse_status s =
     (if s = ''COMPILING'' then S_Compiling
      else if s = ''RUNNING'' then S_Running
      else if s = ''DONE'' then S_Done
      else S_Queued)"

interpretation status_codec: text_codec status_text "\<lambda>s. Some (parse_status s)" "\<lambda>_. True"
proof
  show "Some (parse_status (status_text st)) = Some st" for st
    by (cases st) (simp_all add: parse_status_def)
qed

lemma parse_status_text [simp]: "parse_status (status_text st) = st"
  using status_codec.dec_enc [of st] by simp

lemma status_text_inject [simp]: "status_text a = status_text b \<longleftrightarrow> a = b"
  using status_codec.enc_inject [of a b] by simp

section \<open>Rows and values\<close>

record row =
  rw_id :: string
  rw_user_id :: string
  rw_problem :: string
  rw_problem_version :: string
  rw_language :: string
  rw_status :: string
  rw_verdict :: "string option"
  rw_time_ms :: "i64 option"
  rw_memory_kb :: "i64 option"
  rw_failed_test :: "string option"
  rw_tests_done :: i64
  rw_tests_total :: i64
  rw_test_results :: "string option"
  rw_compile_output :: "string option"
  rw_error :: "string option"
  rw_judge_version :: "string option"
  rw_attempt :: i64
  rw_lease_until_ms :: "i64 option"
  rw_idempotency_key :: "string option"
  rw_created_at_ms :: i64
  rw_judged_at_ms :: "i64 option"

record db =
  db_rows :: "row list"
  db_sources :: "(string \<times> string) list"

record submission =
  sm_id :: string
  sm_problem :: string
  sm_problem_version :: string
  sm_language :: string
  sm_status :: status
  sm_verdict :: "verdict option"
  sm_time_ms :: "u64 option"
  sm_memory_kb :: "u64 option"
  sm_failed_test :: "string option"
  sm_tests_done :: u64
  sm_tests_total :: u64
  sm_compile_output :: "string option"
  sm_tests :: "test_result list option"
  sm_attempt :: u32
  sm_judge_version :: "string option"
  sm_created_at_ms :: i64
  sm_judged_at_ms :: "i64 option"

record new_submission =
  nw_user_id :: string
  nw_problem :: string
  nw_problem_version :: string
  nw_language :: string
  nw_source :: string
  nw_tests_total :: u64
  nw_idempotency_key :: "string option"

record job =
  jb_id :: string
  jb_problem :: string
  jb_language :: string
  jb_source :: string
  jb_attempt :: u32

record sweep_report =
  sp_requeued :: nat
  sp_failed :: nat

datatype store_error = Constraint_Violation | No_Row | Json string

type_synonym json_writer = "test_result list \<Rightarrow> string + string"
type_synonym json_reader = "string \<Rightarrow> test_result list option"

text \<open>\<open>now_ms\<close>: milliseconds since the epoch as \<open>i64\<close>, 0 for a clock before it.\<close>

definition now_ms :: "nat option \<Rightarrow> i64" where
  "now_ms since_epoch = (case since_epoch of None \<Rightarrow> 0 | Some ms \<Rightarrow> signed_take_bit 63 (int ms))"

definition row_to_submission :: "json_reader \<Rightarrow> row \<Rightarrow> submission" where
  "row_to_submission de r =
     \<lparr>sm_id = rw_id r, sm_problem = rw_problem r, sm_problem_version = rw_problem_version r,
      sm_language = rw_language r, sm_status = parse_status (rw_status r),
      sm_verdict = Option.bind (rw_verdict r) from_code,
      sm_time_ms = map_option i64_as_u64 (rw_time_ms r),
      sm_memory_kb = map_option i64_as_u64 (rw_memory_kb r),
      sm_failed_test = rw_failed_test r,
      sm_tests_done = i64_as_u64 (rw_tests_done r), sm_tests_total = i64_as_u64 (rw_tests_total r),
      sm_compile_output = rw_compile_output r, sm_tests = Option.bind (rw_test_results r) de,
      sm_attempt = i64_as_u32 (rw_attempt r), sm_judge_version = rw_judge_version r,
      sm_created_at_ms = rw_created_at_ms r, sm_judged_at_ms = rw_judged_at_ms r\<rparr>"

section \<open>SQL\<close>

text \<open>\<open>UPDATE ... SET f WHERE p\<close>: the new rows and the number of rows changed.\<close>

definition sql_update :: "(row \<Rightarrow> bool) \<Rightarrow> (row \<Rightarrow> row) \<Rightarrow> row list \<Rightarrow> row list \<times> nat" where
  "sql_update p f rows = (map (\<lambda>r. if p r then f r else r) rows, length (filter p rows))"

text \<open>\<open>a < b\<close> on a nullable column: \<open>NULL\<close> never satisfies it.\<close>

definition null_less :: "i64 option \<Rightarrow> i64 \<Rightarrow> bool" where
  "null_less a b = (case a of None \<Rightarrow> False | Some x \<Rightarrow> x < b)"

definition in_flight :: "string \<Rightarrow> bool" where
  "in_flight st \<longleftrightarrow> st = ''COMPILING'' \<or> st = ''RUNNING''"

text \<open>The order of the queue and of listings: \<open>created_at_ms\<close>, then \<open>id\<close> byte by byte.\<close>

datatype queue_key = Queue_Key (qk_created: int) (qk_id: string)

instantiation queue_key :: linorder
begin

definition less_eq_queue_key :: "queue_key \<Rightarrow> queue_key \<Rightarrow> bool" where
  "less_eq_queue_key a b \<longleftrightarrow>
     qk_created a < qk_created b \<or> (qk_created a = qk_created b \<and> qk_id a \<le> qk_id b)"

definition less_queue_key :: "queue_key \<Rightarrow> queue_key \<Rightarrow> bool" where
  "less_queue_key a b \<longleftrightarrow>
     qk_created a < qk_created b \<or> (qk_created a = qk_created b \<and> qk_id a < qk_id b)"

instance
proof
  fix x y z :: queue_key
  show "(x < y) = (x \<le> y \<and> \<not> y \<le> x)"
    by (auto simp: less_eq_queue_key_def less_queue_key_def)
  show "x \<le> x"
    by (simp add: less_eq_queue_key_def)
  show "x \<le> y \<Longrightarrow> y \<le> z \<Longrightarrow> x \<le> z"
    by (auto simp: less_eq_queue_key_def)
  show "x \<le> y \<Longrightarrow> y \<le> x \<Longrightarrow> x = y"
    by (auto simp: less_eq_queue_key_def intro: queue_key.expand)
  show "x \<le> y \<or> y \<le> x"
    by (auto simp: less_eq_queue_key_def)
qed

end

definition row_key :: "row \<Rightarrow> queue_key" where
  "row_key r = Queue_Key (rw_created_at_ms r) (rw_id r)"

definition order_by_key :: "row list \<Rightarrow> row list" where
  "order_by_key rows = sort_key row_key rows"

definition find_row :: "string \<Rightarrow> row list \<Rightarrow> row option" where
  "find_row i rows = find (\<lambda>r. rw_id r = i) rows"

text \<open>\<open>INSERT\<close> with the primary key and the unique key; several \<open>NULL\<close> keys are no conflict.\<close>

definition conflicts :: "row \<Rightarrow> row \<Rightarrow> bool" where
  "conflicts r r' \<longleftrightarrow> rw_id r = rw_id r' \<or>
     (rw_idempotency_key r \<noteq> None \<and> rw_idempotency_key r = rw_idempotency_key r')"

definition insert_row :: "row \<Rightarrow> row list \<Rightarrow> store_error + row list" where
  "insert_row r rows = (if list_ex (conflicts r) rows then Err Constraint_Violation else Ok (rows @ [r]))"

definition insert_source :: "string \<Rightarrow> string \<Rightarrow> (string \<times> string) list \<Rightarrow> store_error + (string \<times> string) list" where
  "insert_source i src ss = (if list_ex (\<lambda>(j, _). j = i) ss then Err Constraint_Violation else Ok (ss @ [(i, src)]))"

section \<open>Operations\<close>

definition new_row :: "string \<Rightarrow> i64 \<Rightarrow> new_submission \<Rightarrow> row" where
  "new_row i now new =
     \<lparr>rw_id = i, rw_user_id = nw_user_id new, rw_problem = nw_problem new,
      rw_problem_version = nw_problem_version new, rw_language = nw_language new,
      rw_status = ''QUEUED'', rw_verdict = None, rw_time_ms = None, rw_memory_kb = None,
      rw_failed_test = None, rw_tests_done = 0, rw_tests_total = u64_as_i64 (nw_tests_total new),
      rw_test_results = None, rw_compile_output = None, rw_error = None, rw_judge_version = None,
      rw_attempt = 0, rw_lease_until_ms = None, rw_idempotency_key = nw_idempotency_key new,
      rw_created_at_ms = now, rw_judged_at_ms = None\<rparr>"

definition find_key :: "string option \<Rightarrow> row list \<Rightarrow> row option" where
  "find_key key rows =
     (case key of None \<Rightarrow> None | Some k \<Rightarrow> find (\<lambda>r. rw_idempotency_key r = Some k) rows)"

definition store_insert ::
  "json_reader \<Rightarrow> string \<Rightarrow> i64 \<Rightarrow> new_submission \<Rightarrow> (db, store_error, submission \<times> bool) io" where
  "store_insert de i now new d =
     (case find_key (nw_idempotency_key new) (db_rows d) of
        Some r \<Rightarrow> (Ok (row_to_submission de r, False), d)
      | None \<Rightarrow>
          (case insert_row (new_row i now new) (db_rows d) of
             Err e \<Rightarrow> (Err e, d)
           | Ok rows \<Rightarrow>
               (case insert_source i (nw_source new) (db_sources d) of
                  Err e \<Rightarrow> (Err e, d)
                | Ok sources \<Rightarrow>
                    (case find_row i rows of
                       None \<Rightarrow> (Err No_Row, d)
                     | Some r \<Rightarrow>
                         (Ok (row_to_submission de r, True), \<lparr>db_rows = rows, db_sources = sources\<rparr>)))))"

definition store_get :: "json_reader \<Rightarrow> string \<Rightarrow> db \<Rightarrow> submission option" where
  "store_get de i d = map_option (row_to_submission de) (find_row i (db_rows d))"

definition store_get_source :: "string \<Rightarrow> db \<Rightarrow> string option" where
  "store_get_source i d = map_option snd (find (\<lambda>(j, _). j = i) (db_sources d))"

definition store_list :: "json_reader \<Rightarrow> string option \<Rightarrow> u32 \<Rightarrow> db \<Rightarrow> submission list" where
  "store_list de problem limit d =
     map (\<lambda>r. (row_to_submission de r)\<lparr>sm_tests := None, sm_compile_output := None\<rparr>)
       (take (unat limit) (rev (order_by_key
         (filter (\<lambda>r. problem = None \<or> problem = Some (rw_problem r)) (db_rows d)))))"

text \<open>The \<open>UPDATE ... RETURNING\<close> of a claim, then the source; a missing source rolls back.\<close>

definition oldest_queued :: "row list \<Rightarrow> string option" where
  "oldest_queued rows =
     (case order_by_key (filter (\<lambda>r. rw_status r = ''QUEUED'') rows) of
        [] \<Rightarrow> None | r # _ \<Rightarrow> Some (rw_id r))"

definition claim_row :: "i64 \<Rightarrow> row \<Rightarrow> row" where
  "claim_row lease_until r = r\<lparr>rw_status := ''COMPILING'', rw_attempt := rw_attempt r + 1,
     rw_lease_until_ms := Some lease_until, rw_tests_done := 0\<rparr>"

definition claim_next :: "i64 \<Rightarrow> i64 \<Rightarrow> (db, store_error, job option) io" where
  "claim_next now lease_ms d =
     (case oldest_queued (db_rows d) of
        None \<Rightarrow> (Ok None, d)
      | Some i \<Rightarrow>
          (let rows = fst (sql_update (\<lambda>r. rw_id r = i) (claim_row (i64_add now lease_ms)) (db_rows d))
           in case find_row i rows of
                None \<Rightarrow> (Ok None, d)
              | Some r \<Rightarrow>
                  (case store_get_source i d of
                     None \<Rightarrow> (Err No_Row, d)
                   | Some source \<Rightarrow>
                       (Ok (Some \<lparr>jb_id = rw_id r, jb_problem = rw_problem r,
                          jb_language = rw_language r, jb_source = source,
                          jb_attempt = i64_as_u32 (rw_attempt r)\<rparr>), d\<lparr>db_rows := rows\<rparr>))))"

definition owned_by :: "string \<Rightarrow> u32 \<Rightarrow> row \<Rightarrow> bool" where
  "owned_by i attempt r \<longleftrightarrow> rw_id r = i \<and> rw_attempt r = uint attempt"

definition store_progress ::
  "i64 \<Rightarrow> string \<Rightarrow> u32 \<Rightarrow> status \<Rightarrow> u64 \<Rightarrow> u64 \<Rightarrow> i64 \<Rightarrow> db \<Rightarrow> bool \<times> db" where
  "store_progress now i attempt st tests_done tests_total lease_ms d =
     (let (rows, n) = sql_update
        (\<lambda>r. owned_by i attempt r \<and> in_flight (rw_status r))
        (\<lambda>r. r\<lparr>rw_status := status_text st, rw_tests_done := u64_as_i64 tests_done,
               rw_tests_total := u64_as_i64 tests_total,
               rw_lease_until_ms := Some (i64_add now lease_ms)\<rparr>) (db_rows d)
      in (n = 1, d\<lparr>db_rows := rows\<rparr>))"

definition finish_row ::
  "i64 \<Rightarrow> string \<Rightarrow> string \<Rightarrow> string \<Rightarrow> judge_result \<Rightarrow> row \<Rightarrow> row" where
  "finish_row now problem_version judge_version tests_json result r =
     r\<lparr>rw_status := ''DONE'', rw_verdict := Some (code (jr_verdict result)),
       rw_time_ms := Some (u64_as_i64 (jr_time_ms result)),
       rw_memory_kb := Some (u64_as_i64 (jr_memory_kb result)),
       rw_failed_test := jr_failed_test result, rw_test_results := Some tests_json,
       rw_compile_output := jr_compile_output result,
       rw_tests_done := int (length (jr_tests result)), rw_tests_total := int (jr_tests_total result),
       rw_problem_version := problem_version, rw_judge_version := Some judge_version,
       rw_judged_at_ms := Some now, rw_lease_until_ms := None, rw_error := None\<rparr>"

definition store_finish ::
  "json_writer \<Rightarrow> i64 \<Rightarrow> string \<Rightarrow> u32 \<Rightarrow> string \<Rightarrow> string \<Rightarrow> judge_result \<Rightarrow>
   (db, store_error, bool) io" where
  "store_finish ser now i attempt problem_version judge_version result d =
     (case ser (jr_tests result) of
        Err e \<Rightarrow> (Err (Json e), d)
      | Ok tests_json \<Rightarrow>
          (let (rows, n) = sql_update
             (\<lambda>r. owned_by i attempt r \<and> rw_status r \<noteq> ''DONE'')
             (finish_row now problem_version judge_version tests_json result) (db_rows d)
           in (Ok (n = 1), d\<lparr>db_rows := rows\<rparr>)))"

definition give_up_row :: "i64 \<Rightarrow> string \<Rightarrow> row \<Rightarrow> row" where
  "give_up_row now err r = r\<lparr>rw_status := ''DONE'', rw_verdict := Some ''IE'', rw_error := Some err,
     rw_judged_at_ms := Some now, rw_lease_until_ms := None\<rparr>"

definition retry_row :: "string \<Rightarrow> row \<Rightarrow> row" where
  "retry_row err r = r\<lparr>rw_status := ''QUEUED'', rw_error := Some err, rw_lease_until_ms := None\<rparr>"

definition fail_attempt ::
  "i64 \<Rightarrow> string \<Rightarrow> u32 \<Rightarrow> u32 \<Rightarrow> string \<Rightarrow> db \<Rightarrow> status option \<times> db" where
  "fail_attempt now i attempt max_attempts err d =
     (let give_up = (max_attempts \<le> attempt);
          (rows, n) = sql_update (\<lambda>r. owned_by i attempt r \<and> rw_status r \<noteq> ''DONE'')
            (if give_up then give_up_row now err else retry_row err) (db_rows d)
      in (if n = 1 then Some (if give_up then S_Done else S_Queued) else None, d\<lparr>db_rows := rows\<rparr>))"

definition expired :: "i64 \<Rightarrow> row \<Rightarrow> bool" where
  "expired now r \<longleftrightarrow> in_flight (rw_status r) \<and> null_less (rw_lease_until_ms r) now"

definition sweep_fail_row :: "i64 \<Rightarrow> row \<Rightarrow> row" where
  "sweep_fail_row now r = r\<lparr>rw_status := ''DONE'', rw_verdict := Some ''IE'',
     rw_judged_at_ms := Some now, rw_lease_until_ms := None,
     rw_error := (case rw_error r of None \<Rightarrow> Some ''lease expired'' | Some e \<Rightarrow> Some e)\<rparr>"

definition requeue_row :: "row \<Rightarrow> row" where
  "requeue_row r = r\<lparr>rw_status := ''QUEUED'', rw_lease_until_ms := None\<rparr>"

definition store_sweep :: "i64 \<Rightarrow> u32 \<Rightarrow> db \<Rightarrow> sweep_report \<times> db" where
  "store_sweep now max_attempts d =
     (let (rows, failed) = sql_update (\<lambda>r. expired now r \<and> uint max_attempts \<le> rw_attempt r)
            (sweep_fail_row now) (db_rows d);
          (rows', requeued) = sql_update (expired now) requeue_row rows
      in (\<lparr>sp_requeued = requeued, sp_failed = failed\<rparr>, d\<lparr>db_rows := rows'\<rparr>))"

definition requeue_inflight :: "db \<Rightarrow> nat \<times> db" where
  "requeue_inflight d =
     (let (rows, n) = sql_update (\<lambda>r. in_flight (rw_status r)) requeue_row (db_rows d)
      in (n, d\<lparr>db_rows := rows\<rparr>))"

definition queue_depth :: "db \<Rightarrow> u64" where
  "queue_depth d = of_nat (length (filter (\<lambda>r. rw_status r = ''QUEUED'') (db_rows d)))"

text \<open>\<open>Store::open\<close> on a fresh file, and \<open>open_in_memory\<close>: the schema with empty tables.\<close>

definition empty_db :: db where
  "empty_db = \<lparr>db_rows = [], db_sources = []\<rparr>"

end
