(* ===== verification/Server_Store_Facts.thy ===== *)
theory Server_Store_Facts
  imports Server_Store
begin

text \<open>
  The invariant of the submissions table, the abstract job machine it implements, and the
  effect of every operation of \<open>crates/server/src/store.rs\<close> row by row: an operation maps each
  row on its own and appends at most one. Histories of operations are the \<open>stepper\<close> interface.
\<close>

section \<open>Operations as data\<close>

datatype store_op =
    Op_Insert string i64 new_submission
  | Op_Claim i64 i64
  | Op_Progress i64 string u32 status u64 u64 i64
  | Op_Finish i64 string u32 string string judge_result
  | Op_Fail i64 string u32 u32 string
  | Op_Sweep i64 u32
  | Op_Requeue

fun store_step :: "json_writer \<Rightarrow> json_reader \<Rightarrow> store_op \<Rightarrow> db \<Rightarrow> db" where
  "store_step ser de (Op_Insert i now new) d = snd (store_insert de i now new d)"
| "store_step ser de (Op_Claim now lease) d = snd (claim_next now lease d)"
| "store_step ser de (Op_Progress now i a st k n lease) d = snd (store_progress now i a st k n lease d)"
| "store_step ser de (Op_Finish now i a pv jv res) d = snd (store_finish ser now i a pv jv res d)"
| "store_step ser de (Op_Fail now i a mx err) d = snd (fail_attempt now i a mx err d)"
| "store_step ser de (Op_Sweep now mx) d = snd (store_sweep now mx d)"
| "store_step ser de Op_Requeue d = snd (requeue_inflight d)"

section \<open>The effect on one row\<close>

fun row_effect :: "json_writer \<Rightarrow> store_op \<Rightarrow> db \<Rightarrow> row \<Rightarrow> row" where
  "row_effect ser (Op_Insert i now new) d r = r"
| "row_effect ser (Op_Claim now lease) d r =
     (if oldest_queued (db_rows d) = Some (rw_id r) \<and> store_get_source (rw_id r) d \<noteq> None
      then claim_row (i64_add now lease) r else r)"
| "row_effect ser (Op_Progress now i a st k n lease) d r =
     (if owned_by i a r \<and> in_flight (rw_status r)
      then r\<lparr>rw_status := status_text st, rw_tests_done := u64_as_i64 k,
             rw_tests_total := u64_as_i64 n, rw_lease_until_ms := Some (i64_add now lease)\<rparr> else r)"
| "row_effect ser (Op_Finish now i a pv jv res) d r =
     (case ser (jr_tests res) of
        Err e \<Rightarrow> r
      | Ok j \<Rightarrow> if owned_by i a r \<and> rw_status r \<noteq> ''DONE'' then finish_row now pv jv j res r else r)"
| "row_effect ser (Op_Fail now i a mx err) d r =
     (if owned_by i a r \<and> rw_status r \<noteq> ''DONE''
      then (if mx \<le> a then give_up_row now err r else retry_row err r) else r)"
| "row_effect ser (Op_Sweep now mx) d r =
     (if expired now r then (if uint mx \<le> rw_attempt r then sweep_fail_row now r else requeue_row r)
      else r)"
| "row_effect ser Op_Requeue d r = (if in_flight (rw_status r) then requeue_row r else r)"

fun inserted :: "store_op \<Rightarrow> db \<Rightarrow> row list" where
  "inserted (Op_Insert i now new) d =
     (if find_key (nw_idempotency_key new) (db_rows d) = None \<and>
         \<not> list_ex (conflicts (new_row i now new)) (db_rows d) \<and>
         \<not> list_ex (\<lambda>(j, _). j = i) (db_sources d)
      then [new_row i now new] else [])"
| "inserted _ d = []"

lemma find_row_None: "find_row i rows = None \<longleftrightarrow> i \<notin> rw_id ` set rows"
  by (auto simp: find_row_def find_None_iff)

lemma find_row_distinct:
  "distinct (map rw_id rows) \<Longrightarrow> find_row i rows = Some r \<longleftrightarrow> r \<in> set rows \<and> rw_id r = i"
  by (induction rows) (auto simp: find_row_def)

lemma find_row_in: "find_row i rows = Some r \<Longrightarrow> r \<in> set rows \<and> rw_id r = i"
  by (auto simp: find_row_def find_Some_iff)

lemma find_key_in:
  "find_key key rows = Some r \<Longrightarrow> r \<in> set rows \<and> key \<noteq> None \<and> rw_idempotency_key r = key"
  by (auto simp: find_key_def find_Some_iff split: option.splits)

lemma find_row_map:
  "(\<And>r. rw_id (f r) = rw_id r) \<Longrightarrow> find_row i (map f rows) = map_option f (find_row i rows)"
  by (induction rows) (auto simp: find_row_def)

lemma claim_row_id [simp]: "rw_id (claim_row l r) = rw_id r"
  by (simp add: claim_row_def)

lemma oldest_queued_in:
  "oldest_queued rows = Some i \<Longrightarrow> \<exists>r \<in> set rows. rw_id r = i \<and> rw_status r = ''QUEUED''"
proof -
  assume "oldest_queued rows = Some i"
  then obtain r rs where "order_by_key (filter (\<lambda>r. rw_status r = ''QUEUED'') rows) = r # rs"
    and i: "i = rw_id r"
    by (auto simp: oldest_queued_def split: list.splits)
  then have "r \<in> set (order_by_key (filter (\<lambda>r. rw_status r = ''QUEUED'') rows))" by simp
  with i show ?thesis by (auto simp: order_by_key_def)
qed

lemma claim_rows:
  "db_rows (snd (claim_next now lease d)) = map (row_effect ser (Op_Claim now lease) d) (db_rows d)"
proof (cases "oldest_queued (db_rows d)")
  case None
  then show ?thesis by (simp add: claim_next_def map_idI)
next
  case (Some i)
  let ?f = "\<lambda>r. if rw_id r = i then claim_row (i64_add now lease) r else r"
  obtain r where r: "find_row i (db_rows d) = Some r"
    using oldest_queued_in [OF Some] find_row_None [of i "db_rows d"] by fastforce
  then have "find_row i (map ?f (db_rows d)) = Some (?f r)"
    by (subst find_row_map) auto
  with Some show ?thesis
    by (auto simp: claim_next_def sql_update_def Let_def intro!: map_idI [symmetric] split: option.splits)
qed

lemma claim_sources: "db_sources (snd (claim_next now lease d)) = db_sources d"
  by (auto simp: claim_next_def Let_def split: option.splits)

lemma insert_rows:
  "snd (store_insert de i now new d) =
     d\<lparr>db_rows := db_rows d @ inserted (Op_Insert i now new) d,
       db_sources := db_sources d @ map (\<lambda>_. (i, nw_source new)) (inserted (Op_Insert i now new) d)\<rparr>"
  by (auto simp: store_insert_def insert_row_def insert_source_def find_row_None new_row_def
      split: option.splits)

text \<open>Every operation maps the rows one by one and appends what it inserts.\<close>

lemma store_step_rows:
  "db_rows (store_step ser de op d) = map (row_effect ser op d) (db_rows d) @ inserted op d"
proof (cases op)
  case (Op_Claim now lease)
  then show ?thesis using claim_rows [of now lease d ser] by simp
next
  case (Op_Sweep now mx)
  then show ?thesis
    by (auto simp: store_sweep_def sql_update_def expired_def in_flight_def sweep_fail_row_def)
qed (auto simp: insert_rows store_progress_def store_finish_def fail_attempt_def
    requeue_inflight_def sql_update_def Let_def map_idI split: sum.splits)

lemma store_step_sources:
  "db_sources (store_step ser de op d) =
     db_sources d @ (case op of
       Op_Insert i now new \<Rightarrow> map (\<lambda>_. (i, nw_source new)) (inserted op d) | _ \<Rightarrow> [])"
  by (cases op)
    (auto simp: insert_rows claim_sources store_progress_def store_finish_def fail_attempt_def
      store_sweep_def requeue_inflight_def Let_def split_beta split: sum.splits)

section \<open>The invariant\<close>

definition row_ok :: "row \<Rightarrow> bool" where
  "row_ok r \<longleftrightarrow> rw_status r \<in> status_text ` UNIV \<and>
     (rw_lease_until_ms r \<noteq> None \<longleftrightarrow> in_flight (rw_status r)) \<and>
     (rw_verdict r \<noteq> None \<longleftrightarrow> rw_status r = ''DONE'') \<and>
     (rw_judged_at_ms r \<noteq> None \<longleftrightarrow> rw_status r = ''DONE'') \<and>
     (case rw_verdict r of None \<Rightarrow> True | Some c \<Rightarrow> from_code c \<noteq> None) \<and>
     0 \<le> rw_attempt r \<and> (in_flight (rw_status r) \<longrightarrow> 0 < rw_attempt r)"

definition keys_of :: "row list \<Rightarrow> string list" where
  "keys_of rows = List.map_filter rw_idempotency_key rows"

definition store_inv :: "db \<Rightarrow> bool" where
  "store_inv d \<longleftrightarrow> distinct (map rw_id (db_rows d)) \<and> distinct (keys_of (db_rows d)) \<and>
     map fst (db_sources d) = map rw_id (db_rows d) \<and> list_all row_ok (db_rows d)"

text \<open>
  What the callers keep to: heartbeats report a running status, tokens come from a claim, so
  they are positive, and no submission is claimed \<open>2 ^ 32 - 1\<close> times, so that a token holds the
  attempt it stands for.
\<close>

fun store_adm :: "store_op \<Rightarrow> db \<Rightarrow> bool" where
  "store_adm (Op_Claim now lease) d \<longleftrightarrow> (\<forall>r \<in> set (db_rows d). rw_attempt r < 2 ^ 32 - 1)"
| "store_adm (Op_Progress now i a st k n lease) d \<longleftrightarrow> st = S_Compiling \<or> st = S_Running"
| "store_adm (Op_Finish now i a pv jv res) d \<longleftrightarrow> 0 < a"
| "store_adm (Op_Fail now i a mx err) d \<longleftrightarrow> 0 < a"
| "store_adm _ d \<longleftrightarrow> True"

lemma in_flight_text [simp]:
  "in_flight (status_text st) \<longleftrightarrow> st = S_Compiling \<or> st = S_Running"
  by (cases st) (simp_all add: in_flight_def)

lemma status_texts [simp]: "''QUEUED'' \<in> status_text ` UNIV" "''COMPILING'' \<in> status_text ` UNIV"
  "''RUNNING'' \<in> status_text ` UNIV" "''DONE'' \<in> status_text ` UNIV"
  by (metis rangeI status_text.simps)+

lemma not_in_flight [simp]: "\<not> in_flight ''DONE''" "\<not> in_flight ''QUEUED''" "in_flight ''COMPILING''"
  by (simp_all add: in_flight_def)

lemma row_effect_keys [simp]:
  "rw_id (row_effect ser op d r) = rw_id r"
  "rw_idempotency_key (row_effect ser op d r) = rw_idempotency_key r"
  "rw_created_at_ms (row_effect ser op d r) = rw_created_at_ms r"
  "rw_problem (row_effect ser op d r) = rw_problem r"
  "rw_language (row_effect ser op d r) = rw_language r"
  "rw_user_id (row_effect ser op d r) = rw_user_id r"
  by (cases op; auto simp: claim_row_def finish_row_def give_up_row_def retry_row_def
      sweep_fail_row_def requeue_row_def split: sum.splits)+

lemmas row_changes = claim_row_def finish_row_def give_up_row_def retry_row_def
  sweep_fail_row_def requeue_row_def owned_by_def expired_def

lemma new_row_ok: "row_ok (new_row i now new)"
  by (simp add: row_ok_def new_row_def)

lemma from_IE [simp]: "from_code ''IE'' = Some InternalError"
  by (simp add: from_code_def)

lemma queued_unique:
  assumes "distinct (map rw_id rows)" "r \<in> set rows" "oldest_queued rows = Some (rw_id r)"
  shows "rw_status r = ''QUEUED''"
proof -
  obtain q where "q \<in> set rows" "rw_id q = rw_id r" "rw_status q = ''QUEUED''"
    using oldest_queued_in [OF assms(3)] by blast
  with assms show ?thesis using distinct_map_eq by metis
qed

lemma row_effect_ok:
  assumes "store_inv d" "store_adm op d" "r \<in> set (db_rows d)"
  shows "row_ok (row_effect ser op d r)"
proof -
  have ok: "row_ok r" using assms by (auto simp: store_inv_def list_all_iff)
  show ?thesis
  proof (cases op)
    case (Op_Claim now lease)
    with ok queued_unique [of "db_rows d" r] assms show ?thesis
      by (auto simp: row_ok_def claim_row_def store_inv_def)
  qed (use ok assms(2) in \<open>auto simp: row_ok_def row_changes split: sum.splits\<close>)
qed

lemma keys_of_map:
  "(\<And>r. rw_idempotency_key (f r) = rw_idempotency_key r) \<Longrightarrow> keys_of (map f rows) = keys_of rows"
  by (induction rows) (auto simp: keys_of_def List.map_filter_def)

lemma keys_of_app: "keys_of (xs @ ys) = keys_of xs @ keys_of ys"
  by (simp add: keys_of_def List.map_filter_def)

lemma keys_of_in: "k \<in> set (keys_of rows) \<longleftrightarrow> (\<exists>r \<in> set rows. rw_idempotency_key r = Some k)"
  by (force simp: keys_of_def List.map_filter_def)

lemma inserted_cases:
  obtains "inserted op d = []"
  | i now new where "op = Op_Insert i now new" "inserted op d = [new_row i now new]"
    "find_key (nw_idempotency_key new) (db_rows d) = None"
    "\<forall>r \<in> set (db_rows d). \<not> conflicts (new_row i now new) r" "i \<notin> fst ` set (db_sources d)"
proof (cases "inserted op d = []")
  case False
  then obtain i now new where op: "op = Op_Insert i now new" by (cases op) auto
  with False that(2) [of i now new] show thesis
    by (force simp: list_ex_iff split: if_splits)
qed (use that in blast)

lemma store_step_inv:
  assumes inv: "store_inv d" and adm: "store_adm op d"
  shows "store_inv (store_step ser de op d)"
proof -
  let ?rows = "map (row_effect ser op d) (db_rows d)"
  have ids: "map rw_id ?rows = map rw_id (db_rows d)" by simp
  note frame = store_inv_def store_step_rows store_step_sources ids
  have keys: "keys_of ?rows = keys_of (db_rows d)" by (rule keys_of_map) simp
  have ok: "list_all row_ok ?rows"
    using row_effect_ok [OF inv adm] by (auto simp: list_all_iff)
  show ?thesis
  proof (rule inserted_cases [of op d])
    assume "inserted op d = []"
    with inv keys ok show ?thesis
      by (auto simp: frame split: store_op.splits
          simp del: map_map inserted.simps store_step.simps row_effect.simps)
  next
    fix i now new
    assume op: "op = Op_Insert i now new" and ins: "inserted op d = [new_row i now new]"
      and free: "\<forall>r \<in> set (db_rows d). \<not> conflicts (new_row i now new) r"
      "i \<notin> fst ` set (db_sources d)"
    let ?n = "new_row i now new"
    have n: "rw_id ?n = i" "rw_idempotency_key ?n = nw_idempotency_key new"
      by (simp_all add: new_row_def)
    have "i \<notin> rw_id ` set (db_rows d)"
      using free n by (auto simp: conflicts_def)
    moreover have "set (keys_of [?n]) \<inter> set (keys_of (db_rows d)) = {}"
      using free by (force simp: keys_of_in conflicts_def)
    moreover have "distinct (keys_of [?n])"
      by (simp add: keys_of_def List.map_filter_def)
    moreover have "?rows = db_rows d"
      by (simp add: op map_idI)
    then have "db_rows (store_step ser de op d) = db_rows d @ [?n]"
      by (simp only: store_step_rows ins)
    moreover have "db_sources (store_step ser de op d) = db_sources d @ [(i, nw_source new)]"
      using ins by (simp add: store_step_sources op del: inserted.simps store_step.simps)
    ultimately show ?thesis
      using inv n by (auto simp: store_inv_def keys_of_app new_row_ok)
  qed
qed

interpretation store: stepper "store_step ser de" store_inv store_adm
  for ser :: json_writer and de :: json_reader
  by unfold_locales (rule store_step_inv)

lemma store_inv_empty: "store_inv empty_db"
  by (simp add: store_inv_def empty_db_def keys_of_def List.map_filter_def)

end
