(* ===== verification/Server_Queue.thy ===== *)
theory Server_Queue
  imports Server_Store_Facts
begin

text \<open>
  The submissions table as a job queue: the abstract job machine that every operation of the
  store refines, and the facts about claims, leases and attempts that the queue's guarantees
  rest on.
\<close>

section \<open>The abstract job machine\<close>

text \<open>
  A job waits, is leased to the worker that holds the token of its attempt, or is judged. The
  last two steps are those of a worker whose lease expired and whose job went back to the
  queue, but was not claimed again: its token is still the current one.
\<close>

datatype job_state = Waiting int | Leased int | Judged int "verdict option"

inductive job_step :: "job_state \<Rightarrow> job_state \<Rightarrow> bool" where
  granted: "job_step (Waiting a) (Leased (a + 1))"
| renewed: "job_step (Leased a) (Leased a)"
| requeued: "job_step (Leased a) (Waiting a)"
| judged: "job_step (Leased a) (Judged a v)"
| late_retry: "0 < a \<Longrightarrow> job_step (Waiting a) (Waiting a)"
| late_verdict: "0 < a \<Longrightarrow> job_step (Waiting a) (Judged a v)"

code_pred job_step .

inductive_cases WaitingE: "job_step (Waiting a) s"
inductive_cases LeasedE: "job_step (Leased a) s"
inductive_cases JudgedE: "job_step (Judged a v) s"
inductive_simps Judged_step [simp]: "job_step (Judged a v) s"

fun job_attempt :: "job_state \<Rightarrow> int" where
  "job_attempt (Waiting a) = a"
| "job_attempt (Leased a) = a"
| "job_attempt (Judged a v) = a"

lemma job_step_attempt: "job_step s t \<Longrightarrow> job_attempt s \<le> job_attempt t"
  by (induction rule: job_step.induct) simp_all

lemma job_steps_attempt: "job_step\<^sup>*\<^sup>* s t \<Longrightarrow> job_attempt s \<le> job_attempt t"
  by (induction rule: rtranclp_induct) (auto dest: job_step_attempt)

lemma judged_final: "job_step\<^sup>*\<^sup>* (Judged a v) t \<Longrightarrow> t = Judged a v"
  by (induction rule: rtranclp_induct) auto

definition row_job :: "row \<Rightarrow> job_state" where
  "row_job r = (case parse_status (rw_status r) of
     S_Queued \<Rightarrow> Waiting (rw_attempt r)
   | S_Compiling \<Rightarrow> Leased (rw_attempt r)
   | S_Running \<Rightarrow> Leased (rw_attempt r)
   | S_Done \<Rightarrow> Judged (rw_attempt r) (Option.bind (rw_verdict r) from_code))"

definition job_of :: "db \<Rightarrow> string \<Rightarrow> job_state option" where
  "job_of d i = map_option row_job (find_row i (db_rows d))"

lemma job_attempt_row [simp]: "job_attempt (row_job r) = rw_attempt r"
  by (simp add: row_job_def split: status.splits)

lemma parse_texts [simp]:
  "parse_status ''QUEUED'' = S_Queued" "parse_status ''COMPILING'' = S_Compiling"
  "parse_status ''RUNNING'' = S_Running" "parse_status ''DONE'' = S_Done"
  by (simp_all add: parse_status_def)

lemma row_job_status:
  "rw_status r = ''QUEUED'' \<Longrightarrow> row_job r = Waiting (rw_attempt r)"
  "in_flight (rw_status r) \<Longrightarrow> row_job r = Leased (rw_attempt r)"
  "rw_status r = ''DONE'' \<Longrightarrow> row_job r = Judged (rw_attempt r) (Option.bind (rw_verdict r) from_code)"
  by (auto simp: row_job_def in_flight_def)

lemma row_status_cases:
  assumes "row_ok r"
  obtains "rw_status r = ''QUEUED''" | "in_flight (rw_status r)" | "rw_status r = ''DONE''"
proof -
  obtain st where "rw_status r = status_text st" using assms by (auto simp: row_ok_def)
  then show thesis using that by (cases st) (auto simp: in_flight_def)
qed

text \<open>Every operation moves each row by a step of the machine, or not at all.\<close>

lemma claim_effect:
  assumes "rw_status r = ''QUEUED''"
  shows "job_step (row_job r) (row_job (claim_row l r))"
  using assms job_step.granted [of "rw_attempt r"] by (simp add: row_job_status claim_row_def row_job_def)

lemma write_effect:
  assumes "row_ok r" and st: "rw_status r \<noteq> ''DONE''" and a: "0 < rw_attempt r"
  shows "job_step (row_job r) (Judged (rw_attempt r) v)" and "job_step (row_job r) (Waiting (rw_attempt r))"
proof -
  have "job_step (row_job r) (Judged (rw_attempt r) v) \<and> job_step (row_job r) (Waiting (rw_attempt r))"
    using assms(1)
  proof (cases rule: row_status_cases)
    case 1
    then show ?thesis using a by (auto simp: row_job_status intro: job_step.intros)
  next
    case 2
    then show ?thesis by (auto simp: row_job_status intro: job_step.intros)
  qed (use st in blast)
  then show "job_step (row_job r) (Judged (rw_attempt r) v)"
    and "job_step (row_job r) (Waiting (rw_attempt r))" by simp_all
qed

lemma changed_jobs:
  "row_job (finish_row now pv jv j res r) = Judged (rw_attempt r) (Some (jr_verdict res))"
  "row_job (give_up_row now err r) = Judged (rw_attempt r) (Some InternalError)"
  "row_job (sweep_fail_row now r) = Judged (rw_attempt r) (Some InternalError)"
  "row_job (retry_row err r) = Waiting (rw_attempt r)"
  "row_job (requeue_row r) = Waiting (rw_attempt r)"
  by (simp_all add: row_job_def finish_row_def give_up_row_def sweep_fail_row_def retry_row_def
      requeue_row_def)

lemma uint_pos: "0 < w \<Longrightarrow> 0 < uint w"
  by (simp add: word_less_def)

lemma row_effect_step:
  assumes inv: "store_inv d" and adm: "store_adm op d" and r: "r \<in> set (db_rows d)"
  shows "row_job (row_effect ser op d r) = row_job r \<or> job_step (row_job r) (row_job (row_effect ser op d r))"
proof -
  have ok: "row_ok r" using inv r by (auto simp: store_inv_def list_all_iff)
  have fl: "in_flight (rw_status r) \<Longrightarrow> 0 < rw_attempt r \<and> rw_status r \<noteq> ''DONE''"
    using ok by (cases "rw_status r = ''DONE''") (simp_all add: row_ok_def)
  show ?thesis
  proof (cases op)
    case (Op_Claim now lease)
    then show ?thesis
      using claim_effect queued_unique [of "db_rows d" r] inv r by (auto simp: store_inv_def)
  next
    case (Op_Progress now i a st k n lease)
    then show ?thesis
      using adm by (auto simp: row_job_status(2) row_job_def [of "rw_status_update _ _"]
          intro: job_step.renewed)
  next
    case (Op_Finish now i a pv jv res)
    then show ?thesis
      using adm write_effect [OF ok] by (auto simp: owned_by_def changed_jobs uint_pos split: sum.splits)
  next
    case (Op_Fail now i a mx err)
    then show ?thesis
      using adm write_effect [OF ok] by (auto simp: owned_by_def changed_jobs uint_pos)
  next
    case (Op_Sweep now mx)
    then show ?thesis
      using fl write_effect [OF ok] by (auto simp: expired_def changed_jobs)
  next
    case Op_Requeue
    then show ?thesis
      using fl write_effect [OF ok] by (auto simp: changed_jobs)
  qed simp
qed

section \<open>Rows over time\<close>

lemma job_of_distinct:
  assumes "store_inv d" "r \<in> set (db_rows d)"
  shows "job_of d (rw_id r) = Some (row_job r)"
  using assms find_row_distinct [of "db_rows d" "rw_id r" r] by (simp add: job_of_def store_inv_def)

lemma job_of_None: "job_of d i = None \<longleftrightarrow> i \<notin> rw_id ` set (db_rows d)"
  by (simp add: job_of_def find_row_None)

lemma job_of_SomeE:
  assumes "job_of d i = Some s"
  obtains r where "r \<in> set (db_rows d)" "rw_id r = i" "row_job r = s"
  using assms find_row_in by (auto simp: job_of_def)

text \<open>What happened between two states: jobs only moved along the machine, and new ones waited.\<close>

definition jobs_moved :: "db \<Rightarrow> db \<Rightarrow> bool" where
  "jobs_moved d d' \<longleftrightarrow> (\<forall>i. case job_of d' i of
     None \<Rightarrow> job_of d i = None
   | Some s' \<Rightarrow> job_step\<^sup>*\<^sup>* (case job_of d i of None \<Rightarrow> Waiting 0 | Some s \<Rightarrow> s) s')"

lemma jobs_moved_refl: "jobs_moved d d"
  by (auto simp: jobs_moved_def split: option.splits)

lemma jobs_moved_trans: "jobs_moved d d' \<Longrightarrow> jobs_moved d' d'' \<Longrightarrow> jobs_moved d d''"
  unfolding jobs_moved_def
proof (intro allI)
  fix i
  assume 1: "\<forall>i. case job_of d' i of None \<Rightarrow> job_of d i = None
      | Some s' \<Rightarrow> job_step\<^sup>*\<^sup>* (case job_of d i of None \<Rightarrow> Waiting 0 | Some s \<Rightarrow> s) s'"
    and 2: "\<forall>i. case job_of d'' i of None \<Rightarrow> job_of d' i = None
      | Some s' \<Rightarrow> job_step\<^sup>*\<^sup>* (case job_of d' i of None \<Rightarrow> Waiting 0 | Some s \<Rightarrow> s) s'"
  show "case job_of d'' i of None \<Rightarrow> job_of d i = None
      | Some s' \<Rightarrow> job_step\<^sup>*\<^sup>* (case job_of d i of None \<Rightarrow> Waiting 0 | Some s \<Rightarrow> s) s'"
    using 1 [rule_format, of i] 2 [rule_format, of i]
    by (auto split: option.splits intro: rtranclp_trans)
qed

lemma inserted_job:
  assumes "store_inv d" "n \<in> set (inserted op d)"
  shows "row_job n = Waiting 0 \<and> rw_id n \<notin> rw_id ` set (db_rows d)"
  using assms(2)
  by (rule_tac inserted_cases [of op d])
    (auto simp: row_job_def new_row_def conflicts_def)

lemma store_step_moves:
  assumes inv: "store_inv d" and adm: "store_adm op d"
  shows "jobs_moved d (store_step ser de op d)"
  unfolding jobs_moved_def
proof
  fix i
  let ?d = "store_step ser de op d"
  have inv': "store_inv ?d" by (rule store_step_inv [OF inv adm])
  show "case job_of ?d i of None \<Rightarrow> job_of d i = None
    | Some s' \<Rightarrow> job_step\<^sup>*\<^sup>* (case job_of d i of None \<Rightarrow> Waiting 0 | Some s \<Rightarrow> s) s'"
  proof (cases "job_of ?d i")
    case None
    then have "i \<notin> rw_id ` set (db_rows ?d)" using job_of_None by blast
    then have "job_of d i = None" by (simp add: job_of_None store_step_rows image_Un image_image)
    with None show ?thesis by simp
  next
    case (Some s')
    then obtain r' where r': "r' \<in> set (db_rows ?d)" "rw_id r' = i" "row_job r' = s'"
      by (rule job_of_SomeE)
    then consider r where "r \<in> set (db_rows d)" "r' = row_effect ser op d r" | "r' \<in> set (inserted op d)"
      by (auto simp: store_step_rows)
    then show ?thesis
    proof cases
      case 1
      with r' have "job_of d i = Some (row_job r)" using job_of_distinct [OF inv] by auto
      with Some row_effect_step [OF inv adm 1(1), of ser] 1 r' show ?thesis by auto
    next
      case 2
      with inserted_job [OF inv] r' have "s' = Waiting 0" "job_of d i = None"
        by (auto simp: job_of_None)
      with Some show ?thesis by simp
    qed
  qed
qed

lemma history_moves:
  "store_inv d \<Longrightarrow> all_admissible store_adm (store_step ser de) ops d \<Longrightarrow>
     jobs_moved d (exec_all (store_step ser de) ops d)"
  by (rule store.exec_all_rel)
    (auto intro: jobs_moved_refl jobs_moved_trans store_step_moves)

lemma moved_job:
  assumes "jobs_moved d d'" "job_of d i = Some s"
  obtains s' where "job_of d' i = Some s'" "job_step\<^sup>*\<^sup>* s s'"
  using assms by (force simp: jobs_moved_def split: option.splits)

text \<open>A finished row is never written again.\<close>

lemma done_row_effect:
  assumes "store_inv d" "r \<in> set (db_rows d)" "rw_status r = ''DONE''"
  shows "row_effect ser op d r = r"
proof (cases op)
  case (Op_Claim now lease)
  with queued_unique [of "db_rows d" r] assms show ?thesis by (auto simp: store_inv_def)
qed (use assms(3) in \<open>auto simp: expired_def split: sum.splits\<close>)

lemma done_row_kept:
  assumes "store_inv d" "r \<in> set (db_rows d)" "rw_status r = ''DONE''"
  shows "r \<in> set (db_rows (store_step ser de op d))"
  using assms done_row_effect [OF assms, of ser op] by (auto simp: store_step_rows image_iff intro: bexI [of _ r])

lemma done_kept:
  assumes "store_inv d" "all_admissible store_adm (store_step ser de) ops d"
    "r \<in> set (db_rows d)" "rw_status r = ''DONE''"
  shows "r \<in> set (db_rows (exec_all (store_step ser de) ops d))"
  using store.exec_all_keeps [of "\<lambda>d. r \<in> set (db_rows d)" ser de d ops] assms done_row_kept
  by blast

section \<open>Claims\<close>

text \<open>In a good state a claim cannot fail; it takes the first waiting row in queue order.\<close>

lemma source_exists:
  assumes "store_inv d" "i \<in> rw_id ` set (db_rows d)"
  obtains src where "store_get_source i d = Some src" "(i, src) \<in> set (db_sources d)"
proof -
  have "i \<in> fst ` set (db_sources d)"
    using assms by (metis list.set_map store_inv_def)
  then obtain src where "find (\<lambda>(j, _). j = i) (db_sources d) = Some (i, src)"
    by (cases "find (\<lambda>(j, _). j = i) (db_sources d)") (auto simp: find_None_iff find_Some_iff)
  moreover from this have "(i, src) \<in> set (db_sources d)"
    by (auto simp: find_Some_iff) (metis nth_mem)
  ultimately show thesis by (intro that) (auto simp: store_get_source_def)
qed

definition queued_rows :: "db \<Rightarrow> row list" where
  "queued_rows d = order_by_key (filter (\<lambda>r. rw_status r = ''QUEUED'') (db_rows d))"

lemma queued_rows_set: "set (queued_rows d) = {r \<in> set (db_rows d). rw_status r = ''QUEUED''}"
  by (auto simp: queued_rows_def order_by_key_def)

lemma claim_next_cases:
  assumes inv: "store_inv d"
  shows "claim_next now lease d = (case queued_rows d of
      [] \<Rightarrow> (Ok None, d)
    | r # _ \<Rightarrow> (Ok (Some \<lparr>jb_id = rw_id r, jb_problem = rw_problem r, jb_language = rw_language r,
          jb_source = the (store_get_source (rw_id r) d),
          jb_attempt = i64_as_u32 (rw_attempt r + 1)\<rparr>),
        d\<lparr>db_rows := map (\<lambda>x. if rw_id x = rw_id r then claim_row (i64_add now lease) x else x) (db_rows d)\<rparr>))"
proof (cases "queued_rows d")
  case Nil
  then show ?thesis by (simp add: claim_next_def oldest_queued_def queued_rows_def)
next
  case (Cons r rs)
  let ?f = "\<lambda>x. if rw_id x = rw_id r then claim_row (i64_add now lease) x else x"
  have o: "oldest_queued (db_rows d) = Some (rw_id r)"
    using Cons by (simp add: oldest_queued_def queued_rows_def)
  have r: "r \<in> set (db_rows d)"
    using Cons queued_rows_set [of d] by auto
  then obtain src where src: "store_get_source (rw_id r) d = Some src"
    using source_exists [OF inv, of "rw_id r"] by blast
  have "find_row (rw_id r) (db_rows d) = Some r"
    using inv r by (simp add: find_row_distinct store_inv_def)
  then have "find_row (rw_id r) (map ?f (db_rows d)) = Some (claim_row (i64_add now lease) r)"
    by (subst find_row_map) auto
  with Cons o src show ?thesis
    by (simp add: claim_next_def sql_update_def Let_def) (simp add: claim_row_def)
qed

end
