(* ===== verification/Server_Queue_Guarantees.thy ===== *)
theory Server_Queue_Guarantees
  imports Server_Queue
begin

text \<open>
  What the durable queue of \<open>crates/server/src/store.rs\<close> guarantees: its invariant, exclusive claims
  in the order of creation, and writes that are fenced by attempts.
\<close>

section \<open>A sample history\<close>

definition sample_writer :: json_writer where
  "sample_writer ts = Ok ''[]''"

definition sample_reader :: json_reader where
  "sample_reader s = (if s = ''[]'' then Some [] else None)"

definition sample_new :: new_submission where
  "sample_new = \<lparr>nw_user_id = ''local'', nw_problem = ''sum'', nw_problem_version = ''v1'',
     nw_language = ''python'', nw_source = ''print(1)'', nw_tests_total = 3,
     nw_idempotency_key = Some ''k''\<rparr>"

definition sample_result :: judge_result where
  "sample_result = \<lparr>jr_verdict = Accepted, jr_time_ms = 10, jr_memory_kb = 4096,
     jr_failed_test = None, jr_compile_output = None, jr_tests = [], jr_tests_total = 3\<rparr>"

definition sample_queued :: db where
  "sample_queued = snd (store_insert sample_reader ''s1'' 100 sample_new empty_db)"

definition sample_leased :: db where
  "sample_leased = snd (claim_next 200 1000 sample_queued)"

definition sample_done :: db where
  "sample_done = snd (store_finish sample_writer 300 ''s1'' 1 ''v1'' ''judge'' sample_result sample_leased)"

abbreviation sample_step :: "store_op \<Rightarrow> db \<Rightarrow> db" where
  "sample_step \<equiv> store_step sample_writer sample_reader"

definition sample_ops :: "store_op list" where
  "sample_ops = [Op_Insert ''s1'' 100 sample_new, Op_Claim 200 1000,
     Op_Progress 250 ''s1'' 1 S_Running 1 3 1000,
     Op_Finish 300 ''s1'' 1 ''v1'' ''judge'' sample_result, Op_Sweep 5000 3]"

lemma sample_admissible: "all_admissible store_adm sample_step sample_ops empty_db"
  by code_simp

lemma sample_queued_inv: "store_inv sample_queued"
  using store_step_inv [OF store_inv_empty, of "Op_Insert ''s1'' 100 sample_new" sample_writer sample_reader]
  by (simp add: sample_queued_def)

lemma sample_leased_inv: "store_inv sample_leased"
proof -
  have "store_adm (Op_Claim 200 1000) sample_queued" by code_simp
  from store_step_inv [OF sample_queued_inv this, of sample_writer sample_reader] show ?thesis
    by (simp add: sample_leased_def)
qed

lemma sample_done_inv: "store_inv sample_done"
proof -
  have "store_adm (Op_Finish 300 ''s1'' 1 ''v1'' ''judge'' sample_result) sample_leased" by code_simp
  from store_step_inv [OF sample_leased_inv this, of sample_writer sample_reader] show ?thesis
    by (simp add: sample_done_def)
qed

section \<open>The invariant\<close>

text \<open>C16: every history of operations from the empty database keeps the table well formed: ids
and idempotency keys are unique, every row has exactly one source, its status is one of the
four, it has a lease exactly while it is in flight, a verdict and a time of judgement exactly
when it is DONE, the verdict is a known code, and a row in flight was claimed at least once.\<close>

theorem store_stays_well_formed:
  assumes "all_admissible store_adm (store_step ser de) ops empty_db"
  shows "let d = exec_all (store_step ser de) ops empty_db in
    distinct (map rw_id (db_rows d)) \<and> distinct (keys_of (db_rows d)) \<and>
    map fst (db_sources d) = map rw_id (db_rows d) \<and>
    list_all (\<lambda>r. (\<exists>st. rw_status r = status_text st) \<and>
      (rw_lease_until_ms r \<noteq> None) = in_flight (rw_status r) \<and>
      (rw_verdict r \<noteq> None) = (rw_status r = ''DONE'') \<and>
      (rw_judged_at_ms r \<noteq> None) = (rw_status r = ''DONE'') \<and>
      (case rw_verdict r of None \<Rightarrow> True | Some c \<Rightarrow> \<exists>v. c = code v) \<and>
      (if in_flight (rw_status r) then 0 < rw_attempt r else 0 \<le> rw_attempt r)) (db_rows d)"
proof -
  have "\<exists>v. c = code v" if "from_code c \<noteq> None" for c
    using that verdict_codec.dec_Some_iff by auto
  with store.exec_all_good [OF store_inv_empty assms] show ?thesis
    by (fastforce simp: store_inv_def row_ok_def Let_def list_all_iff split: option.splits)
qed

theorem store_stays_well_formed_witness:
  "map fst (db_sources (exec_all sample_step sample_ops empty_db)) =
     map rw_id (db_rows (exec_all sample_step sample_ops empty_db))"
  using store_stays_well_formed [OF sample_admissible] by (simp add: Let_def)

text \<open>A verdict is final. Once a submission is DONE no operation of any worker, the sweeper
or a restart changes any column of its row again.\<close>

lemma verdict_is_final:
  assumes "store_inv d" and "all_admissible store_adm (store_step ser de) ops d"
    and "find_row i (db_rows d) = Some r" and "rw_status r = ''DONE''"
  shows "find_row i (db_rows (exec_all (store_step ser de) ops d)) = Some r"
proof -
  have r: "r \<in> set (db_rows d)" "rw_id r = i" using find_row_in [OF assms(3)] by simp_all
  have "store_inv (exec_all (store_step ser de) ops d)"
    using store.exec_all_good [OF assms(1,2)] .
  with done_kept [OF assms(1,2) r(1) assms(4)] r(2) show ?thesis
    by (simp add: find_row_distinct store_inv_def)
qed

lemma verdict_is_final_witness:
  "\<exists>r. find_row ''s1'' (db_rows sample_done) = Some r \<and>
    find_row ''s1'' (db_rows (exec_all sample_step [Op_Sweep 9000 3, Op_Requeue] sample_done)) = Some r"
proof -
  have "map_option rw_status (find_row ''s1'' (db_rows sample_done)) = Some ''DONE''" by code_simp
  then obtain r where r: "find_row ''s1'' (db_rows sample_done) = Some r" "rw_status r = ''DONE''"
    by auto
  have "all_admissible store_adm sample_step [Op_Sweep 9000 3, Op_Requeue] sample_done" by code_simp
  from verdict_is_final [OF sample_done_inv this r] r show ?thesis by blast
qed

section \<open>Fencing\<close>

lemma fenced_writes:
  assumes "store_inv d" and "job_of d i = Some s" and "uint a < job_attempt s"
  shows "map (row_effect ser (Op_Progress now i a st k n lease) d) (db_rows d) = db_rows d"
    and "filter (owned_by i a) (db_rows d) = []"
proof -
  have "\<not> owned_by i a r" if "r \<in> set (db_rows d)" for r
    using that assms job_of_distinct [OF assms(1) that] by (auto simp: owned_by_def)
  then show "filter (owned_by i a) (db_rows d) = []"
    and "map (row_effect ser (Op_Progress now i a st k n lease) d) (db_rows d) = db_rows d"
    by (auto simp: filter_empty_conv intro: map_idI)
qed

lemma sql_update_none:
  "filter p rows = [] \<Longrightarrow> (\<And>r. q r \<Longrightarrow> p r) \<Longrightarrow> sql_update q f rows = (rows, 0)"
  by (fastforce simp: sql_update_def filter_empty_conv intro!: map_idI)

lemma unowned_writes:
  assumes "filter (owned_by i a) (db_rows d) = []"
  shows "store_progress now i a st k n lease d = (False, d)"
    and "fail_attempt now i a mx err d = (None, d)"
    and "store_finish ser now i a pv jv res d =
      ((case ser (jr_tests res) of Err e \<Rightarrow> Err (Json e) | Ok j \<Rightarrow> Ok False), d)"
proof -
  have none: "sql_update (\<lambda>r. owned_by i a r \<and> P r) f (db_rows d) = (db_rows d, 0)" for P f
    using assms by (rule sql_update_none) simp
  show "store_progress now i a st k n lease d = (False, d)"
    by (simp add: store_progress_def none)
  show "fail_attempt now i a mx err d = (None, d)"
    by (simp add: fail_attempt_def none Let_def)
  show "store_finish ser now i a pv jv res d =
      ((case ser (jr_tests res) of Err e \<Rightarrow> Err (Json e) | Ok j \<Rightarrow> Ok False), d)"
    by (simp add: store_finish_def none split: sum.splits)
qed

text \<open>C13: writes are fenced by the attempt. Once a submission's attempt is past a token, so once
another claim took it over, then whatever happens next, a worker with the old token changes
nothing: its heartbeats return false, its failures None, its results are not applied.\<close>

theorem stale_token_writes_nothing:
  assumes "store_inv d" and "all_admissible store_adm (store_step ser de) ops d"
    and "job_of d i = Some s" and "uint a < job_attempt s"
  shows "let d' = exec_all (store_step ser de) ops d in
    store_progress now i a st k n lease d' = (False, d') \<and>
    fail_attempt now i a mx err d' = (None, d') \<and>
    snd (store_finish ser now i a pv jv res d') = d' \<and>
    fst (store_finish ser now i a pv jv res d') \<noteq> Ok True"
proof -
  let ?d = "exec_all (store_step ser de) ops d"
  obtain s' where s': "job_of ?d i = Some s'" "job_step\<^sup>*\<^sup>* s s'"
    using history_moves [OF assms(1,2)] assms(3) by (rule moved_job)
  have "uint a < job_attempt s'"
    using job_steps_attempt [OF s'(2)] assms(4) by linarith
  with fenced_writes(2) [OF store.exec_all_good [OF assms(1,2)] s'(1)]
  have "filter (owned_by i a) (db_rows ?d) = []" by blast
  from unowned_writes [OF this] show ?thesis by (simp add: Let_def split: sum.splits)
qed

text \<open>A sample in which the second worker holds the submission.\<close>

definition sample_retaken :: db where
  "sample_retaken = exec_all sample_step [Op_Sweep 5000 3, Op_Claim 6000 1000] sample_leased"

lemma sample_retaken_inv: "store_inv sample_retaken"
proof -
  have "all_admissible store_adm sample_step [Op_Sweep 5000 3, Op_Claim 6000 1000] sample_leased"
    by code_simp
  from store.exec_all_good [OF sample_leased_inv this] show ?thesis by (simp add: sample_retaken_def)
qed

theorem stale_token_writes_nothing_witness:
  "fail_attempt 7000 ''s1'' 1 3 ''boom'' (sample_step (Op_Sweep 9000 3) sample_retaken) =
     (None, sample_step (Op_Sweep 9000 3) sample_retaken)"
proof -
  have adm: "all_admissible store_adm sample_step [Op_Sweep 9000 3] sample_retaken" by code_simp
  have job: "job_of sample_retaken ''s1'' = Some (Leased 2)" by code_simp
  from stale_token_writes_nothing [OF sample_retaken_inv adm job, of 1 7000] show ?thesis
    by (simp add: Let_def)
qed

section \<open>Claims\<close>

text \<open>The tokens, of a submission and an attempt, that a history hands out.\<close>

fun claimed_by :: "store_op \<Rightarrow> db \<Rightarrow> (string \<times> u32) list" where
  "claimed_by (Op_Claim now lease) d =
     (case fst (claim_next now lease d) of Ok (Some j) \<Rightarrow> [(jb_id j, jb_attempt j)] | _ \<Rightarrow> [])"
| "claimed_by _ d = []"

fun claimed_tokens :: "json_writer \<Rightarrow> json_reader \<Rightarrow> store_op list \<Rightarrow> db \<Rightarrow> (string \<times> u32) list" where
  "claimed_tokens ser de [] d = []"
| "claimed_tokens ser de (op # ops) d =
     claimed_by op d @ claimed_tokens ser de ops (store_step ser de op d)"

lemma claimed_by_cases:
  obtains "claimed_by op d = []"
  | now lease j where "op = Op_Claim now lease" "fst (claim_next now lease d) = Ok (Some j)"
    "claimed_by op d = [(jb_id j, jb_attempt j)]"
proof (cases "claimed_by op d = []")
  case False
  then obtain now lease where op: "op = Op_Claim now lease" by (cases op) auto
  with False obtain j where "fst (claim_next now lease d) = Ok (Some j)"
    by (auto split: sum.splits option.splits)
  with op that(2) [of now lease j] show thesis by simp
qed (use that in blast)

lemma claim_token:
  assumes inv: "store_inv d" and adm: "store_adm (Op_Claim now lease) d"
    and c: "fst (claim_next now lease d) = Ok (Some j)"
  obtains r where "r \<in> set (db_rows d)" "rw_id r = jb_id j" "rw_status r = ''QUEUED''"
    "uint (jb_attempt j) = rw_attempt r + 1"
    "job_of (snd (claim_next now lease d)) (jb_id j) = Some (Leased (rw_attempt r + 1))"
proof -
  obtain r rs where q: "queued_rows d = r # rs"
    using c claim_next_cases [OF inv, of now lease] by (cases "queued_rows d") auto
  have r: "r \<in> set (db_rows d)" "rw_status r = ''QUEUED''"
    using queued_rows_set [of d] q by auto
  have a: "0 \<le> rw_attempt r" "rw_attempt r < 2 ^ 32 - 1"
    using inv r adm by (auto simp: store_inv_def row_ok_def list_all_iff)
  have j: "jb_id j = rw_id r" "uint (jb_attempt j) = rw_attempt r + 1"
    using c q a i64_as_u32_uint [of "rw_attempt r + 1"] by (auto simp: claim_next_cases [OF inv])
  have "find_row (rw_id r) (db_rows d) = Some r"
    using inv r by (simp add: find_row_distinct store_inv_def)
  then have "job_of (snd (claim_next now lease d)) (rw_id r) = Some (Leased (rw_attempt r + 1))"
    using q by (simp add: claim_next_cases [OF inv] job_of_def)
      (subst find_row_map, auto simp: row_job_def claim_row_def)
  with r j show thesis by (intro that) auto
qed

lemma claimed_by_job:
  assumes "store_inv d" "store_adm op d" "(i, a) \<in> set (claimed_by op d)"
  shows "\<exists>n. job_of d i = Some (Waiting n) \<and> uint a = n + 1 \<and>
    job_of (store_step ser de op d) i = Some (Leased (uint a))"
proof (rule claimed_by_cases [of op d])
  fix now lease j
  assume op: "op = Op_Claim now lease" and c: "fst (claim_next now lease d) = Ok (Some j)"
    and "claimed_by op d = [(jb_id j, jb_attempt j)]"
  with assms(3) have ia: "i = jb_id j" "a = jb_attempt j" by simp_all
  obtain r where r: "r \<in> set (db_rows d)" "rw_id r = jb_id j" "rw_status r = ''QUEUED''"
    "uint (jb_attempt j) = rw_attempt r + 1"
    "job_of (snd (claim_next now lease d)) (jb_id j) = Some (Leased (rw_attempt r + 1))"
    using claim_token [OF assms(1) _ c] assms(2) op by blast
  from job_of_distinct [OF assms(1) r(1)] r(2,3) have "job_of d i = Some (Waiting (rw_attempt r))"
    by (simp add: ia row_job_status)
  with r op ia show ?thesis by simp
qed (use assms(3) in simp)

lemma claimed_past:
  assumes "store_inv d" and "all_admissible store_adm (store_step ser de) ops d"
    and "(i, a) \<in> set (claimed_tokens ser de ops d)" and "job_of d i = Some s"
  shows "job_attempt s < uint a"
  using assms
proof (induction ops arbitrary: d s)
  case (Cons op ops)
  let ?d = "store_step ser de op d"
  have inv': "store_inv ?d" and adm: "store_adm op d" "all_admissible store_adm (store_step ser de) ops ?d"
    using Cons.prems store_step_inv by auto
  show ?case
  proof (cases "(i, a) \<in> set (claimed_by op d)")
    case True
    with claimed_by_job [OF Cons.prems(1) adm(1), of i a ser de] Cons.prems(4) show ?thesis by auto
  next
    case False
    obtain s' where s': "job_of ?d i = Some s'" "job_step\<^sup>*\<^sup>* s s'"
      using store_step_moves [OF Cons.prems(1) adm(1)] Cons.prems(4) by (rule moved_job)
    have "(i, a) \<in> set (claimed_tokens ser de ops ?d)"
      using Cons.prems(3) False by simp
    from Cons.IH [OF inv' adm(2) this s'(1)] job_steps_attempt [OF s'(2)] show ?thesis by linarith
  qed
qed simp

lemma claimed_distinct:
  assumes "store_inv d" and "all_admissible store_adm (store_step ser de) ops d"
  shows "distinct (claimed_tokens ser de ops d)"
  using assms
proof (induction ops arbitrary: d)
  case (Cons op ops)
  let ?d = "store_step ser de op d"
  have inv': "store_inv ?d" and adm: "store_adm op d" "all_admissible store_adm (store_step ser de) ops ?d"
    using Cons.prems store_step_inv by auto
  have "(i, a) \<notin> set (claimed_tokens ser de ops ?d)" if "(i, a) \<in> set (claimed_by op d)" for i a
    using claimed_by_job [OF Cons.prems(1) adm(1) that, of ser de] claimed_past [OF inv' adm(2), of i a]
    by fastforce
  moreover have "distinct (claimed_by op d)"
    by (rule claimed_by_cases [of op d]) simp_all
  ultimately show ?case using Cons.IH [OF inv' adm(2)] by auto
qed simp

text \<open>C10: claims are exclusive. In no history, however workers, sweeps, failures and restarts
interleave, is the same token handed out twice: every claim returns a pair of submission and
attempt that no other claim returned or will return.\<close>

theorem claims_are_exclusive:
  assumes "store_inv d" and "all_admissible store_adm (store_step ser de) ops d"
  shows "distinct (claimed_tokens ser de ops d)"
  using assms by (rule claimed_distinct)

theorem claims_are_exclusive_witness:
  "distinct (claimed_tokens sample_writer sample_reader sample_ops empty_db) \<and>
   claimed_tokens sample_writer sample_reader sample_ops empty_db \<noteq> []"
proof -
  have "claimed_tokens sample_writer sample_reader sample_ops empty_db \<noteq> []" by code_simp
  with claims_are_exclusive [OF store_inv_empty sample_admissible] show ?thesis by blast
qed

lemma queued_rows_sorted: "sorted (map row_key (queued_rows d))"
  by (simp add: queued_rows_def order_by_key_def)

text \<open>C30: a claim takes the oldest waiting submission. In a good state it cannot fail: it returns
nothing exactly when nothing waits, and otherwise a submission that no waiting one precedes in
the order of creation time and id, with its own source, leased under its next attempt, and no
other row changes.\<close>

theorem claim_takes_oldest:
  assumes "store_inv d" and "store_adm (Op_Claim now lease) d"
  shows "case claim_next now lease d of
      (Err e, d') \<Rightarrow> False
    | (Ok None, d') \<Rightarrow> d' = d \<and> list_all (\<lambda>r. rw_status r \<noteq> ''QUEUED'') (db_rows d)
    | (Ok (Some j), d') \<Rightarrow> \<exists>r. find_row (jb_id j) (db_rows d) = Some r \<and> rw_status r = ''QUEUED'' \<and>
        list_all (\<lambda>q. row_key r \<le> row_key q) (filter (\<lambda>q. rw_status q = ''QUEUED'') (db_rows d)) \<and>
        Some (jb_source j) = store_get_source (rw_id r) d \<and>
        jb_problem j = rw_problem r \<and> jb_language j = rw_language r \<and>
        uint (jb_attempt j) = rw_attempt r + 1 \<and>
        db_rows d' = map (\<lambda>x. if rw_id x = jb_id j then claim_row (i64_add now lease) x else x) (db_rows d)"
proof (cases "queued_rows d")
  case Nil
  then have "\<forall>r \<in> set (db_rows d). rw_status r \<noteq> ''QUEUED''"
    using queued_rows_set [of d] by auto
  with Nil show ?thesis by (simp add: claim_next_cases [OF assms(1)] list_all_iff)
next
  case (Cons r rs)
  have r: "r \<in> set (db_rows d)" "rw_status r = ''QUEUED''"
    using queued_rows_set [of d] Cons by auto
  then obtain src where src: "store_get_source (rw_id r) d = Some src"
    using source_exists [OF assms(1), of "rw_id r"] by blast
  have "find_row (rw_id r) (db_rows d) = Some r"
    using assms(1) r by (simp add: find_row_distinct store_inv_def)
  moreover have "row_key r \<le> row_key q" if "q \<in> set (db_rows d)" "rw_status q = ''QUEUED''" for q
  proof -
    have "q \<in> set (queued_rows d)" using that by (simp add: queued_rows_set)
    with queued_rows_sorted [of d] show ?thesis by (auto simp: Cons)
  qed
  moreover have "uint (i64_as_u32 (rw_attempt r + 1)) = rw_attempt r + 1"
    using assms r by (intro i64_as_u32_uint) (auto simp: store_inv_def row_ok_def list_all_iff)
  ultimately show ?thesis
    using Cons r src by (simp add: claim_next_cases [OF assms(1)] list_all_iff)
qed

theorem claim_takes_oldest_witness:
  "\<exists>j d'. claim_next 200 1000 sample_queued = (Ok (Some j), d') \<and> uint (jb_attempt j) = 1 \<and>
     Some (jb_source j) = store_get_source (jb_id j) sample_queued"
proof -
  have "store_adm (Op_Claim 200 1000) sample_queued" by code_simp
  note c = claim_takes_oldest [OF sample_queued_inv this]
  have "\<not> list_all (\<lambda>r. rw_status r \<noteq> ''QUEUED'') (db_rows sample_queued)"
    and "list_all (\<lambda>r. rw_attempt r = 0) (db_rows sample_queued)" by code_simp+
  with c find_row_in [of _ "db_rows sample_queued"] show ?thesis
    by (fastforce simp: list_all_iff split: prod.splits sum.splits option.splits)
qed

end
