(* ===== verification/Server_Recovery.thy ===== *)
theory Server_Recovery
  imports Server_Queue_Guarantees
begin

text \<open>
  Submission, recovery and reads of \<open>crates/server/src/store.rs\<close>: idempotent inserts, leases and
  heartbeats, the sweeper, restarts, bounded retries, and what \<open>get\<close> and \<open>list\<close> return.
\<close>

section \<open>Submitting\<close>

lemma find_key_row:
  "find_key (Some k) rows = Some r \<Longrightarrow> r \<in> set rows \<and> rw_idempotency_key r = Some k"
  by (auto simp: find_key_def find_Some_iff)

lemma key_unique:
  "distinct (keys_of rows) \<Longrightarrow> r \<in> set rows \<Longrightarrow> r' \<in> set rows \<Longrightarrow>
     rw_idempotency_key r = Some k \<Longrightarrow> rw_idempotency_key r' = Some k \<Longrightarrow> r = r'"
proof (induction rows)
  case (Cons x rows)
  have k: "keys_of (x # rows) = (case rw_idempotency_key x of None \<Rightarrow> [] | Some k \<Rightarrow> [k]) @ keys_of rows"
    by (simp add: keys_of_def List.map_filter_def split: option.splits)
  show ?case
  proof (cases "r = x \<or> r' = x")
    case True
    with Cons.prems k have "r = r'"
      using keys_of_in [of k rows] by (auto split: option.splits)
    then show ?thesis .
  next
    case False
    with Cons k show ?thesis by auto
  qed
qed simp

lemma find_key_unique:
  assumes "distinct (keys_of rows)" "r \<in> set rows" "rw_idempotency_key r = Some k"
  shows "find_key (Some k) rows = Some r"
proof -
  obtain r' where "find_key (Some k) rows = Some r'"
    using assms(2,3) by (cases "find_key (Some k) rows") (auto simp: find_key_def find_None_iff)
  with find_key_row [OF this] key_unique [OF assms(1,2) _ assms(3), of r'] show ?thesis by auto
qed

text \<open>A row is found again after any history, under its id and key, with its origin unchanged.\<close>

lemma row_persists:
  assumes "store_inv d" "all_admissible store_adm (store_step ser de) ops d" "r \<in> set (db_rows d)"
  shows "\<exists>r' \<in> set (db_rows (exec_all (store_step ser de) ops d)).
    rw_id r' = rw_id r \<and> rw_idempotency_key r' = rw_idempotency_key r \<and>
    rw_created_at_ms r' = rw_created_at_ms r \<and> rw_problem r' = rw_problem r \<and>
    rw_language r' = rw_language r"
  using assms
proof (induction ops arbitrary: d r)
  case (Cons op ops)
  let ?r = "row_effect ser op d r"
  have "store_inv (store_step ser de op d)" "?r \<in> set (db_rows (store_step ser de op d))"
    using Cons.prems store_step_inv by (auto simp: store_step_rows)
  with Cons.IH [of "store_step ser de op d" ?r] Cons.prems(2) show ?case by auto
qed auto

lemma new_row_simps [simp]: "rw_id (new_row i now new) = i"
  "rw_idempotency_key (new_row i now new) = nw_idempotency_key new"
  by (simp_all add: new_row_def)

lemma find_new_row:
  "find_row i rows = None \<Longrightarrow> find_row i (rows @ [new_row i now new]) = Some (new_row i now new)"
  by (induction rows) (auto simp: find_row_def split: if_splits)

lemma insert_result:
  assumes "store_insert de i now new d = (Ok (sub, b), d')" "store_inv d"
  obtains r where "r \<in> set (db_rows d')" "sub = row_to_submission de r"
    "nw_idempotency_key new \<noteq> None \<longrightarrow> rw_idempotency_key r = nw_idempotency_key new"
    "b \<longrightarrow> r = new_row i now new \<and> rw_id r = i \<and> db_rows d' = db_rows d @ [r] \<and>
       db_sources d' = db_sources d @ [(i, nw_source new)]"
proof (cases "find_key (nw_idempotency_key new) (db_rows d)")
  case None
  then have ins: "insert_row (new_row i now new) (db_rows d) = Ok (db_rows d @ [new_row i now new])"
    using assms(1) by (auto simp: store_insert_def insert_row_def split: if_splits)
  have free: "find_row i (db_rows d) = None"
    using ins by (auto simp: insert_row_def find_row_None list_ex_iff conflicts_def split: if_splits)
  have "find_row i (db_rows d @ [new_row i now new]) = Some (new_row i now new)"
    using free by (rule find_new_row)
  with None ins assms(1) show thesis
    by (intro that [of "new_row i now new"])
      (auto simp: store_insert_def insert_source_def split: if_splits)
next
  case (Some r)
  with assms(1) obtain k where k: "nw_idempotency_key new = Some k"
    by (auto simp: find_key_def split: option.splits)
  from Some assms(1) have "sub = row_to_submission de r" "\<not> b" "d' = d"
    by (auto simp: store_insert_def)
  with find_key_row [of k "db_rows d" r] Some k show thesis
    by (intro that [of r]) auto
qed

text \<open>Submission is idempotent. Once an insert with an idempotency key succeeded, then
whatever happens to the store in between, an insert with the same key changes nothing and
returns the original submission (same id, problem, language and creation time), not a new one.\<close>

lemma insert_is_idempotent:
  assumes "store_inv d" and "store_insert de i now new d = (Ok (sub, b), d')"
    and "nw_idempotency_key new = Some k" and "nw_idempotency_key new' = Some k"
    and "all_admissible store_adm (store_step ser de) ops d'"
  shows "\<exists>sub'. store_insert de i' now' new' (exec_all (store_step ser de) ops d') =
      (Ok (sub', False), exec_all (store_step ser de) ops d') \<and>
    sm_id sub' = sm_id sub \<and> sm_problem sub' = sm_problem sub \<and>
    sm_language sub' = sm_language sub \<and> sm_created_at_ms sub' = sm_created_at_ms sub"
proof -
  let ?d = "exec_all (store_step ser de) ops d'"
  have inv': "store_inv d'"
    using store_step_inv [OF assms(1), of "Op_Insert i now new" ser de] assms(2) by simp
  obtain r where r: "r \<in> set (db_rows d')" "sub = row_to_submission de r" "rw_idempotency_key r = Some k"
    using insert_result [OF assms(2,1)] assms(3) by auto
  obtain r' where r': "r' \<in> set (db_rows ?d)" "rw_id r' = rw_id r" "rw_idempotency_key r' = Some k"
    "rw_created_at_ms r' = rw_created_at_ms r" "rw_problem r' = rw_problem r" "rw_language r' = rw_language r"
    using row_persists [OF inv' assms(5) r(1)] r(3) by auto
  have "distinct (keys_of (db_rows ?d))"
    using store.exec_all_good [OF inv' assms(5)] by (simp add: store_inv_def)
  from find_key_unique [OF this r'(1,3)] r r' assms(4) show ?thesis
    by (simp add: store_insert_def row_to_submission_def)
qed

lemma insert_is_idempotent_witness:
  "\<exists>sub'. store_insert sample_reader ''s2'' 900 sample_new
      (exec_all sample_step [Op_Claim 200 1000, Op_Sweep 5000 3] sample_queued) =
    (Ok (sub', False), exec_all sample_step [Op_Claim 200 1000, Op_Sweep 5000 3] sample_queued) \<and>
    sm_id sub' = ''s1''"
proof -
  have ins: "store_insert sample_reader ''s1'' 100 sample_new empty_db =
      (Ok (row_to_submission sample_reader (new_row ''s1'' 100 sample_new), True), sample_queued)"
    by code_simp
  have adm: "all_admissible store_adm sample_step [Op_Claim 200 1000, Op_Sweep 5000 3] sample_queued"
    by code_simp
  have key: "nw_idempotency_key sample_new = Some ''k''"
    by (simp add: sample_new_def)
  from insert_is_idempotent [OF store_inv_empty ins key key adm, of "''s2''" 900]
  show ?thesis by (auto simp: row_to_submission_def)
qed

text \<open>A new submission is stored whole. In a good state, with a fresh id and no row under its
key, an insert succeeds; reading it back gives the submission the insert returned, QUEUED, not
yet attempted, with the given fields and number of tests, and its source gives the source.\<close>

lemma insert_then_read:
  assumes "store_inv d" and "i \<notin> rw_id ` set (db_rows d)"
    and "find_key (nw_idempotency_key new) (db_rows d) = None"
  shows "\<exists>sub d'. store_insert de i now new d = (Ok (sub, True), d') \<and>
    store_get de i d' = Some sub \<and> store_get_source i d' = Some (nw_source new) \<and>
    sm_id sub = i \<and> sm_problem sub = nw_problem new \<and> sm_language sub = nw_language new \<and>
    sm_problem_version sub = nw_problem_version new \<and> sm_tests_total sub = nw_tests_total new \<and>
    sm_status sub = S_Queued \<and> sm_verdict sub = None \<and> sm_attempt sub = 0 \<and>
    sm_created_at_ms sub = now \<and> queue_depth d' = queue_depth d + 1"
proof -
  let ?n = "new_row i now new"
  let ?d = "\<lparr>db_rows = db_rows d @ [?n], db_sources = db_sources d @ [(i, nw_source new)]\<rparr>"
  have "r \<in> set (db_rows d) \<Longrightarrow> \<not> conflicts ?n r" for r
    using assms(2,3) by (auto simp: conflicts_def find_key_def find_None_iff split: option.splits)
  then have ins: "insert_row ?n (db_rows d) = Ok (db_rows d @ [?n])"
    by (auto simp: insert_row_def list_ex_iff)
  have nosrc: "i \<notin> fst ` set (db_sources d)"
    using assms(1,2) by (metis list.set_map store_inv_def)
  then have src: "insert_source i (nw_source new) (db_sources d) = Ok (db_sources d @ [(i, nw_source new)])"
    by (force simp: insert_source_def list_ex_iff)
  have "find (\<lambda>(j, _). j = i) (db_sources d) = None"
    using nosrc by (force simp: find_None_iff)
  then have gsrc: "store_get_source i ?d = Some (nw_source new)"
    by (simp add: store_get_source_def find_append)
  have fr: "find_row i (db_rows d @ [?n]) = Some ?n"
    using assms(2) find_row_None [of i "db_rows d"] by (intro find_new_row) blast
  have "store_insert de i now new d = (Ok (row_to_submission de ?n, True), ?d)"
    using assms(3) ins src fr by (simp add: store_insert_def)
  with gsrc fr show ?thesis
    by (auto simp: store_get_def row_to_submission_def new_row_def queue_depth_def i64_as_u32_def)
qed

lemma insert_then_read_witness:
  "\<exists>sub d'. store_insert sample_reader ''s1'' 100 sample_new empty_db = (Ok (sub, True), d') \<and>
    store_get sample_reader ''s1'' d' = Some sub \<and> sm_tests_total sub = 3"
  using insert_then_read [OF store_inv_empty, of "''s1''" sample_new sample_reader 100]
  by (auto simp: empty_db_def find_key_def sample_new_def)

section \<open>Leases, the sweeper and restarts\<close>

lemma find_row_app: "find_row i xs = Some r \<Longrightarrow> find_row i (xs @ ys) = Some r"
  by (induction xs) (auto simp: find_row_def)

lemma rows_eq_jobs:
  assumes "store_inv d" "r \<in> set (db_rows d)"
  shows "find_row (rw_id r) (db_rows (store_step ser de op d)) = Some (row_effect ser op d r) \<and>
    job_of (store_step ser de op d) (rw_id r) = Some (row_job (row_effect ser op d r))"
proof -
  have "find_row (rw_id r) (db_rows d) = Some r"
    using assms by (simp add: find_row_distinct store_inv_def)
  then have "find_row (rw_id r) (map (row_effect ser op d) (db_rows d)) = Some (row_effect ser op d r)"
    by (subst find_row_map) auto
  then have "find_row (rw_id r) (db_rows (store_step ser de op d)) = Some (row_effect ser op d r)"
    by (simp add: store_step_rows find_row_app)
  then show ?thesis by (simp add: job_of_def)
qed

lemma sweep_report:
  "fst (store_sweep now mx d) =
     \<lparr>sp_requeued = length (filter (\<lambda>r. expired now r \<and> rw_attempt r < uint mx) (db_rows d)),
      sp_failed = length (filter (\<lambda>r. expired now r \<and> uint mx \<le> rw_attempt r) (db_rows d))\<rparr>"
proof -
  have f: "expired now (if expired now r \<and> uint mx \<le> rw_attempt r then sweep_fail_row now r else r) \<longleftrightarrow>
      expired now r \<and> rw_attempt r < uint mx" for r
    by (auto simp: expired_def sweep_fail_row_def)
  have "length (filter (expired now) (map (\<lambda>r. if expired now r \<and> uint mx \<le> rw_attempt r
        then sweep_fail_row now r else r) (db_rows d))) =
      length (filter (\<lambda>r. expired now r \<and> rw_attempt r < uint mx) (db_rows d))"
    by (simp add: filter_map comp_def f)
  then show ?thesis by (simp add: store_sweep_def sql_update_def)
qed

text \<open>C31: the sweeper recovers every expired lease and touches nothing else. After a sweep no
lease in flight is expired; each submission whose lease was expired is back in the queue, or is
judged IE when its attempts are used up; every other row is the same; and the report counts
the two groups.\<close>

theorem sweep_recovers_expired:
  assumes "store_inv d" and "store_sweep now mx d = (report, d')"
  shows "list_all (\<lambda>r. \<not> expired now r) (db_rows d') \<and>
    list_all (\<lambda>r. if expired now r
      then job_of d' (rw_id r) = Some (if uint mx \<le> rw_attempt r
        then Judged (rw_attempt r) (Some InternalError) else Waiting (rw_attempt r))
      else find_row (rw_id r) (db_rows d') = Some r) (db_rows d) \<and>
    sp_requeued report = length (filter (\<lambda>r. expired now r \<and> rw_attempt r < uint mx) (db_rows d)) \<and>
    sp_failed report = length (filter (\<lambda>r. expired now r \<and> uint mx \<le> rw_attempt r) (db_rows d))"
proof -
  have d': "d' = store_step ser de (Op_Sweep now mx) d" for ser de
    using assms(2) by simp
  have "\<not> expired now (row_effect ser (Op_Sweep now mx) d r)" for ser r
    by (auto simp: expired_def sweep_fail_row_def requeue_row_def)
  then have "list_all (\<lambda>r. \<not> expired now r) (db_rows d')"
    by (simp add: d' [of sample_writer sample_reader] store_step_rows list_all_iff del: store_step.simps row_effect.simps)
  moreover have "list_all (\<lambda>r. if expired now r
      then job_of d' (rw_id r) = Some (if uint mx \<le> rw_attempt r
        then Judged (rw_attempt r) (Some InternalError) else Waiting (rw_attempt r))
      else find_row (rw_id r) (db_rows d') = Some r) (db_rows d)"
    using rows_eq_jobs [OF assms(1), of _ sample_writer sample_reader "Op_Sweep now mx"]
    by (auto simp: list_all_iff changed_jobs d' [of sample_writer sample_reader]
        simp del: store_step.simps)
  moreover have "report = fst (store_sweep now mx d)"
    using assms(2) by simp
  ultimately show ?thesis by (simp add: sweep_report)
qed

theorem sweep_recovers_expired_witness:
  "\<exists>report d'. store_sweep 5000 3 sample_leased = (report, d') \<and> sp_requeued report = 1 \<and>
     list_all (\<lambda>r. \<not> expired 5000 r) (db_rows d')"
proof -
  obtain report d' where s: "store_sweep 5000 3 sample_leased = (report, d')" by fastforce
  have "length (filter (\<lambda>r. expired 5000 r \<and> rw_attempt r < uint (3 :: u32)) (db_rows sample_leased)) = 1"
    by code_simp
  with sweep_recovers_expired [OF sample_leased_inv s] s show ?thesis by simp
qed

text \<open>A heartbeat keeps the lease. When \<open>progress\<close> returns true at some time, then no sweep up
to the end of the lease it wrote touches the submission: it is still leased under that attempt,
in the status and with the progress the worker reported.\<close>

lemma heartbeat_keeps_lease:
  assumes "store_inv d" and "st = S_Compiling \<or> st = S_Running"
    and "store_progress now i a st k n lease d = (True, d')"
    and "now' \<le> i64_add now lease"
  shows "\<exists>r. find_row i (db_rows (snd (store_sweep now' mx d'))) = Some r \<and>
    rw_attempt r = uint a \<and> rw_status r = status_text st \<and>
    rw_tests_done r = u64_as_i64 k \<and> rw_tests_total r = u64_as_i64 n \<and>
    rw_lease_until_ms r = Some (i64_add now lease)"
proof -
  have step: "d' = store_step sample_writer sample_reader (Op_Progress now i a st k n lease) d"
    using assms(3) by simp
  have inv': "store_inv d'"
    unfolding step using assms(1,2) by (intro store_step_inv) auto
  have "filter (\<lambda>r. owned_by i a r \<and> in_flight (rw_status r)) (db_rows d) \<noteq> []"
    using assms(3) by (auto simp: store_progress_def sql_update_def Let_def)
  then obtain r where r: "r \<in> set (db_rows d)" "owned_by i a r" "in_flight (rw_status r)"
    by (auto simp: filter_empty_conv)
  let ?r = "row_effect sample_writer (Op_Progress now i a st k n lease) d r"
  have f: "find_row i (db_rows d') = Some ?r"
    using rows_eq_jobs [OF assms(1) r(1), of sample_writer sample_reader
        "Op_Progress now i a st k n lease"] r(2)
    by (simp add: step owned_by_def del: store_step.simps row_effect.simps)
  have live: "\<not> expired now' ?r"
    using r(2,3) assms(4) by (auto simp: expired_def null_less_def)
  have "?r \<in> set (db_rows d')" "rw_id ?r = i"
    using find_row_in [OF f] by simp_all
  then have "find_row i (db_rows (snd (store_sweep now' mx d'))) = Some ?r"
    using rows_eq_jobs [OF inv', of ?r sample_writer sample_reader "Op_Sweep now' mx"] live by auto
  with r(2,3) show ?thesis by (auto simp: owned_by_def)
qed

lemma heartbeat_keeps_lease_witness:
  "\<exists>r. find_row ''s1'' (db_rows (snd (store_sweep 1500 3
      (snd (store_progress 900 ''s1'' 1 S_Running 1 3 1000 sample_leased))))) = Some r \<and>
    rw_status r = ''RUNNING''"
proof -
  have "fst (store_progress 900 ''s1'' 1 S_Running 1 3 1000 sample_leased) = True" by code_simp
  then obtain d' where p: "store_progress 900 ''s1'' 1 S_Running 1 3 1000 sample_leased = (True, d')"
    by (metis prod.collapse)
  have "1500 \<le> i64_add 900 1000" by code_simp
  from heartbeat_keeps_lease [OF sample_leased_inv disjI2 [OF refl] p this, of 3] p show ?thesis
    by auto
qed

lemma owned_once:
  assumes "store_inv d" "find_row i (db_rows d) = Some r"
  shows "length (filter (\<lambda>x. owned_by i a x \<and> P x) (db_rows d)) = (if rw_attempt r = uint a \<and> P r then 1 else 0)"
proof -
  have r: "r \<in> set (db_rows d)" "rw_id r = i" using find_row_in [OF assms(2)] by simp_all
  have "distinct (map rw_id (db_rows d))" using assms(1) by (simp add: store_inv_def)
  from filter_neq_distinct_map [OF this r(1)]
  have one: "filter (\<lambda>x. rw_id x = i) (db_rows d) = [r]" by (simp add: r(2))
  have "filter (\<lambda>x. owned_by i a x \<and> P x) (db_rows d) =
      filter (\<lambda>x. rw_attempt x = uint a \<and> P x) (filter (\<lambda>x. rw_id x = i) (db_rows d))"
    by (simp add: owned_by_def conj_ac)
  with one show ?thesis by simp
qed

text \<open>A lost lease does not fence a worker until the next claim. The sweep that takes an
expired lease away keeps the attempt, so the worker that lost it still owns the token: a failure
it reports afterwards is recorded, with result QUEUED and not None, and a verdict it stores
afterwards is applied to the waiting submission.\<close>

lemma swept_token_still_writes:
  assumes "store_inv d" and "find_row i (db_rows d) = Some r" and "expired now r"
    and "rw_attempt r = uint a" and "a < mx" and "ser (jr_tests res) = Ok j"
  shows "fst (fail_attempt now' i a mx err (snd (store_sweep now mx d))) = Some S_Queued \<and>
    fst (store_finish ser now' i a pv jv res (snd (store_sweep now mx d))) = Ok True"
proof -
  have r: "r \<in> set (db_rows d)" "rw_id r = i" using find_row_in [OF assms(2)] by simp_all
  let ?d = "store_step ser sample_reader (Op_Sweep now mx) d"
  have inv': "store_inv ?d" by (rule store_step_inv [OF assms(1)]) simp
  have eff: "row_effect ser (Op_Sweep now mx) d r = requeue_row r"
    using assms(3-5) by (simp add: word_less_def)
  with rows_eq_jobs [OF assms(1) r(1), of ser sample_reader "Op_Sweep now mx"] r
  have f: "find_row i (db_rows ?d) = Some (requeue_row r)" by (simp del: store_step.simps)
  have "length (filter (\<lambda>x. owned_by i a x \<and> rw_status x \<noteq> ''DONE'') (db_rows ?d)) = 1"
    using owned_once [OF inv' f, of a "\<lambda>x. rw_status x \<noteq> ''DONE''"] assms(4)
    by (simp add: requeue_row_def)
  with assms(5,6) show ?thesis
    by (simp add: fail_attempt_def store_finish_def sql_update_def Let_def not_le)
qed

lemma swept_token_still_writes_witness:
  "fst (fail_attempt 6000 ''s1'' 1 3 ''boom'' (snd (store_sweep 5000 3 sample_leased))) = Some S_Queued"
proof -
  have "map_option (\<lambda>r. (expired 5000 r, rw_attempt r)) (find_row ''s1'' (db_rows sample_leased)) =
      Some (True, 1)" by code_simp
  then obtain r where r: "find_row ''s1'' (db_rows sample_leased) = Some r" "expired 5000 r"
      "rw_attempt r = uint (1 :: u32)" by auto
  from swept_token_still_writes [OF sample_leased_inv r, of 3 sample_writer sample_result "''[]''"]
  show ?thesis by (simp add: sample_writer_def)
qed

text \<open>A restart recovers every job. \<open>requeue_inflight\<close> puts each submission in flight back in
the queue with its attempt unchanged, leaves every other row as it is, leaves nothing in
flight, and returns how many it recovered, whatever attempts they have used.\<close>

lemma restart_requeues_inflight:
  assumes "store_inv d" and "requeue_inflight d = (n, d')"
  shows "n = length (filter (\<lambda>r. in_flight (rw_status r)) (db_rows d)) \<and>
    list_all (\<lambda>r. \<not> in_flight (rw_status r)) (db_rows d') \<and>
    list_all (\<lambda>r. if in_flight (rw_status r)
      then job_of d' (rw_id r) = Some (Waiting (rw_attempt r))
      else find_row (rw_id r) (db_rows d') = Some r) (db_rows d)"
proof -
  have d': "d' = store_step sample_writer sample_reader Op_Requeue d"
    using assms(2) by simp
  have "\<not> in_flight (rw_status (row_effect sample_writer Op_Requeue d r))" for r
    by (simp add: requeue_row_def)
  then have "list_all (\<lambda>r. \<not> in_flight (rw_status r)) (db_rows d')"
    by (simp add: d' store_step_rows list_all_iff del: store_step.simps row_effect.simps)
  moreover have "list_all (\<lambda>r. if in_flight (rw_status r)
      then job_of d' (rw_id r) = Some (Waiting (rw_attempt r))
      else find_row (rw_id r) (db_rows d') = Some r) (db_rows d)"
    using rows_eq_jobs [OF assms(1), of _ sample_writer sample_reader Op_Requeue]
    by (auto simp: list_all_iff changed_jobs d' simp del: store_step.simps)
  moreover have "n = length (filter (\<lambda>r. in_flight (rw_status r)) (db_rows d))"
    using assms(2) by (auto simp: requeue_inflight_def sql_update_def)
  ultimately show ?thesis by blast
qed

lemma restart_requeues_inflight_witness:
  "\<exists>d'. requeue_inflight sample_leased = (1, d') \<and> list_all (\<lambda>r. \<not> in_flight (rw_status r)) (db_rows d')"
proof -
  obtain n d' where q: "requeue_inflight sample_leased = (n, d')" by fastforce
  have "length (filter (\<lambda>r. in_flight (rw_status r)) (db_rows sample_leased)) = 1" by code_simp
  with restart_requeues_inflight [OF sample_leased_inv q] q show ?thesis by simp
qed

section \<open>Retries are bounded\<close>

text \<open>The operations of a server configured with \<open>mx\<close> attempts; 0 is the limit of a permanent
failure. \<open>restarts\<close> counts the restarts of a history.\<close>

fun uses_max :: "u32 \<Rightarrow> store_op \<Rightarrow> bool" where
  "uses_max mx (Op_Fail now i a m err) \<longleftrightarrow> m = mx \<or> m = 0"
| "uses_max mx (Op_Sweep now m) \<longleftrightarrow> m = mx"
| "uses_max mx _ \<longleftrightarrow> True"

definition restarts :: "store_op list \<Rightarrow> int" where
  "restarts ops = int (length (filter (\<lambda>op. op = Op_Requeue) ops))"

definition attempts_below :: "int \<Rightarrow> db \<Rightarrow> bool" where
  "attempts_below b d \<longleftrightarrow>
     (\<forall>r \<in> set (db_rows d). if rw_status r = ''QUEUED'' then rw_attempt r < b else rw_attempt r \<le> b)"

lemma attempts_step:
  assumes inv: "store_inv d" and adm: "store_adm op d" and mx: "uses_max mx op"
    and b: "uint mx \<le> b" "0 < b" and d: "attempts_below b d"
  shows "attempts_below (b + restarts [op]) (store_step ser de op d)"
proof -
  let ?b = "b + restarts [op]"
  let ?ok = "\<lambda>b r. if rw_status r = ''QUEUED'' then rw_attempt r < b else rw_attempt r \<le> b"
  have old: "?ok ?b (row_effect ser op d r)" if r: "r \<in> set (db_rows d)" for r
  proof -
    have rb: "?ok b r" using d r by (auto simp: attempts_below_def)
    show ?thesis
    proof (cases op)
      case (Op_Claim now lease)
      with rb queued_unique [of "db_rows d" r] inv r show ?thesis
        by (auto simp: claim_row_def restarts_def store_inv_def)
    next
      case (Op_Fail now i a m err)
      with rb mx b show ?thesis
        by (auto simp: row_changes restarts_def not_le word_less_def split: if_splits)
    next
      case (Op_Progress now i a st k n lease)
      with rb adm show ?thesis by (auto simp: restarts_def split: if_splits)
    qed (use rb mx b in \<open>auto simp: row_changes restarts_def in_flight_def split: sum.splits if_splits\<close>)
  qed
  moreover have "?ok ?b r" if "r \<in> set (inserted op d)" for r
    using that b by (rule_tac inserted_cases [of op d]) (auto simp: new_row_def restarts_def)
  ultimately show ?thesis by (auto simp: attempts_below_def store_step_rows)
qed

lemma attempts_history:
  assumes "store_inv d" "all_admissible store_adm (store_step ser de) ops d"
    "list_all (uses_max mx) ops" "uint mx \<le> b" "0 < b" "attempts_below b d"
  shows "attempts_below (b + restarts ops) (exec_all (store_step ser de) ops d)"
  using assms
proof (induction ops arbitrary: d b)
  case (Cons op ops)
  have "0 \<le> restarts [op]" and r: "restarts (op # ops) = restarts [op] + restarts ops"
    by (simp_all add: restarts_def)
  have adm: "store_adm op d" "all_admissible store_adm (store_step ser de) ops (store_step ser de op d)"
    and mx: "uses_max mx op" "list_all (uses_max mx) ops"
    using Cons.prems by simp_all
  have "attempts_below (b + restarts [op] + restarts ops)
      (exec_all (store_step ser de) ops (store_step ser de op d))"
  proof (rule Cons.IH [OF _ adm(2) mx(2)])
    show "store_inv (store_step ser de op d)" by (rule store_step_inv [OF Cons.prems(1) adm(1)])
    show "attempts_below (b + restarts [op]) (store_step ser de op d)"
      by (rule attempts_step [OF Cons.prems(1) adm(1) mx(1) Cons.prems(4-6)])
  qed (use \<open>0 \<le> restarts [op]\<close> Cons.prems(4,5) in linarith)+
  with r show ?case by (simp add: algebra_simps)
qed (simp add: restarts_def)

text \<open>C34: retries are bounded, per run of the server. With a positive limit on attempts, no
history takes any submission beyond that limit plus the number of restarts in the history: the
sweeper and failed attempts give up in time, while a restart grants one attempt more.\<close>

theorem retries_are_bounded:
  assumes "all_admissible store_adm (store_step ser de) ops empty_db"
    and "list_all (uses_max mx) ops" and "0 < mx"
    and "find_row i (db_rows (exec_all (store_step ser de) ops empty_db)) = Some r"
  shows "rw_attempt r \<le> uint mx + restarts ops"
proof -
  have start: "attempts_below (uint mx) empty_db" by (simp add: attempts_below_def empty_db_def)
  have pos: "0 < uint mx" using assms(3) by (rule uint_pos)
  have "attempts_below (uint mx + restarts ops) (exec_all (store_step ser de) ops empty_db)"
    by (rule attempts_history [OF store_inv_empty assms(1,2) order_refl pos start])
  then have "if rw_status r = ''QUEUED'' then rw_attempt r < uint mx + restarts ops
      else rw_attempt r \<le> uint mx + restarts ops"
    using find_row_in [OF assms(4)] unfolding attempts_below_def by blast
  then show ?thesis by (metis less_imp_le)
qed

definition crash_loop :: "store_op list" where
  "crash_loop = [Op_Insert ''s1'' 100 sample_new, Op_Claim 200 1000, Op_Requeue, Op_Claim 300 1000,
     Op_Requeue, Op_Claim 400 1000]"

text \<open>The bound is met: two restarts and a limit of one attempt give three attempts.\<close>

theorem retries_are_bounded_witness:
  "\<exists>r. find_row ''s1'' (db_rows (exec_all sample_step crash_loop empty_db)) = Some r \<and>
     rw_attempt r \<le> uint (1 :: u32) + restarts crash_loop \<and> rw_attempt r = 3"
proof -
  have "map_option rw_attempt (find_row ''s1'' (db_rows (exec_all sample_step crash_loop empty_db))) = Some 3"
    and adm: "all_admissible store_adm sample_step crash_loop empty_db"
    and mx: "list_all (uses_max 1) crash_loop" by code_simp+
  then obtain r where r: "find_row ''s1'' (db_rows (exec_all sample_step crash_loop empty_db)) = Some r"
      "rw_attempt r = 3" by auto
  from retries_are_bounded [OF adm mx _ r(1)] r show ?thesis by simp
qed

end
