(* ===== verification/Server_Reads.thy ===== *)
theory Server_Reads
  imports Server_Recovery
begin

text \<open>
  What is read back from the store of \<open>crates/server/src/store.rs\<close>: a stored result comes back
  as it was produced, and a listing is the newest part of what matches, newest first.
\<close>

section \<open>Results\<close>

text \<open>C35: a stored result is read back as it was judged. When \<open>finish\<close> reports that it applied, a
read returns the submission DONE with the verdict, the times and memory bit by bit, the failed
test, compiler output, counts, problem and judge version of the result and, when the JSON reader
inverts the writer on them, all test results.\<close>

theorem finish_then_read:
  assumes "store_inv d" and "store_finish ser now i a pv jv res d = (Ok True, d')"
    and "ser (jr_tests res) = Ok j" and "de j = Some (jr_tests res)"
  shows "\<exists>sub. store_get de i d' = Some sub \<and> sm_id sub = i \<and> sm_status sub = S_Done \<and>
    sm_verdict sub = Some (jr_verdict res) \<and> sm_time_ms sub = Some (jr_time_ms res) \<and>
    sm_memory_kb sub = Some (jr_memory_kb res) \<and> sm_failed_test sub = jr_failed_test res \<and>
    sm_compile_output sub = jr_compile_output res \<and> sm_tests sub = Some (jr_tests res) \<and>
    sm_tests_done sub = of_nat (length (jr_tests res)) \<and>
    sm_tests_total sub = of_nat (jr_tests_total res) \<and> sm_problem_version sub = pv \<and>
    sm_judge_version sub = Some jv \<and> sm_judged_at_ms sub = Some now \<and> sm_attempt sub = a"
proof -
  have step: "d' = store_step ser de (Op_Finish now i a pv jv res) d"
    using assms(2) by simp
  have "filter (\<lambda>r. owned_by i a r \<and> rw_status r \<noteq> ''DONE'') (db_rows d) \<noteq> []"
    using assms(2,3) by (auto simp: store_finish_def sql_update_def Let_def)
  then obtain r where r: "r \<in> set (db_rows d)" "owned_by i a r" "rw_status r \<noteq> ''DONE''"
    by (auto simp: filter_empty_conv)
  have "row_effect ser (Op_Finish now i a pv jv res) d r = finish_row now pv jv j res r"
    using r assms(3) by simp
  then have "find_row i (db_rows d') = Some (finish_row now pv jv j res r)"
    using rows_eq_jobs [OF assms(1) r(1), of ser de "Op_Finish now i a pv jv res"] r(2)
    by (simp add: step owned_by_def del: store_step.simps row_effect.simps)
  with r(2) assms(4) show ?thesis
    by (auto simp: store_get_def row_to_submission_def finish_row_def owned_by_def
        i64_as_u64_def i64_as_u32_def u64_as_i64_def)
qed

theorem finish_then_read_witness:
  "\<exists>sub. store_get sample_reader ''s1'' sample_done = Some sub \<and> sm_verdict sub = Some Accepted \<and>
     sm_time_ms sub = Some 10 \<and> sm_tests sub = Some []"
proof -
  have "fst (store_finish sample_writer 300 ''s1'' 1 ''v1'' ''judge'' sample_result sample_leased) = Ok True"
    by code_simp
  then have f: "store_finish sample_writer 300 ''s1'' 1 ''v1'' ''judge'' sample_result sample_leased =
      (Ok True, sample_done)"
    by (metis prod.collapse sample_done_def)
  have "sample_writer (jr_tests sample_result) = Ok ''[]''" "sample_reader ''[]'' = Some (jr_tests sample_result)"
    by (simp_all add: sample_writer_def sample_reader_def sample_result_def)
  from finish_then_read [where de = sample_reader, OF sample_leased_inv f this] show ?thesis
    by (auto simp: sample_result_def)
qed

section \<open>Listings\<close>

definition matches :: "string option \<Rightarrow> row \<Rightarrow> bool" where
  "matches problem r \<longleftrightarrow> problem = None \<or> problem = Some (rw_problem r)"

definition sub_key :: "submission \<Rightarrow> queue_key" where
  "sub_key s = Queue_Key (sm_created_at_ms s) (sm_id s)"

lemma row_key_inj: "distinct (map rw_id rows) \<Longrightarrow> distinct (map row_key rows)"
  by (auto simp: distinct_map inj_on_def row_key_def)

lemma ordered_distinct:
  "distinct (map rw_id rows) \<Longrightarrow> sorted_wrt (<) (map row_key (order_by_key rows))"
  by (simp add: strict_sorted_iff order_by_key_def row_key_inj)
    (metis distinct_map row_key_inj distinct_sort set_sort)

text \<open>A listing is the newest part of what matches, newest first. It has as many entries as
match, up to the limit; its entries are strictly descending by creation time and id; they are
the matching rows without their per-test details; and every matching row that is left out is
older than every entry.\<close>

lemma list_is_newest_first:
  assumes "store_inv d"
  shows "let xs = store_list de problem limit d;
      ms = filter (matches problem) (db_rows d)
    in length xs = min (unat limit) (length ms) \<and>
      sorted_wrt (\<lambda>a b. sub_key b < sub_key a) xs \<and>
      list_all (\<lambda>s. sm_tests s = None \<and> sm_compile_output s = None \<and>
        (\<exists>r. find_row (sm_id s) ms = Some r \<and>
          s = (row_to_submission de r)\<lparr>sm_tests := None, sm_compile_output := None\<rparr>)) xs \<and>
      list_all (\<lambda>r. list_ex (\<lambda>s. sm_id s = rw_id r) xs \<or> list_all (\<lambda>s. row_key r < sub_key s) xs) ms"
proof -
  define ms where "ms = filter (matches problem) (db_rows d)"
  define view where "view r = (row_to_submission de r)\<lparr>sm_tests := None, sm_compile_output := None\<rparr>" for r
  define os where "os = rev (order_by_key ms)"
  have dist: "distinct (map rw_id ms)"
    using assms by (simp add: ms_def store_inv_def distinct_map_filter_other)
  have xs: "store_list de problem limit d = map view (take (unat limit) os)"
    by (simp add: store_list_def view_def os_def ms_def matches_def [abs_def])
  have view_simps: "sub_key (view r) = row_key r" "sm_id (view r) = rw_id r" for r
    by (simp_all add: view_def sub_key_def row_key_def row_to_submission_def)
  have set_os: "set os = set ms" and len: "length os = length ms"
    by (simp_all add: os_def order_by_key_def)
  have desc: "sorted_wrt (\<lambda>a b. row_key b < row_key a) os"
    using ordered_distinct [OF dist] by (simp add: os_def sorted_wrt_rev sorted_wrt_map)
  have "sorted_wrt (\<lambda>a b. sub_key b < sub_key a) (map view (take (unat limit) os))"
    using desc by (simp add: sorted_wrt_map view_simps sorted_wrt_take)
  moreover have "find_row (rw_id r) ms = Some r" if "r \<in> set (take (unat limit) os)" for r
    using that set_os in_set_takeD [of r "unat limit" os] dist by (auto simp: find_row_distinct)
  moreover have "r \<in> set (take (unat limit) os) \<or> (\<forall>s \<in> set (take (unat limit) os). row_key r < row_key s)"
    if "r \<in> set ms" for r
  proof -
    have os: "os = take (unat limit) os @ drop (unat limit) os" by simp
    with that set_os have "r \<in> set (take (unat limit) os) \<or> r \<in> set (drop (unat limit) os)"
      by (metis Un_iff set_append)
    moreover have "row_key b < row_key a"
      if "a \<in> set (take (unat limit) os)" "b \<in> set (drop (unat limit) os)" for a b
      using desc that by (subst (asm) os, subst (asm) sorted_wrt_append) blast
    ultimately show ?thesis by blast
  qed
  ultimately show ?thesis
    unfolding xs ms_def [symmetric] Let_def
    by (auto simp: list_all_iff list_ex_iff view_simps len)
      (auto simp: view_def)
qed

lemma list_is_newest_first_witness:
  "length (store_list sample_reader None 50 sample_done) = 1 \<and>
   sorted_wrt (\<lambda>a b. sub_key b < sub_key a) (store_list sample_reader None 50 sample_done)"
proof -
  have "length (filter (matches None) (db_rows sample_done)) = 1" by code_simp
  with list_is_newest_first [OF sample_done_inv, of sample_reader None 50] show ?thesis
    by (simp add: Let_def)
qed

end
