(* ===== verification/Server_Runs.thy ===== *)
theory Server_Runs
  imports Judge_Pipeline Server_Store "HOL-Library.AList"
begin

text \<open>
  \<open>crates/server/src/runs.rs\<close>: the in-memory lane of interactive runs, a bounded queue of jobs
  and a table of records that the sweeper prunes. The \<open>HashMap\<close> is an association list with
  distinct keys; instants are nanoseconds of the monotonic clock, and with the fresh UUID and
  the wall clock they are arguments. The mutex makes every operation one step.
\<close>

section \<open>Data\<close>

record run_job =
  rj_id :: string
  rj_language :: string
  rj_source :: string
  rj_tests :: "test_case list"
  rj_time_limit_ms :: u64
  rj_memory_limit_kb :: u64
  rj_comparer :: comparer

record run_record =
  rr_id :: string
  rr_status :: status
  rr_result :: "judge_result option"
  rr_error :: "string option"
  rr_created_at_ms :: i64
  rr_created :: nat

datatype queue_full = QueueFull

record run_store =
  rs_capacity :: nat
  rs_ttl :: duration
  rs_queue :: "run_job list"
  rs_records :: "(string \<times> run_record) list"

section \<open>Operations\<close>

definition run_store_new :: "nat \<Rightarrow> duration \<Rightarrow> run_store" where
  "run_store_new capacity ttl =
     \<lparr>rs_capacity = capacity, rs_ttl = ttl, rs_queue = [], rs_records = []\<rparr>"

definition new_record :: "string \<Rightarrow> i64 \<Rightarrow> nat \<Rightarrow> run_record" where
  "new_record i now instant = \<lparr>rr_id = i, rr_status = S_Queued, rr_result = None, rr_error = None,
     rr_created_at_ms = now, rr_created = instant\<rparr>"

definition run_submit ::
  "string \<Rightarrow> i64 \<Rightarrow> nat \<Rightarrow> run_job \<Rightarrow> run_store \<Rightarrow> (queue_full + run_record) \<times> run_store" where
  "run_submit i now instant job s =
     (if rs_capacity s \<le> length (rs_queue s) then (Err QueueFull, s)
      else (Ok (new_record i now instant),
            s\<lparr>rs_records := AList.update i (new_record i now instant) (rs_records s),
              rs_queue := rs_queue s @ [job\<lparr>rj_id := i\<rparr>]\<rparr>))"

text \<open>\<open>get_mut\<close> and an assignment: nothing happens when the record is gone.\<close>

definition modify_record :: "string \<Rightarrow> (run_record \<Rightarrow> run_record) \<Rightarrow> run_store \<Rightarrow> run_store" where
  "modify_record i f s =
     (case map_of (rs_records s) i of
        None \<Rightarrow> s
      | Some r \<Rightarrow> s\<lparr>rs_records := AList.update i (f r) (rs_records s)\<rparr>)"

definition run_pop :: "run_store \<Rightarrow> run_job option \<times> run_store" where
  "run_pop s =
     (case rs_queue s of
        [] \<Rightarrow> (None, s)
      | job # rest \<Rightarrow>
          (Some job, modify_record (rj_id job) (rr_status_update (\<lambda>_. S_Running)) (s\<lparr>rs_queue := rest\<rparr>)))"

definition run_complete :: "string \<Rightarrow> string + judge_result \<Rightarrow> run_store \<Rightarrow> run_store" where
  "run_complete i outcome =
     modify_record i (\<lambda>r. case outcome of
        Ok result \<Rightarrow> r\<lparr>rr_status := S_Done, rr_result := Some result\<rparr>
      | Err err \<Rightarrow> r\<lparr>rr_status := S_Done, rr_error := Some err\<rparr>)"

definition run_get :: "string \<Rightarrow> run_store \<Rightarrow> run_record option" where
  "run_get i s = map_of (rs_records s) i"

definition run_queue_depth :: "run_store \<Rightarrow> nat" where
  "run_queue_depth s = length (rs_queue s)"

text \<open>\<open>Instant::elapsed\<close> saturates at zero, as subtraction on \<open>nat\<close> does.\<close>

definition run_prune :: "nat \<Rightarrow> run_store \<Rightarrow> nat \<times> run_store" where
  "run_prune instant s =
     (let kept = filter (\<lambda>(_, r). rr_status r \<noteq> S_Done \<or> instant - rr_created r < rs_ttl s) (rs_records s)
      in (length (rs_records s) - length kept, s\<lparr>rs_records := kept\<rparr>))"

section \<open>Bounded queues\<close>

text \<open>
  The contract of a bounded first-in first-out lane: \<open>put\<close> refuses exactly when the lane is full,
  \<open>pop\<close> finds nothing exactly when it is empty. The order of a whole history follows.
\<close>

fun lane_run ::
  "('a \<Rightarrow> 's \<Rightarrow> 's option) \<Rightarrow> ('s \<Rightarrow> ('x \<times> 's) option) \<Rightarrow> ('a \<Rightarrow> 'x) \<Rightarrow> 'a option list \<Rightarrow> 's \<Rightarrow>
   'x list \<times> 'x list \<times> 's" where
  "lane_run put pop item [] s = ([], [], s)"
| "lane_run put pop item (Some a # ops) s =
     (case put a s of
        None \<Rightarrow> lane_run put pop item ops s
      | Some s' \<Rightarrow> (let (ins, outs, t) = lane_run put pop item ops s' in (item a # ins, outs, t)))"
| "lane_run put pop item (None # ops) s =
     (case pop s of
        None \<Rightarrow> lane_run put pop item ops s
      | Some (x, s') \<Rightarrow> (let (ins, outs, t) = lane_run put pop item ops s' in (ins, x # outs, t)))"

locale bounded_lane =
  fixes put :: "'a \<Rightarrow> 's \<Rightarrow> 's option"
    and pop :: "'s \<Rightarrow> ('x \<times> 's) option"
    and item :: "'a \<Rightarrow> 'x"
    and contents :: "'s \<Rightarrow> 'x list"
    and capacity :: "'s \<Rightarrow> nat"
  assumes put_full: "put a s = None \<longleftrightarrow> capacity s \<le> length (contents s)"
    and put_appends: "put a s = Some s' \<Longrightarrow> contents s' = contents s @ [item a] \<and> capacity s' = capacity s"
    and pop_empty: "pop s = None \<longleftrightarrow> contents s = []"
    and pop_first: "pop s = Some (x, s') \<Longrightarrow> contents s = x # contents s' \<and> capacity s' = capacity s"
begin

lemma lane_step_cases:
  assumes "lane_run put pop item (op # ops) s = (ins, outs, t)"
  obtains (refused) "lane_run put pop item ops s = (ins, outs, t)"
  | (accepted) a s' ins' where "put a s = Some s'" "ins = item a # ins'"
      "lane_run put pop item ops s' = (ins', outs, t)"
  | (taken) x s' outs' where "pop s = Some (x, s')" "outs = x # outs'"
      "lane_run put pop item ops s' = (ins, outs', t)"
proof (cases op)
  case None
  with assms refused taken show thesis by (cases "pop s") (auto split: prod.splits)
next
  case (Some a)
  with assms refused accepted show thesis by (cases "put a s") (auto split: prod.splits)
qed

lemma lane_conserves:
  "lane_run put pop item ops s = (ins, outs, t) \<Longrightarrow> contents s @ ins = outs @ contents t"
proof (induction ops arbitrary: s ins outs)
  case (Cons op ops)
  from Cons.prems show ?case
  proof (cases rule: lane_step_cases)
    case refused
    then show ?thesis by (rule Cons.IH)
  next
    case (accepted a s' ins')
    with Cons.IH [OF accepted(3)] put_appends [OF accepted(1)] show ?thesis by simp
  next
    case (taken x s' outs')
    with Cons.IH [OF taken(3)] pop_first [OF taken(1)] show ?thesis by simp
  qed
qed simp

lemma lane_bounded:
  "lane_run put pop item ops s = (ins, outs, t) \<Longrightarrow> length (contents s) \<le> capacity s \<Longrightarrow>
     length (contents t) \<le> capacity t \<and> capacity t = capacity s"
proof (induction ops arbitrary: s ins outs)
  case (Cons op ops)
  from Cons.prems(1) show ?case
  proof (cases rule: lane_step_cases)
    case refused
    from this Cons.prems(2) show ?thesis by (rule Cons.IH)
  next
    case (accepted a s' ins')
    have "length (contents s) < capacity s"
      using put_full [of a s] accepted(1) by simp
    with Cons.IH [OF accepted(3)] put_appends [OF accepted(1)] show ?thesis by simp
  next
    case (taken x s' outs')
    with Cons.IH [OF taken(3)] pop_first [OF taken(1)] Cons.prems(2) show ?thesis by simp
  qed
qed simp

end

definition run_put :: "string \<times> i64 \<times> nat \<times> run_job \<Rightarrow> run_store \<Rightarrow> run_store option" where
  "run_put = (\<lambda>(i, now, instant, job) s.
     case run_submit i now instant job s of (Err e, _) \<Rightarrow> None | (Ok r, s') \<Rightarrow> Some s')"

definition run_take :: "run_store \<Rightarrow> (run_job \<times> run_store) option" where
  "run_take s = (case run_pop s of (None, _) \<Rightarrow> None | (Some j, s') \<Rightarrow> Some (j, s'))"

definition run_item :: "string \<times> i64 \<times> nat \<times> run_job \<Rightarrow> run_job" where
  "run_item = (\<lambda>(i, now, instant, job). job\<lparr>rj_id := i\<rparr>)"

lemma modify_record_frame [simp]:
  "rs_queue (modify_record i f s) = rs_queue s" "rs_capacity (modify_record i f s) = rs_capacity s"
  "rs_ttl (modify_record i f s) = rs_ttl s"
  by (auto simp: modify_record_def split: option.splits)

interpretation run_lane: bounded_lane run_put run_take run_item rs_queue rs_capacity
  by unfold_locales
    (auto simp: run_put_def run_take_def run_item_def run_submit_def run_pop_def
      split: prod.splits list.splits if_splits)

section \<open>The invariant\<close>

definition record_ok :: "string list \<Rightarrow> string \<Rightarrow> run_record \<Rightarrow> bool" where
  "record_ok waiting i r \<longleftrightarrow> rr_id r = i \<and> rr_status r \<noteq> S_Compiling \<and>
     (rr_status r = S_Queued \<longleftrightarrow> i \<in> set waiting) \<and>
     (rr_status r = S_Done \<longleftrightarrow> rr_result r \<noteq> None \<or> rr_error r \<noteq> None)"

definition runs_inv :: "run_store \<Rightarrow> bool" where
  "runs_inv s \<longleftrightarrow> length (rs_queue s) \<le> rs_capacity s \<and> distinct (map fst (rs_records s)) \<and>
     distinct (map rj_id (rs_queue s)) \<and>
     list_all (\<lambda>j. run_get (rj_id j) s \<noteq> None) (rs_queue s) \<and>
     list_all (\<lambda>(i, r). record_ok (map rj_id (rs_queue s)) i r) (rs_records s)"

datatype run_op =
    R_Submit string i64 nat run_job
  | R_Pop
  | R_Complete string "string + judge_result"
  | R_Prune nat

fun run_step :: "run_op \<Rightarrow> run_store \<Rightarrow> run_store" where
  "run_step (R_Submit i now instant job) s = snd (run_submit i now instant job s)"
| "run_step R_Pop s = snd (run_pop s)"
| "run_step (R_Complete i outcome) s = run_complete i outcome s"
| "run_step (R_Prune instant) s = snd (run_prune instant s)"

text \<open>UUIDs are fresh, and only a run that was taken from the queue is completed.\<close>

fun run_adm :: "run_op \<Rightarrow> run_store \<Rightarrow> bool" where
  "run_adm (R_Submit i now instant job) s \<longleftrightarrow> i \<notin> fst ` set (rs_records s) \<and> i \<notin> rj_id ` set (rs_queue s)"
| "run_adm (R_Complete i outcome) s \<longleftrightarrow> i \<notin> rj_id ` set (rs_queue s)"
| "run_adm _ s \<longleftrightarrow> True"

text \<open>The table of records seen through \<open>get\<close>.\<close>

definition keeps :: "nat \<Rightarrow> duration \<Rightarrow> run_record \<Rightarrow> bool" where
  "keeps instant ttl r \<longleftrightarrow> rr_status r \<noteq> S_Done \<or> instant - rr_created r < ttl"

lemma get_modify:
  "run_get k (modify_record i f s) = (if k = i then map_option f (run_get i s) else run_get k s)"
  by (auto simp: run_get_def modify_record_def update_conv split: option.splits)

lemma get_submit:
  "run_get k (snd (run_submit i now instant job s)) =
     (if k = i \<and> length (rs_queue s) < rs_capacity s then Some (new_record i now instant) else run_get k s)"
  by (auto simp: run_get_def run_submit_def update_conv)

lemma get_complete:
  "run_get k (run_complete i outcome s) = (if k = i then map_option (\<lambda>r. case outcome of
        Ok result \<Rightarrow> r\<lparr>rr_status := S_Done, rr_result := Some result\<rparr>
      | Err err \<Rightarrow> r\<lparr>rr_status := S_Done, rr_error := Some err\<rparr>) (run_get i s) else run_get k s)"
  by (simp add: run_complete_def get_modify)

lemma get_frame [simp]: "run_get k (s\<lparr>rs_queue := q\<rparr>) = run_get k s"
  by (simp add: run_get_def)

lemma get_pop:
  "run_get k (snd (run_pop s)) = (case rs_queue s of [] \<Rightarrow> run_get k s
     | job # rest \<Rightarrow> if k = rj_id job then map_option (rr_status_update (\<lambda>_. S_Running)) (run_get k s)
                    else run_get k s)"
  by (auto simp: run_pop_def get_modify split: list.splits)

lemma get_prune:
  assumes "distinct (map fst (rs_records s))"
  shows "run_get k (snd (run_prune instant s)) =
    (case run_get k s of None \<Rightarrow> None | Some r \<Rightarrow> if keeps instant (rs_ttl s) r then Some r else None)"
proof -
  have "map_of (filter (\<lambda>(_, r). keeps instant ttl r) xs) k =
      (case map_of xs k of None \<Rightarrow> None | Some r \<Rightarrow> if keeps instant ttl r then Some r else None)"
    if "distinct (map fst xs)" for ttl xs
    using that by (induction xs) (auto simp: map_of_eq_None_iff split: option.splits)
  from this [OF assms, of "rs_ttl s"] show ?thesis
    by (simp add: run_get_def run_prune_def keeps_def Let_def)
qed

lemma modify_distinct:
  "distinct (map fst (rs_records s)) \<Longrightarrow> distinct (map fst (rs_records (modify_record i f s)))"
  by (auto simp: modify_record_def distinct_update split: option.splits)

lemma runs_inv_get:
  "runs_inv s \<longleftrightarrow> length (rs_queue s) \<le> rs_capacity s \<and> distinct (map fst (rs_records s)) \<and>
     distinct (map rj_id (rs_queue s)) \<and>
     (\<forall>j \<in> set (rs_queue s). run_get (rj_id j) s \<noteq> None) \<and>
     (\<forall>i r. run_get i s = Some r \<longrightarrow> record_ok (map rj_id (rs_queue s)) i r)"
  by (auto simp: runs_inv_def run_get_def list_all_iff)

lemma submit_inv:
  assumes "runs_inv s" "i \<notin> rj_id ` set (rs_queue s)"
  shows "runs_inv (snd (run_submit i now instant job s))"
proof (cases "length (rs_queue s) < rs_capacity s")
  case True
  then have q: "rs_queue (snd (run_submit i now instant job s)) = rs_queue s @ [job\<lparr>rj_id := i\<rparr>]"
    and c: "rs_capacity (snd (run_submit i now instant job s)) = rs_capacity s"
    and d: "distinct (map fst (rs_records s)) \<Longrightarrow>
      distinct (map fst (rs_records (snd (run_submit i now instant job s))))"
    by (auto simp: run_submit_def distinct_update)
  have "record_ok (map rj_id (rs_queue s) @ [i]) i (new_record i now instant)"
    by (simp add: record_ok_def new_record_def)
  moreover have "record_ok ks k r \<Longrightarrow> k \<noteq> i \<Longrightarrow> record_ok (ks @ [i]) k r" for ks k r
    by (simp add: record_ok_def)
  ultimately show ?thesis
    using assms True d by (auto simp: runs_inv_get q c get_submit)
qed (use assms in \<open>simp add: run_submit_def\<close>)

lemma pop_inv:
  assumes "runs_inv s"
  shows "runs_inv (snd (run_pop s))"
proof (cases "rs_queue s")
  case (Cons job rest)
  then have q: "rs_queue (snd (run_pop s)) = rest" and c: "rs_capacity (snd (run_pop s)) = rs_capacity s"
    and d: "distinct (map fst (rs_records s)) \<Longrightarrow> distinct (map fst (rs_records (snd (run_pop s))))"
    using modify_distinct [of "s\<lparr>rs_queue := rest\<rparr>"] by (auto simp: run_pop_def)
  have "record_ok (map rj_id rest) (rj_id job) (r\<lparr>rr_status := S_Running\<rparr>)"
    if "run_get (rj_id job) s = Some r" for r
  proof -
    have "record_ok (map rj_id (rs_queue s)) (rj_id job) r" "rj_id job \<notin> rj_id ` set rest"
      using assms that Cons by (auto simp: runs_inv_get)
    with Cons show ?thesis by (auto simp: record_ok_def)
  qed
  moreover have "record_ok (map rj_id (rs_queue s)) k r \<Longrightarrow> k \<noteq> rj_id job \<Longrightarrow> record_ok (map rj_id rest) k r" for k r
    using Cons by (simp add: record_ok_def)
  ultimately show ?thesis
    using assms Cons d by (auto simp: runs_inv_get q c get_pop)
qed (use assms in \<open>simp add: run_pop_def\<close>)

lemma complete_inv:
  assumes "runs_inv s" "i \<notin> rj_id ` set (rs_queue s)"
  shows "runs_inv (run_complete i outcome s)"
proof -
  have q: "rs_queue (run_complete i outcome s) = rs_queue s"
    "rs_capacity (run_complete i outcome s) = rs_capacity s"
    and d: "distinct (map fst (rs_records s)) \<Longrightarrow> distinct (map fst (rs_records (run_complete i outcome s)))"
    by (simp_all add: run_complete_def modify_distinct)
  have "record_ok (map rj_id (rs_queue s)) i r \<Longrightarrow> record_ok (map rj_id (rs_queue s)) i (case outcome of
        Ok result \<Rightarrow> r\<lparr>rr_status := S_Done, rr_result := Some result\<rparr>
      | Err err \<Rightarrow> r\<lparr>rr_status := S_Done, rr_error := Some err\<rparr>)" for r
    using assms(2) by (auto simp: record_ok_def split: sum.splits)
  with assms d show ?thesis
    by (auto simp: runs_inv_get q get_complete)
qed

lemma prune_inv:
  assumes "runs_inv s"
  shows "runs_inv (snd (run_prune instant s))"
proof -
  have d: "distinct (map fst (rs_records s))" using assms by (simp add: runs_inv_get)
  then have "distinct (map fst (rs_records (snd (run_prune instant s))))"
    by (simp add: run_prune_def Let_def distinct_map_filter_other)
  moreover have "rs_queue (snd (run_prune instant s)) = rs_queue s"
    "rs_capacity (snd (run_prune instant s)) = rs_capacity s"
    by (simp_all add: run_prune_def Let_def)
  moreover have "keeps instant ttl r" if "record_ok ks i r" "i \<in> set ks" for ttl ks i r
    using that by (auto simp: record_ok_def keeps_def)
  ultimately show ?thesis
    using assms by (fastforce simp: runs_inv_get get_prune [OF d] split: option.splits)
qed

interpretation runs: stepper run_step runs_inv run_adm
proof
  fix op s
  assume "runs_inv s" "run_adm op s"
  then show "runs_inv (run_step op s)"
    by (cases op) (simp_all add: submit_inv pop_inv complete_inv prune_inv)
qed

section \<open>Guarantees\<close>

text \<open>C39: the run lane is a bounded first-in first-out queue. Over any sequence of submissions and
pops on a new store, the jobs handed out, followed by those still waiting, are exactly the
accepted jobs in order of acceptance: none is lost, duplicated or overtaken; and no more than
the capacity ever wait.\<close>

theorem run_lane_is_bounded_fifo:
  assumes "lane_run run_put run_take run_item ops (run_store_new cap ttl) = (ins, outs, s)"
  shows "ins = outs @ rs_queue s \<and> run_queue_depth s \<le> cap"
  using run_lane.lane_conserves [OF assms] run_lane.lane_bounded [OF assms]
  by (simp add: run_store_new_def run_queue_depth_def)

definition sample_run :: run_job where
  "sample_run = \<lparr>rj_id = [], rj_language = ''python'', rj_source = ''print(1)'', rj_tests = [],
     rj_time_limit_ms = 1000, rj_memory_limit_kb = 1024, rj_comparer = Lines\<rparr>"

theorem run_lane_is_bounded_fifo_witness:
  "\<exists>outs s. lane_run run_put run_take run_item
      [Some (''a'', 1, 1, sample_run), Some (''b'', 2, 2, sample_run), None]
      (run_store_new 2 5) = ([sample_run\<lparr>rj_id := ''a''\<rparr>, sample_run\<lparr>rj_id := ''b''\<rparr>], outs, s) \<and>
    [sample_run\<lparr>rj_id := ''a''\<rparr>, sample_run\<lparr>rj_id := ''b''\<rparr>] = outs @ rs_queue s"
proof -
  obtain outs s where r: "lane_run run_put run_take run_item
      [Some (''a'', 1, 1, sample_run), Some (''b'', 2, 2, sample_run), None]
      (run_store_new 2 5) = ([sample_run\<lparr>rj_id := ''a''\<rparr>, sample_run\<lparr>rj_id := ''b''\<rparr>], outs, s)"
    by (simp add: run_put_def run_take_def run_item_def run_submit_def run_pop_def run_store_new_def)
  from run_lane_is_bounded_fifo [OF r] r show ?thesis by blast
qed

lemma new_store_inv: "runs_inv (run_store_new cap ttl)"
  by (simp add: runs_inv_def run_store_new_def)

text \<open>The records agree with the queue. After any history of a run store, a record is QUEUED
exactly while its job waits, every waiting job has its record (so a waiting run is never
pruned), and a record is DONE exactly when it has a result or an error.\<close>

lemma run_records_follow_queue:
  assumes "all_admissible run_adm run_step ops (run_store_new cap ttl)"
    and "run_get i (exec_all run_step ops (run_store_new cap ttl)) = Some r"
  shows "let s = exec_all run_step ops (run_store_new cap ttl) in
    rr_id r = i \<and> (rr_status r = S_Queued \<longleftrightarrow> i \<in> set (map rj_id (rs_queue s))) \<and>
    (rr_status r = S_Done \<longleftrightarrow> rr_result r \<noteq> None \<or> rr_error r \<noteq> None) \<and>
    list_all (\<lambda>j. run_get (rj_id j) s \<noteq> None) (rs_queue s)"
  using runs.exec_all_good [OF new_store_inv assms(1)] assms(2)
  by (auto simp: runs_inv_get record_ok_def Let_def list_all_iff)

lemma run_records_follow_queue_witness:
  "\<exists>r. run_get ''a'' (exec_all run_step [R_Submit ''a'' 1 1 sample_run, R_Prune 99] (run_store_new 2 5)) = Some r \<and>
     rr_status r = S_Queued"
proof -
  let ?ops = "[R_Submit ''a'' 1 1 sample_run, R_Prune 99]"
  have adm: "all_admissible run_adm run_step ?ops (run_store_new 2 5)" by code_simp
  have "run_get ''a'' (exec_all run_step ?ops (run_store_new 2 5)) \<noteq> None"
    and q: "''a'' \<in> set (map rj_id (rs_queue (exec_all run_step ?ops (run_store_new 2 5))))"
    by code_simp+
  then obtain r where r: "run_get ''a'' (exec_all run_step ?ops (run_store_new 2 5)) = Some r" by blast
  from run_records_follow_queue [OF adm r] r q show ?thesis by (auto simp: Let_def)
qed

text \<open>The operations that leave alone a finished record created at \<open>born\<close>: other completions, and
sweeps after its creation and before the end of its time to live.\<close>

fun spares :: "string \<Rightarrow> nat \<Rightarrow> duration \<Rightarrow> run_op \<Rightarrow> bool" where
  "spares i born ttl (R_Complete k outcome) \<longleftrightarrow> k \<noteq> i"
| "spares i born ttl (R_Prune instant) \<longleftrightarrow> born \<le> instant \<and> instant < born + ttl"
| "spares i born ttl _ \<longleftrightarrow> True"

lemma finished_kept:
  assumes "runs_inv s" "all_admissible run_adm run_step ops s" "run_get i s = Some r"
    "rr_status r \<noteq> S_Queued" "list_all (spares i (rr_created r) (rs_ttl s)) ops"
  shows "run_get i (exec_all run_step ops s) = Some r"
  using assms
proof (induction ops arbitrary: s)
  case (Cons op ops)
  have inv: "runs_inv (run_step op s)"
    using runs.step_good Cons.prems(1,2) by simp
  have ttl: "rs_ttl (run_step op s) = rs_ttl s"
    by (cases op) (auto simp: run_submit_def run_pop_def run_complete_def run_prune_def Let_def
        split: list.splits)
  have "run_get i (run_step op s) = Some r"
  proof (cases op)
    case (R_Submit k now instant job)
    with Cons.prems(2) have "k \<notin> fst ` set (rs_records s)" by simp
    then have "run_get k s = None" by (simp add: run_get_def map_of_eq_None_iff)
    with Cons.prems(3) R_Submit show ?thesis by (auto simp: get_submit)
  next
    case R_Pop
    with Cons.prems(1,3,4) show ?thesis
      by (auto simp: get_pop runs_inv_get record_ok_def split: list.splits)
  next
    case (R_Complete k outcome)
    with Cons.prems show ?thesis by (auto simp: get_complete)
  next
    case (R_Prune instant)
    with Cons.prems show ?thesis
      by (auto simp: get_prune runs_inv_get keeps_def)
  qed
  with Cons.IH [OF inv] Cons.prems ttl show ?case by simp
qed simp

text \<open>C40: the outcome of a run can be read until its time to live is over. Once a running job is
completed, then whatever else is submitted, popped, completed or swept, \<open>get\<close> returns its
record DONE with exactly that outcome, as long as no sweep runs at or after the creation of
the run plus the time to live, and nobody completes the same run again.\<close>

theorem run_outcome_readable_until_ttl:
  assumes "runs_inv s" and "run_get i s = Some r" and "rr_status r = S_Running"
    and "all_admissible run_adm run_step ops (run_complete i outcome s)"
    and "list_all (spares i (rr_created r) (rs_ttl s)) ops"
  shows "\<exists>r'. run_get i (exec_all run_step ops (run_complete i outcome s)) = Some r' \<and>
    rr_status r' = S_Done \<and>
    (case outcome of Ok result \<Rightarrow> rr_result r' = Some result | Err err \<Rightarrow> rr_error r' = Some err)"
proof -
  let ?s = "run_complete i outcome s"
  have "i \<notin> rj_id ` set (rs_queue s)"
    using assms(1-3) by (fastforce simp: runs_inv_get record_ok_def)
  with assms(1) have inv: "runs_inv ?s" by (rule complete_inv)
  obtain r' where r': "run_get i ?s = Some r'" "rr_status r' = S_Done" "rr_created r' = rr_created r"
    "case outcome of Ok result \<Rightarrow> rr_result r' = Some result | Err err \<Rightarrow> rr_error r' = Some err"
    using assms(2) by (cases outcome) (auto simp: get_complete)
  have "rs_ttl ?s = rs_ttl s" by (simp add: run_complete_def)
  with finished_kept [OF inv assms(4) r'(1)] assms(5) r' show ?thesis by auto
qed

theorem run_outcome_readable_until_ttl_witness:
  "\<exists>r'. run_get ''a'' (exec_all run_step [R_Submit ''b'' 2 2 sample_run, R_Prune 5]
      (run_complete ''a'' (Err ''down'') (exec_all run_step [R_Submit ''a'' 1 1 sample_run, R_Pop] (run_store_new 2 5)))) = Some r' \<and>
    rr_error r' = Some ''down''"
proof -
  let ?s = "exec_all run_step [R_Submit ''a'' 1 1 sample_run, R_Pop] (run_store_new 2 5)"
  have "all_admissible run_adm run_step [R_Submit ''a'' 1 1 sample_run, R_Pop] (run_store_new 2 5)"
    by code_simp
  then have inv: "runs_inv ?s" by (rule runs.exec_all_good [OF new_store_inv])
  have "map_option (\<lambda>r. (rr_status r, rr_created r)) (run_get ''a'' ?s) = Some (S_Running, 1)"
    and ttl: "rs_ttl ?s = 5" by code_simp+
  then obtain r where r: "run_get ''a'' ?s = Some r" "rr_status r = S_Running" "rr_created r = 1" by auto
  have adm: "all_admissible run_adm run_step [R_Submit ''b'' 2 2 sample_run, R_Prune 5]
      (run_complete ''a'' (Err ''down'') ?s)" by code_simp
  from run_outcome_readable_until_ttl [OF inv r(1,2) adm] r(3) ttl show ?thesis by auto
qed

end
