(* ===== verification/Server_Events.thy ===== *)
theory Server_Events
  imports Server_Store "HOL-Library.AList"
begin

text \<open>
  \<open>crates/server/src/events.rs\<close>: the hub that hands state changes of submissions to their
  subscribers, one broadcast channel per submission. The channels are tokio's; their operations
  are a record of parameters over a channel state \<open>'c\<close>. The \<open>HashMap\<close> is an association list.
\<close>

section \<open>Channels and hub\<close>

record ('c, 'r) broadcast =
  bc_channel :: "nat \<Rightarrow> 'c"
  bc_subscribe :: "'c \<Rightarrow> 'r \<times> 'c"
  bc_send :: "submission \<Rightarrow> 'c \<Rightarrow> 'c"
  bc_receiver_count :: "'c \<Rightarrow> nat"

type_synonym 'c hub = "(string \<times> 'c) list"

definition hub_entry :: "('c, 'r) broadcast \<Rightarrow> string \<Rightarrow> 'c hub \<Rightarrow> 'c" where
  "hub_entry bc i h = (case map_of h i of Some c \<Rightarrow> c | None \<Rightarrow> bc_channel bc 64)"

definition hub_subscribe :: "('c, 'r) broadcast \<Rightarrow> string \<Rightarrow> 'c hub \<Rightarrow> 'r \<times> 'c hub" where
  "hub_subscribe bc i h =
     (let (rx, c) = bc_subscribe bc (hub_entry bc i h) in (rx, AList.update i c h))"

definition hub_publish :: "('c, 'r) broadcast \<Rightarrow> submission \<Rightarrow> 'c hub \<Rightarrow> 'c hub" where
  "hub_publish bc sub h =
     (case map_of h (sm_id sub) of
        None \<Rightarrow> h
      | Some c \<Rightarrow> AList.update (sm_id sub) (bc_send bc sub c) h)"

definition hub_prune :: "('c, 'r) broadcast \<Rightarrow> 'c hub \<Rightarrow> nat \<times> 'c hub" where
  "hub_prune bc h =
     (let kept = filter (\<lambda>(_, c). 0 < bc_receiver_count bc c) h
      in (length h - length kept, kept))"

text \<open>Each operation touches one channel; pruning only drops channels nobody listens to.\<close>

lemma hub_publish_channel:
  "map_of (hub_publish bc sub h) = (\<lambda>i. if i = sm_id sub then map_option (bc_send bc sub) (map_of h i) else map_of h i)"
  by (auto simp: hub_publish_def update_conv' split: option.splits)

lemma hub_subscribe_channel:
  "map_of (snd (hub_subscribe bc i h)) = (map_of h)(i \<mapsto> snd (bc_subscribe bc (hub_entry bc i h)))"
  by (simp add: hub_subscribe_def split_beta update_conv')

lemma hub_prune_channel:
  assumes "distinct (map fst h)"
  shows "map_of (snd (hub_prune bc h)) i =
    (case map_of h i of Some c \<Rightarrow> if 0 < bc_receiver_count bc c then Some c else None | None \<Rightarrow> None)"
  using assms by (induction h) (auto simp: hub_prune_def Let_def map_of_eq_None_iff split: option.splits)

lemma hub_keys_distinct:
  "distinct (map fst h) \<Longrightarrow> distinct (map fst (snd (hub_subscribe bc i h)))"
  "distinct (map fst h) \<Longrightarrow> distinct (map fst (hub_publish bc sub h))"
  "distinct (map fst h) \<Longrightarrow> distinct (map fst (snd (hub_prune bc h)))"
  by (auto simp: hub_subscribe_def hub_publish_def hub_prune_def split_beta Let_def distinct_update
      distinct_map_filter_other split: option.splits)

section \<open>The stream of events\<close>

text \<open>
  What a receiver yields, in order; an exhausted list is a receiver that waits for the next
  message. The stream of \<open>submission_events\<close> (\<open>http.rs\<close>) unfolds the current state, then what is
  received, skipping gaps, and ends after DONE. The second component says whether it ended.
\<close>

datatype recv = Received submission | Lagged nat | Closed

definition event_of :: "submission \<Rightarrow> string \<times> submission" where
  "event_of sub = (if sm_status sub = S_Done then ''verdict'' else ''progress'', sub)"

fun stream_rest :: "bool \<Rightarrow> recv list \<Rightarrow> (string \<times> submission) list \<times> bool" where
  "stream_rest True rx = ([], True)"
| "stream_rest False [] = ([], False)"
| "stream_rest False (Received sub # rx) =
     (let (es, ended) = stream_rest (sm_status sub = S_Done) rx in (event_of sub # es, ended))"
| "stream_rest False (Lagged n # rx) = stream_rest False rx"
| "stream_rest False (Closed # rx) = ([], True)"

definition event_stream :: "submission \<Rightarrow> recv list \<Rightarrow> (string \<times> submission) list \<times> bool" where
  "event_stream current rx =
     (let (es, ended) = stream_rest (sm_status current = S_Done) rx in (event_of current # es, ended))"

text \<open>The states received until the first DONE one or the end of the channel.\<close>

fun states_until_done :: "recv list \<Rightarrow> submission list" where
  "states_until_done [] = []"
| "states_until_done (Received sub # rx) =
     (if sm_status sub = S_Done then [sub] else sub # states_until_done rx)"
| "states_until_done (Lagged n # rx) = states_until_done rx"
| "states_until_done (Closed # rx) = []"

lemma stream_rest_events: "fst (stream_rest False rx) = map event_of (states_until_done rx)"
proof (induction rx)
  case (Cons e rx)
  then show ?case by (cases e) (auto simp: Let_def split_beta)
qed simp

lemma stream_rest_ended:
  "snd (stream_rest False rx) \<longleftrightarrow> Closed \<in> set rx \<or> list_ex (\<lambda>sub. sm_status sub = S_Done) (states_until_done rx)"
proof (induction rx)
  case (Cons e rx)
  then show ?case by (cases e) (auto simp: Let_def split_beta)
qed simp

lemma states_until_done_done:
  "list_ex (\<lambda>sub. sm_status sub = S_Done) (states_until_done rx) \<longleftrightarrow>
     states_until_done rx \<noteq> [] \<and> sm_status (last (states_until_done rx)) = S_Done \<and>
     list_all (\<lambda>sub. sm_status sub \<noteq> S_Done) (butlast (states_until_done rx))"
proof (induction rx rule: states_until_done.induct)
  case (2 sub rx)
  then show ?case by (cases "states_until_done rx") auto
qed auto

end
