(* ===== verification/Server_App.thy ===== *)
theory Server_App
  imports Server_Queue_Guarantees Server_Runs Server_Events Judge_Problem
begin

text \<open>
  The state of the server (\<open>crates/server/src/lib.rs\<close>, \<open>config.rs\<close>) and how its tasks reach the
  store. The store's mutex makes every access one step; between two accesses of a task any other
  operations of other tasks may run, so the environment says for each access what the clock
  shows and what was done to the store before it.
\<close>

section \<open>Configuration\<close>

record server_config =
  sc_listen :: string
  sc_database :: string
  sc_problems_dir :: string
  sc_languages_file :: string
  sc_lease_seconds :: u64
  sc_max_attempts :: u32
  sc_max_source_bytes :: nat
  sc_run_queue_capacity :: nat
  sc_run_ttl_seconds :: u64

definition default_server_config :: server_config where
  "default_server_config =
     \<lparr>sc_listen = ''127.0.0.1:8080'', sc_database = ''data/codexec.db'', sc_problems_dir = ''problems'',
      sc_languages_file = ''languages.toml'', sc_lease_seconds = 60, sc_max_attempts = 3,
      sc_max_source_bytes = 64 * 1024, sc_run_queue_capacity = 256, sc_run_ttl_seconds = 600\<rparr>"

definition judge_version :: string where
  "judge_version = ''codexec-judge/0.1.0''"

section \<open>State\<close>

record ('s, 'b, 'c, 'r) server_env =
  en_config :: server_config
  en_sandbox :: "('s, 'b) sandbox"
  en_languages :: registry
  en_judge_config :: judge_config
  en_problems :: problem_set
  en_broadcast :: "('c, 'r) broadcast"
  en_write_json :: json_writer
  en_read_json :: json_reader
  en_debug_str :: "string \<Rightarrow> string"
  en_clock :: "nat \<Rightarrow> nat option"
  en_others :: "nat \<Rightarrow> store_op list"

datatype wake = Notify_One | Notify_Waiters

record ('s, 'c) server =
  sv_db :: db
  sv_runs :: run_store
  sv_hub :: "'c hub"
  sv_sandbox :: 's
  sv_wakes :: "wake list"
  sv_access :: nat

definition new_server :: "server_config \<Rightarrow> db \<Rightarrow> 's \<Rightarrow> ('s, 'c) server" where
  "new_server cfg d s =
     \<lparr>sv_db = d,
      sv_runs = run_store_new (sc_run_queue_capacity cfg) (unat (sc_run_ttl_seconds cfg) * 10 ^ 9),
      sv_hub = [], sv_sandbox = s, sv_wakes = [], sv_access = 0\<rparr>"

text \<open>A \<open>u64\<close> product and its cast, which wrap.\<close>

definition lease_ms :: "server_config \<Rightarrow> i64" where
  "lease_ms cfg = u64_as_i64 (sc_lease_seconds cfg * 1000)"

section \<open>Access to the store\<close>

abbreviation env_step :: "('s, 'b, 'c, 'r) server_env \<Rightarrow> store_op \<Rightarrow> db \<Rightarrow> db" where
  "env_step env \<equiv> store_step (en_write_json env) (en_read_json env)"

definition with_store ::
  "('s, 'b, 'c, 'r) server_env \<Rightarrow> (i64 \<Rightarrow> db \<Rightarrow> 'a \<times> db) \<Rightarrow> ('s, 'c) server \<Rightarrow> 'a \<times> ('s, 'c) server" where
  "with_store env f w =
     (let n = sv_access w; d = exec_all (env_step env) (en_others env n) (sv_db w);
          (a, d') = f (now_ms (en_clock env n)) d
      in (a, w\<lparr>sv_db := d', sv_access := n + 1\<rparr>))"

text \<open>\<open>if let Ok(Some(sub)) = store.get(&id).await { hub.publish(&sub) }\<close>\<close>

definition publish_current ::
  "('s, 'b, 'c, 'r) server_env \<Rightarrow> string \<Rightarrow> ('s, 'c) server \<Rightarrow> ('s, 'c) server" where
  "publish_current env i w =
     (case with_store env (\<lambda>now d. (store_get (en_read_json env) i d, d)) w of
        (None, w') \<Rightarrow> w'
      | (Some sub, w') \<Rightarrow> w'\<lparr>sv_hub := hub_publish (en_broadcast env) sub (sv_hub w')\<rparr>)"

definition wake_up :: "wake \<Rightarrow> ('s, 'c) server \<Rightarrow> ('s, 'c) server" where
  "wake_up k w = w\<lparr>sv_wakes := sv_wakes w @ [k]\<rparr>"

end
