(* ===== verification/Server_Worker.thy ===== *)
theory Server_Worker
  imports Server_App
begin

text \<open>
  \<open>crates/server/src/worker.rs\<close>: the judge workers and the sweeper. A turn of a worker's loop
  takes a run or a submission, at most \<open>RUN_BURST\<close> runs in a row, judges it and writes the
  outcome back. \<open>None\<close> is a worker that still waits for a sandbox box. The heartbeat task
  handles every progress event before the verdict is written, since the worker awaits it.
\<close>

section \<open>Error texts\<close>

definition sandbox_error_text :: "(string \<Rightarrow> string) \<Rightarrow> sandbox_error \<Rightarrow> string" where
  "sandbox_error_text dbg e =
     (case e of
        Io m \<Rightarrow> ''sandbox i/o error: '' @ m
      | InvalidFileName n \<Rightarrow> ''invalid file name for sandbox: '' @ dbg n
      | Backend m \<Rightarrow> ''sandbox backend failed: '' @ m)"

definition judge_error_text :: "(string \<Rightarrow> string) \<Rightarrow> judge_error \<Rightarrow> string" where
  "judge_error_text dbg e =
     (case e of
        UnknownLanguage l \<Rightarrow> ''unknown language '' @ dbg l
      | Sandbox_Failed s \<Rightarrow> sandbox_error_text dbg s)"

section \<open>Requests\<close>

definition run_request :: "run_job \<Rightarrow> judge_request" where
  "run_request job =
     \<lparr>rq_language = rj_language job, rq_source = rj_source job, rq_tests = rj_tests job,
      rq_time_limit_ms = rj_time_limit_ms job, rq_memory_limit_kb = rj_memory_limit_kb job,
      rq_comparer = rj_comparer job, rq_stop_on_first_failure = False, rq_capture_output = True,
      rq_show_failed_input = True\<rparr>"

definition submission_request :: "job \<Rightarrow> problem \<Rightarrow> judge_request" where
  "submission_request job p =
     \<lparr>rq_language = jb_language job, rq_source = jb_source job, rq_tests = pr_tests p,
      rq_time_limit_ms = pr_time_limit_ms p, rq_memory_limit_kb = pr_memory_limit_kb p,
      rq_comparer = pr_comparer p, rq_stop_on_first_failure = True, rq_capture_output = False,
      rq_show_failed_input = pr_show_failed_input p\<rparr>"

definition judge_with ::
  "('s, 'b, 'c, 'r) server_env \<Rightarrow> judge_request \<Rightarrow> bool \<Rightarrow> ('s, 'c) server \<Rightarrow>
   ((judge_error + judge_result) \<times> progress list \<times> ('s, 'c) server) option" where
  "judge_with env req listening w =
     map_option (\<lambda>(outcome, s, events). (outcome, events, w\<lparr>sv_sandbox := s\<rparr>))
       (judge (en_sandbox env) (en_languages env) (en_judge_config env) req listening (sv_sandbox w))"

section \<open>Runs\<close>

definition handle_run ::
  "('s, 'b, 'c, 'r) server_env \<Rightarrow> run_job \<Rightarrow> ('s, 'c) server \<Rightarrow> ('s, 'c) server option" where
  "handle_run env job w =
     map_option (\<lambda>(outcome, events, w').
         w'\<lparr>sv_runs := run_complete (rj_id job) (map_err (judge_error_text (en_debug_str env)) outcome) (sv_runs w')\<rparr>)
       (judge_with env (run_request job) False w)"

section \<open>Submissions\<close>

definition fail_permanently ::
  "('s, 'b, 'c, 'r) server_env \<Rightarrow> job \<Rightarrow> string \<Rightarrow> ('s, 'c) server \<Rightarrow> ('s, 'c) server" where
  "fail_permanently env job err w =
     snd (with_store env (\<lambda>now. fail_attempt now (jb_id job) (jb_attempt job) 0 err) w)"

definition fail_job ::
  "('s, 'b, 'c, 'r) server_env \<Rightarrow> job \<Rightarrow> string \<Rightarrow> ('s, 'c) server \<Rightarrow> ('s, 'c) server" where
  "fail_job env job err w =
     (case with_store env (\<lambda>now. fail_attempt now (jb_id job) (jb_attempt job)
             (sc_max_attempts (en_config env)) err) w of
        (Some S_Queued, w') \<Rightarrow> wake_up Notify_One w'
      | (_, w') \<Rightarrow> w')"

definition progress_of :: "progress \<Rightarrow> status \<times> u64 \<times> u64" where
  "progress_of p =
     (case p of P_Compiling \<Rightarrow> (S_Compiling, 0, 0) | P_Running k n \<Rightarrow> (S_Running, of_nat k, of_nat n))"

definition heartbeat ::
  "('s, 'b, 'c, 'r) server_env \<Rightarrow> job \<Rightarrow> progress \<Rightarrow> ('s, 'c) server \<Rightarrow> ('s, 'c) server" where
  "heartbeat env job p w =
     (let (st, k, n) = progress_of p
      in case with_store env (\<lambda>now. store_progress now (jb_id job) (jb_attempt job) st k n
                (lease_ms (en_config env))) w of
           (True, w') \<Rightarrow> publish_current env (jb_id job) w'
         | (False, w') \<Rightarrow> w')"

definition finish_job ::
  "('s, 'b, 'c, 'r) server_env \<Rightarrow> job \<Rightarrow> problem \<Rightarrow> judge_result \<Rightarrow> ('s, 'c) server \<Rightarrow> ('s, 'c) server" where
  "finish_job env job p result w =
     snd (with_store env (\<lambda>now. store_finish (en_write_json env) now (jb_id job) (jb_attempt job)
       (pr_version p) judge_version result) w)"

definition write_outcome ::
  "('s, 'b, 'c, 'r) server_env \<Rightarrow> job \<Rightarrow> problem \<Rightarrow> judge_error + judge_result \<Rightarrow> ('s, 'c) server \<Rightarrow>
   ('s, 'c) server" where
  "write_outcome env job p outcome w =
     (case outcome of
        Ok result \<Rightarrow> finish_job env job p result w
      | Err (UnknownLanguage lang) \<Rightarrow>
          fail_permanently env job (''language '' @ en_debug_str env lang @ '' is not configured'') w
      | Err (Sandbox_Failed e) \<Rightarrow> fail_job env job (sandbox_error_text (en_debug_str env) e) w)"

definition handle_submission ::
  "('s, 'b, 'c, 'r) server_env \<Rightarrow> job \<Rightarrow> ('s, 'c) server \<Rightarrow> ('s, 'c) server option" where
  "handle_submission env job w =
     (case get_problem (en_problems env) (jb_problem job) of
        None \<Rightarrow> Some (fail_permanently env job ''problem no longer exists'' w)
      | Some p \<Rightarrow>
          map_option (\<lambda>(outcome, events, w').
              publish_current env (jb_id job)
                (write_outcome env job p outcome (fold (heartbeat env job) events w')))
            (judge_with env (submission_request job p) True w))"

section \<open>The loop\<close>

definition RUN_BURST :: u32 where "RUN_BURST = 3"

datatype turn = Served_Run run_job | Served_Submission job | Claim_Failed | Nothing_Waiting

text \<open>One turn: what was done, the new streak of runs, the new state.\<close>

definition worker_turn ::
  "('s, 'b, 'c, 'r) server_env \<Rightarrow> u32 \<Rightarrow> ('s, 'c) server \<Rightarrow> (turn \<times> u32 \<times> ('s, 'c) server) option" where
  "worker_turn env run_streak w =
     (let prefer_submission = (RUN_BURST \<le> run_streak);
          (popped, runs) = (if prefer_submission then (None, sv_runs w) else run_pop (sv_runs w));
          w1 = w\<lparr>sv_runs := runs\<rparr>
      in case popped of
           Some job \<Rightarrow> map_option (\<lambda>w'. (Served_Run job, run_streak + 1, w')) (handle_run env job w1)
         | None \<Rightarrow>
             (case with_store env (\<lambda>now. claim_next now (lease_ms (en_config env))) w1 of
                (Ok (Some job), w2) \<Rightarrow>
                  map_option (\<lambda>w'. (Served_Submission job, 0, w')) (handle_submission env job w2)
              | (Ok None, w2) \<Rightarrow> Some (Nothing_Waiting, 0, w2)
              | (Err e, w2) \<Rightarrow> Some (Claim_Failed, run_streak, w2)))"

text \<open>A number of turns: what they did, the streak and the state after them.\<close>

fun worker_loop ::
  "('s, 'b, 'c, 'r) server_env \<Rightarrow> nat \<Rightarrow> u32 \<Rightarrow> ('s, 'c) server \<Rightarrow>
   (turn list \<times> u32 \<times> ('s, 'c) server) option" where
  "worker_loop env 0 streak w = Some ([], streak, w)"
| "worker_loop env (Suc n) streak w =
     Option.bind (worker_turn env streak w) (\<lambda>(t, streak', w').
       map_option (\<lambda>(ts, streak'', w''). (t # ts, streak'', w'')) (worker_loop env n streak' w'))"

section \<open>The sweeper\<close>

definition sweeper_tick ::
  "('s, 'b, 'c, 'r) server_env \<Rightarrow> nat \<Rightarrow> ('s, 'c) server \<Rightarrow> ('s, 'c) server" where
  "sweeper_tick env instant w =
     (let (report, w1) = with_store env (\<lambda>now. store_sweep now (sc_max_attempts (en_config env))) w;
          w2 = (if 0 < sp_requeued report + sp_failed report then wake_up Notify_Waiters w1 else w1)
      in w2\<lparr>sv_runs := snd (run_prune instant (sv_runs w2)),
            sv_hub := snd (hub_prune (en_broadcast env) (sv_hub w2))\<rparr>)"

end
