(* ===== verification/Server_Http.thy ===== *)
theory Server_Http
  imports Server_Worker
begin

text \<open>
  \<open>crates/server/src/http.rs\<close>: the request handlers. A handler is a function from its request and
  the server to a response and the server; a response is an error with its status code, or the
  data that is sent as JSON, text or a redirect location. Parsing requests, routing, the body
  limit's enforcement and writing JSON are axum's and serde's and are not modelled. Fresh UUIDs
  and the monotonic clock are arguments, and the idempotency header comes as the text that the
  header value has, if it has one.
\<close>

section \<open>Errors and limits\<close>

datatype api_error = Api_Error (status_code: nat) string

definition bad_request :: "string \<Rightarrow> api_error" where
  "bad_request msg = Api_Error 400 msg"

definition not_found :: "string \<Rightarrow> api_error" where
  "not_found what = Api_Error 404 (what @ '' not found'')"

definition payload_too_large :: "string \<Rightarrow> api_error" where
  "payload_too_large msg = Api_Error 413 msg"

definition internal_error :: "store_error \<Rightarrow> api_error" where
  "internal_error e = Api_Error 500 ''internal error''"

definition or_not_found :: "string \<Rightarrow> 'a option \<Rightarrow> api_error + 'a" where
  "or_not_found what x = (case x of Some v \<Rightarrow> Ok v | None \<Rightarrow> Err (not_found what))"

definition LOCAL_USER :: string where "LOCAL_USER = ''local''"
definition DEFAULT_RUN_TIME_LIMIT_MS :: u64 where "DEFAULT_RUN_TIME_LIMIT_MS = 1000"
definition DEFAULT_RUN_MEMORY_KB :: u64 where "DEFAULT_RUN_MEMORY_KB = 256 * 1024"
definition MAX_STDIN_BYTES :: nat where "MAX_STDIN_BYTES = 1024 * 1024"

definition body_limit :: "server_config \<Rightarrow> nat" where
  "body_limit cfg = sc_max_source_bytes cfg * 2 + MAX_STDIN_BYTES * 2 + 16 * 1024"

section \<open>State and problems\<close>

record health =
  he_queued_submissions :: u64
  he_queued_runs :: nat
  he_problems :: nat
  he_languages :: nat

definition healthz :: "('s, 'b, 'c, 'r) server_env \<Rightarrow> ('s, 'c) server \<Rightarrow> health \<times> ('s, 'c) server" where
  "healthz env w =
     (let (n, w') = with_store env (\<lambda>now d. (queue_depth d, d)) w
      in (\<lparr>he_queued_submissions = n, he_queued_runs = run_queue_depth (sv_runs w'),
           he_problems = problem_count (en_problems env), he_languages = length (en_languages env)\<rparr>, w'))"

definition list_languages :: "('s, 'b, 'c, 'r) server_env \<Rightarrow> language_info list" where
  "list_languages env = language_infos (en_languages env)"

record problem_summary =
  ps_slug :: string
  ps_title :: string
  ps_difficulty :: string
  ps_tags :: "string list"

record sample =
  sa_name :: string
  sa_input :: string
  sa_output :: string

record problem_page =
  pp_summary :: problem_summary
  pp_time_limit_ms :: u64
  pp_memory_limit_mb :: u64
  pp_statement :: string
  pp_samples :: "sample list"
  pp_tests_total :: nat
  pp_version :: string

definition summary_of :: "problem \<Rightarrow> problem_summary" where
  "summary_of p = \<lparr>ps_slug = pr_slug p, ps_title = pr_title p, ps_difficulty = pr_difficulty p, ps_tags = pr_tags p\<rparr>"

definition list_problems :: "('s, 'b, 'c, 'r) server_env \<Rightarrow> problem_summary list" where
  "list_problems env = map summary_of (problem_list (en_problems env))"

definition sample_of :: "test_case \<Rightarrow> sample" where
  "sample_of t = \<lparr>sa_name = tc_name t, sa_input = from_utf8_lossy (tc_input t),
     sa_output = from_utf8_lossy (or_default (tc_expected t) [])\<rparr>"

definition show_problem :: "('s, 'b, 'c, 'r) server_env \<Rightarrow> string \<Rightarrow> api_error + problem_page" where
  "show_problem env slug =
     try_then (or_not_found ''problem'' (get_problem (en_problems env) slug)) (\<lambda>p.
     Ok \<lparr>pp_summary = summary_of p, pp_time_limit_ms = pr_time_limit_ms p,
         pp_memory_limit_mb = pr_memory_limit_kb p div 1024, pp_statement = pr_statement p,
         pp_samples = map sample_of (problem_samples p), pp_tests_total = length (pr_tests p),
         pp_version = pr_version p\<rparr>)"

section \<open>Submissions\<close>

record create_submission =
  cs_problem :: string
  cs_language :: string
  cs_source :: string

definition check_source :: "('s, 'b, 'c, 'r) server_env \<Rightarrow> string \<Rightarrow> string \<Rightarrow> api_error + unit" where
  "check_source env lang source =
     (if get_language (en_languages env) lang = None
      then Err (bad_request (''unknown language '' @ en_debug_str env lang @ ''; available: '' @
             join '', '' (language_ids (en_languages env))))
      else if trim source = [] then Err (bad_request ''source is empty'')
      else if sc_max_source_bytes (en_config env) < length source
      then Err (payload_too_large (''source exceeds '' @ show_nat (sc_max_source_bytes (en_config env)) @ '' bytes''))
      else Ok ())"

definition idempotency_key :: "string option \<Rightarrow> string option" where
  "idempotency_key header =
     map_option (\<lambda>k. LOCAL_USER @ '':'' @ k)
       (Option.bind (map_option trim header) (\<lambda>k. if k \<noteq> [] \<and> length k \<le> 128 then Some k else None))"

definition new_submission_of :: "string option \<Rightarrow> problem \<Rightarrow> create_submission \<Rightarrow> new_submission" where
  "new_submission_of header p body =
     \<lparr>nw_user_id = LOCAL_USER, nw_problem = pr_slug p, nw_problem_version = pr_version p,
      nw_language = cs_language body, nw_source = cs_source body,
      nw_tests_total = of_nat (length (pr_tests p)), nw_idempotency_key = idempotency_key header\<rparr>"

definition post_submission ::
  "('s, 'b, 'c, 'r) server_env \<Rightarrow> string \<Rightarrow> string option \<Rightarrow> create_submission \<Rightarrow> ('s, 'c) server \<Rightarrow>
   (api_error + string \<times> submission) \<times> ('s, 'c) server" where
  "post_submission env i header body w =
     (case try_then (or_not_found ''problem'' (get_problem (en_problems env) (cs_problem body))) (\<lambda>p.
           try_then (check_source env (cs_language body) (cs_source body)) (\<lambda>_. Ok p)) of
        Err e \<Rightarrow> (Err e, w)
      | Ok p \<Rightarrow>
          (case with_store env (\<lambda>now. store_insert (en_read_json env) i now (new_submission_of header p body)) w of
             (Err e, w') \<Rightarrow> (Err (internal_error e), w')
           | (Ok (sub, created), w') \<Rightarrow>
               (Ok (''/v1/submissions/'' @ sm_id sub, sub), if created then wake_up Notify_One w' else w')))"

definition list_limit :: "u32 option \<Rightarrow> u32" where
  "list_limit limit = min (max (or_default limit 20) 1) 100"

definition list_submissions ::
  "('s, 'b, 'c, 'r) server_env \<Rightarrow> string option \<Rightarrow> u32 option \<Rightarrow> ('s, 'c) server \<Rightarrow> submission list \<times> ('s, 'c) server" where
  "list_submissions env problem limit =
     with_store env (\<lambda>now d. (store_list (en_read_json env) problem (list_limit limit) d, d))"

definition get_submission ::
  "('s, 'b, 'c, 'r) server_env \<Rightarrow> string \<Rightarrow> ('s, 'c) server \<Rightarrow> (api_error + submission) \<times> ('s, 'c) server" where
  "get_submission env i w =
     (let (sub, w') = with_store env (\<lambda>now d. (store_get (en_read_json env) i d, d)) w
      in (or_not_found ''submission'' sub, w'))"

definition get_submission_source ::
  "('s, 'b, 'c, 'r) server_env \<Rightarrow> string \<Rightarrow> ('s, 'c) server \<Rightarrow> (api_error + string) \<times> ('s, 'c) server" where
  "get_submission_source env i w =
     (let (source, w') = with_store env (\<lambda>now d. (store_get_source i d, d)) w
      in (or_not_found ''submission'' source, w'))"

text \<open>The subscription is made before the state is read; the stream starts with that state.\<close>

definition submission_events ::
  "('s, 'b, 'c, 'r) server_env \<Rightarrow> string \<Rightarrow> ('s, 'c) server \<Rightarrow>
   (api_error + 'r \<times> submission) \<times> ('s, 'c) server" where
  "submission_events env i w =
     (let (rx, h) = hub_subscribe (en_broadcast env) i (sv_hub w);
          (sub, w') = with_store env (\<lambda>now d. (store_get (en_read_json env) i d, d)) (w\<lparr>sv_hub := h\<rparr>)
      in (try_then (or_not_found ''submission'' sub) (\<lambda>current. Ok (rx, current)), w'))"

section \<open>Runs\<close>

record create_run =
  cr_language :: string
  cr_source :: string
  cr_stdin :: "string option"
  cr_problem :: "string option"

definition custom_test :: "bytes \<Rightarrow> test_case" where
  "custom_test inp = \<lparr>tc_name = ''custom'', tc_input = inp, tc_expected = None\<rparr>"

definition run_tests :: "string option \<Rightarrow> problem option \<Rightarrow> test_case list" where
  "run_tests stdin p =
     (case stdin of
        Some inp \<Rightarrow> [custom_test inp]
      | None \<Rightarrow>
          (case p of
             Some q \<Rightarrow> if pr_sample_names q \<noteq> [] then problem_samples q else [custom_test []]
           | None \<Rightarrow> [custom_test []]))"

definition run_job_of :: "create_run \<Rightarrow> problem option \<Rightarrow> run_job" where
  "run_job_of body p =
     \<lparr>rj_id = [], rj_language = cr_language body, rj_source = cr_source body,
      rj_tests = run_tests (cr_stdin body) p,
      rj_time_limit_ms = or_default (map_option pr_time_limit_ms p) DEFAULT_RUN_TIME_LIMIT_MS,
      rj_memory_limit_kb = or_default (map_option pr_memory_limit_kb p) DEFAULT_RUN_MEMORY_KB,
      rj_comparer = or_default (map_option pr_comparer p) Lines\<rparr>"

definition run_problem ::
  "('s, 'b, 'c, 'r) server_env \<Rightarrow> create_run \<Rightarrow> api_error + problem option" where
  "run_problem env body =
     try_then (check_source env (cr_language body) (cr_source body)) (\<lambda>_.
     if (case cr_stdin body of Some s \<Rightarrow> MAX_STDIN_BYTES < length s | None \<Rightarrow> False)
     then Err (payload_too_large (''stdin exceeds '' @ show_nat MAX_STDIN_BYTES @ '' bytes''))
     else (case cr_problem body of
             None \<Rightarrow> Ok None
           | Some slug \<Rightarrow>
               try_then (or_not_found ''problem'' (get_problem (en_problems env) slug)) (\<lambda>p. Ok (Some p))))"

definition post_run ::
  "('s, 'b, 'c, 'r) server_env \<Rightarrow> string \<Rightarrow> i64 \<Rightarrow> nat \<Rightarrow> create_run \<Rightarrow> ('s, 'c) server \<Rightarrow>
   (api_error + string \<times> run_record) \<times> ('s, 'c) server" where
  "post_run env i now instant body w =
     (case run_problem env body of
        Err e \<Rightarrow> (Err e, w)
      | Ok p \<Rightarrow>
          (case run_submit i now instant (run_job_of body p) (sv_runs w) of
             (Err QueueFull, s) \<Rightarrow> (Err (Api_Error 503 ''run queue is full, retry shortly''), w\<lparr>sv_runs := s\<rparr>)
           | (Ok rec, s) \<Rightarrow>
               (Ok (''/v1/runs/'' @ rr_id rec, rec), wake_up Notify_One (w\<lparr>sv_runs := s\<rparr>))))"

definition get_run :: "string \<Rightarrow> ('s, 'c) server \<Rightarrow> api_error + run_record" where
  "get_run i w = or_not_found ''run (results expire)'' (run_get i (sv_runs w))"

end
