(* ===== verification/Server_Worker_Facts.thy ===== *)
theory Server_Worker_Facts
  imports Server_Worker
begin

text \<open>
  The steps of \<open>crates/server/src/worker.rs\<close> seen from the store: a worker only performs store
  operations, all its writes carry the token of its job, and without interference they change
  only the row of the job. Turns of the loop are taken apart into their four kinds.
\<close>

section \<open>A worker is a client of the store\<close>

fun own_write :: "string \<Rightarrow> u32 \<Rightarrow> store_op \<Rightarrow> bool" where
  "own_write i a (Op_Progress now j b st k n lease) \<longleftrightarrow> j = i \<and> b = a \<and> (st = S_Compiling \<or> st = S_Running)"
| "own_write i a (Op_Finish now j b pv jv res) \<longleftrightarrow> j = i \<and> b = a"
| "own_write i a (Op_Fail now j b mx err) \<longleftrightarrow> j = i \<and> b = a"
| "own_write i a op \<longleftrightarrow> False"

lemma own_write_adm: "own_write i a op \<Longrightarrow> 0 < a \<Longrightarrow> store_adm op d"
  by (cases op) auto

definition store_history ::
  "('s, 'b, 'c, 'r) server_env \<Rightarrow> (store_op \<Rightarrow> bool) \<Rightarrow> ('s, 'c) server \<Rightarrow> ('s, 'c) server \<Rightarrow> bool" where
  "store_history env own w w' \<longleftrightarrow> (\<exists>ops. sv_db w' = exec_all (env_step env) ops (sv_db w) \<and>
     (\<forall>op \<in> set ops. own op \<or> (\<exists>n. op \<in> set (en_others env n))))"

lemma store_history_refl: "sv_db w' = sv_db w \<Longrightarrow> store_history env own w w'"
  unfolding store_history_def by (intro exI [of _ "[]"]) simp

lemma store_history_trans [trans]:
  "store_history env own w w' \<Longrightarrow> store_history env own w' w'' \<Longrightarrow> store_history env own w w''"
  unfolding store_history_def by (metis Un_iff exec_all_append set_append)

lemma store_history_weaken:
  "store_history env own w w' \<Longrightarrow> (\<And>op. own op \<Longrightarrow> own' op) \<Longrightarrow> store_history env own' w w'"
  unfolding store_history_def by blast

lemma with_store_op:
  assumes "\<And>now d. snd (f now d) = env_step env (op now) d" and "\<And>now. own (op now)"
  shows "store_history env own w (snd (with_store env f w))"
proof -
  let ?now = "now_ms (en_clock env (sv_access w))"
  let ?ops = "en_others env (sv_access w) @ [op ?now]"
  have "sv_db (snd (with_store env f w)) = exec_all (env_step env) ?ops (sv_db w)"
    by (simp add: with_store_def Let_def split_beta assms(1) exec_all_append)
  with assms(2) show ?thesis unfolding store_history_def by (intro exI [of _ ?ops]) auto
qed

lemma with_store_read:
  assumes "\<And>now d. snd (f now d) = d"
  shows "store_history env own w (snd (with_store env f w))"
proof -
  have "sv_db (snd (with_store env f w)) = exec_all (env_step env) (en_others env (sv_access w)) (sv_db w)"
    by (simp add: with_store_def Let_def split_beta assms)
  then show ?thesis unfolding store_history_def by (intro exI [of _ "en_others env (sv_access w)"]) auto
qed

lemma publish_current_history: "store_history env own w (publish_current env i w)"
proof -
  let ?f = "\<lambda>now d. (store_get (en_read_json env) i d, d)"
  have "sv_db (publish_current env i w) = sv_db (snd (with_store env ?f w))"
    by (simp add: publish_current_def split: prod.splits option.splits)
  with with_store_read [of ?f env own w] show ?thesis by (simp add: store_history_def)
qed

abbreviation job_write :: "job \<Rightarrow> store_op \<Rightarrow> bool" where
  "job_write job \<equiv> own_write (jb_id job) (jb_attempt job)"

lemma heartbeat_history: "store_history env (job_write job) w (heartbeat env job p w)"
proof -
  obtain st k n where p: "progress_of p = (st, k, n)" "st = S_Compiling \<or> st = S_Running"
    by (cases p) (auto simp: progress_of_def)
  let ?f = "\<lambda>now. store_progress now (jb_id job) (jb_attempt job) st k n (lease_ms (en_config env))"
  have "store_history env (job_write job) w (snd (with_store env ?f w))"
    using p(2) by (intro with_store_op [where op = "\<lambda>now. Op_Progress now (jb_id job) (jb_attempt job) st k n
        (lease_ms (en_config env))"]) simp_all
  also have "store_history env (job_write job) (snd (with_store env ?f w)) (heartbeat env job p w)"
    by (auto simp: heartbeat_def p(1) intro: store_history_refl publish_current_history split: prod.splits bool.splits)
  finally show ?thesis .
qed

lemma heartbeats_history: "store_history env (job_write job) w (fold (heartbeat env job) ps w)"
proof (induction ps arbitrary: w)
  case (Cons p ps)
  from heartbeat_history [of env job w p] Cons show ?case by (auto intro: store_history_trans)
qed (simp add: store_history_refl)

lemma fail_history:
  "store_history env (job_write job) w (fail_permanently env job err w)"
  "store_history env (job_write job) w (fail_job env job err w)"
proof -
  have f: "store_history env (job_write job) w
      (snd (with_store env (\<lambda>now. fail_attempt now (jb_id job) (jb_attempt job) mx err) w))" for mx
    by (intro with_store_op [where op = "\<lambda>now. Op_Fail now (jb_id job) (jb_attempt job) mx err"]) simp_all
  then show "store_history env (job_write job) w (fail_permanently env job err w)"
    by (simp add: fail_permanently_def)
  have "sv_db (fail_job env job err w) = sv_db (snd (with_store env
      (\<lambda>now. fail_attempt now (jb_id job) (jb_attempt job) (sc_max_attempts (en_config env)) err) w))"
    by (auto simp: fail_job_def wake_up_def split: prod.splits option.splits status.splits)
  with f [of "sc_max_attempts (en_config env)"] show "store_history env (job_write job) w (fail_job env job err w)"
    by (simp add: store_history_def)
qed

lemma write_outcome_history: "store_history env (job_write job) w (write_outcome env job p outcome w)"
proof -
  have "store_history env (job_write job) w (finish_job env job p result w)" for result
    unfolding finish_job_def
    by (intro with_store_op [where op = "\<lambda>now. Op_Finish now (jb_id job) (jb_attempt job) (pr_version p)
        judge_version result"]) simp_all
  then show ?thesis
    by (auto simp: write_outcome_def fail_history split: sum.splits judge_error.splits)
qed

lemma handle_submission_history:
  assumes "handle_submission env job w = Some w'"
  shows "store_history env (job_write job) w w'"
proof (cases "get_problem (en_problems env) (jb_problem job)")
  case None
  with assms fail_history(1) show ?thesis by (auto simp: handle_submission_def)
next
  case (Some p)
  with assms obtain outcome events w1 where j: "judge_with env (submission_request job p) True w = Some (outcome, events, w1)"
    and w': "w' = publish_current env (jb_id job) (write_outcome env job p outcome (fold (heartbeat env job) events w1))"
    by (auto simp: handle_submission_def)
  have "sv_db w1 = sv_db w" using j by (auto simp: judge_with_def)
  then have "store_history env (job_write job) w w1" by (rule store_history_refl)
  also note heartbeats_history [of env job w1 events]
  also note write_outcome_history [of env job _ p outcome]
  also note publish_current_history [of env _ _ "jb_id job"]
  finally show ?thesis unfolding w' .
qed

section \<open>Turns\<close>

lemma worker_turn_cases [consumes 1, case_names run submission nothing failed]:
  assumes "worker_turn env s w = Some (t, s', w')"
  obtains job rest where "t = Served_Run job" "s < RUN_BURST" "s' = s + 1" "rs_queue (sv_runs w) = job # rest"
      "handle_run env job (w\<lparr>sv_runs := snd (run_pop (sv_runs w))\<rparr>) = Some w'"
  | job w1 where "t = Served_Submission job" "s' = 0" "RUN_BURST \<le> s \<or> rs_queue (sv_runs w) = []"
      "with_store env (\<lambda>now. claim_next now (lease_ms (en_config env))) w = (Ok (Some job), w1)"
      "handle_submission env job w1 = Some w'"
  | "t = Nothing_Waiting" "s' = 0" "RUN_BURST \<le> s \<or> rs_queue (sv_runs w) = []"
      "with_store env (\<lambda>now. claim_next now (lease_ms (en_config env))) w = (Ok None, w')"
  | e where "t = Claim_Failed" "s' = s" "RUN_BURST \<le> s \<or> rs_queue (sv_runs w) = []"
      "with_store env (\<lambda>now. claim_next now (lease_ms (en_config env))) w = (Err e, w')"
proof (cases "s < RUN_BURST \<and> rs_queue (sv_runs w) \<noteq> []")
  case True
  then obtain job rest where q: "rs_queue (sv_runs w) = job # rest" by (auto simp: neq_Nil_conv)
  define runs where "runs = snd (run_pop (sv_runs w))"
  from q have "run_pop (sv_runs w) = (Some job, runs)" by (simp add: run_pop_def runs_def)
  moreover have "\<not> RUN_BURST \<le> s" using True by (simp add: not_le)
  ultimately have "worker_turn env s w =
      map_option (\<lambda>w'. (Served_Run job, s + 1, w')) (handle_run env job (w\<lparr>sv_runs := runs\<rparr>))"
    by (simp add: worker_turn_def)
  with True assms q that(1) show thesis by (auto simp: runs_def)
next
  case False
  have "(if RUN_BURST \<le> s then (None, sv_runs w) else run_pop (sv_runs w)) = (None, sv_runs w)"
    using False by (auto simp: run_pop_def not_le)
  then have turn: "worker_turn env s w =
      (case with_store env (\<lambda>now. claim_next now (lease_ms (en_config env))) w of
         (Ok (Some job), w2) \<Rightarrow> map_option (\<lambda>w'. (Served_Submission job, 0, w')) (handle_submission env job w2)
       | (Ok None, w2) \<Rightarrow> Some (Nothing_Waiting, 0, w2)
       | (Err e, w2) \<Rightarrow> Some (Claim_Failed, s, w2))"
    by (simp add: worker_turn_def)
  from False have "RUN_BURST \<le> s \<or> rs_queue (sv_runs w) = []" by (auto simp: not_less)
  with assms that(2-4) show thesis unfolding turn by (auto split: prod.splits sum.splits option.splits)
qed

lemma run_turn_iff:
  assumes "worker_turn env s w = Some (t, s', w')"
  shows "(\<exists>job. t = Served_Run job) \<longleftrightarrow> s < RUN_BURST \<and> rs_queue (sv_runs w) \<noteq> []"
  using assms by (cases rule: worker_turn_cases) auto

section \<open>A worker on its own\<close>

definition alone :: "('s, 'b, 'c, 'r) server_env \<Rightarrow> bool" where
  "alone env \<longleftrightarrow> (\<forall>n. en_others env n = [])"

lemma with_store_alone:
  "alone env \<Longrightarrow> with_store env f w =
     (let (a, d) = f (now_ms (en_clock env (sv_access w))) (sv_db w)
      in (a, w\<lparr>sv_db := d, sv_access := sv_access w + 1\<rparr>))"
  by (simp add: with_store_def alone_def Let_def)

lemma publish_alone: "alone env \<Longrightarrow> sv_db (publish_current env i w) = sv_db w"
  by (auto simp: publish_current_def with_store_alone split: option.splits prod.splits)

text \<open>The row of a job among the rows of the table.\<close>

definition at_row :: "row list \<Rightarrow> row \<Rightarrow> row list \<Rightarrow> db \<Rightarrow> bool" where
  "at_row pre r post d \<longleftrightarrow> db_rows d = pre @ r # post \<and> rw_id r \<notin> rw_id ` (set pre \<union> set post)"

lemma at_row_find: "at_row pre r post d \<Longrightarrow> find_row (rw_id r) (db_rows d) = Some r"
proof -
  assume r: "at_row pre r post d"
  then have "find (\<lambda>x. rw_id x = rw_id r) pre = None" unfolding at_row_def find_None_iff by (metis UnCI image_eqI)
  with r show ?thesis by (simp add: at_row_def find_row_def find_append)
qed

lemma at_row_update:
  assumes "at_row pre r post d" and "\<And>x. p x \<Longrightarrow> rw_id x = rw_id r"
  shows "sql_update p f (db_rows d) = (pre @ (if p r then f r else r) # post, if p r then 1 else 0)"
proof -
  have "\<not> p x" if "x \<in> set pre \<union> set post" for x using assms that unfolding at_row_def by (metis image_eqI)
  then have "map (\<lambda>x. if p x then f x else x) pre = pre" "map (\<lambda>x. if p x then f x else x) post = post"
    "filter p pre = []" "filter p post = []"
    by (auto intro!: map_idI simp: filter_empty_conv)
  with assms(1) show ?thesis by (simp add: at_row_def sql_update_def)
qed

lemma at_row_new:
  "at_row pre r post d \<Longrightarrow> rw_id r' = rw_id r \<Longrightarrow> at_row pre r' post (d\<lparr>db_rows := pre @ r' # post\<rparr>)"
  by (simp add: at_row_def)

lemma at_row_exists:
  assumes "distinct (map rw_id (db_rows d))" "r \<in> set (db_rows d)"
  obtains pre post where "at_row pre r post d"
proof -
  obtain pre post where "db_rows d = pre @ r # post" using assms(2) by (auto simp: in_set_conv_decomp)
  with assms(1) show thesis by (intro that [of pre post]) (auto simp: at_row_def)
qed

text \<open>The job is held: its row is in flight under the attempt of the token.\<close>

definition held :: "job \<Rightarrow> row \<Rightarrow> bool" where
  "held job r \<longleftrightarrow> owned_by (jb_id job) (jb_attempt job) r \<and> in_flight (rw_status r)"

lemma owned_id: "owned_by i a x \<Longrightarrow> owned_by i a r \<Longrightarrow> rw_id x = rw_id r"
  by (simp add: owned_by_def)

lemma progress_at_row:
  assumes "at_row pre r post d" "held job r" "st = S_Compiling \<or> st = S_Running"
  shows "\<exists>r' d'. store_progress now (jb_id job) (jb_attempt job) st k n lease d = (True, d') \<and>
    at_row pre r' post d' \<and> held job r' \<and> rw_id r' = rw_id r"
proof -
  let ?p = "\<lambda>x. owned_by (jb_id job) (jb_attempt job) x \<and> in_flight (rw_status x)"
  let ?f = "\<lambda>x. x\<lparr>rw_status := status_text st, rw_tests_done := u64_as_i64 k,
      rw_tests_total := u64_as_i64 n, rw_lease_until_ms := Some (i64_add now lease)\<rparr>"
  have "\<And>x. ?p x \<Longrightarrow> rw_id x = rw_id r" using assms(2) owned_id by (auto simp: held_def)
  from at_row_update [OF assms(1) this, where f = ?f] assms(2)
  have "store_progress now (jb_id job) (jb_attempt job) st k n lease d = (True, d\<lparr>db_rows := pre @ ?f r # post\<rparr>)"
    by (simp add: store_progress_def held_def)
  moreover have "held job (?f r)" using assms(2,3) by (auto simp: held_def owned_by_def)
  ultimately show ?thesis using at_row_new [OF assms(1), of "?f r"] by auto
qed

lemma heartbeat_at_row:
  assumes "alone env" "at_row pre r post (sv_db w)" "held job r"
  shows "\<exists>r'. at_row pre r' post (sv_db (heartbeat env job p w)) \<and> held job r' \<and> rw_id r' = rw_id r"
proof -
  obtain st k n where p: "progress_of p = (st, k, n)" "st = S_Compiling \<or> st = S_Running"
    by (cases p) (auto simp: progress_of_def)
  obtain r' d' where "store_progress (now_ms (en_clock env (sv_access w))) (jb_id job) (jb_attempt job) st k n
      (lease_ms (en_config env)) (sv_db w) = (True, d')"
    and r': "at_row pre r' post d'" "held job r'" "rw_id r' = rw_id r"
    using progress_at_row [OF assms(2,3) p(2)] by blast
  then have "sv_db (heartbeat env job p w) = d'"
    by (simp add: heartbeat_def p(1) with_store_alone [OF assms(1)] publish_alone [OF assms(1)])
  with r' show ?thesis by blast
qed

lemma heartbeats_at_row:
  assumes "alone env" "at_row pre r post (sv_db w)" "held job r"
  shows "\<exists>r'. at_row pre r' post (sv_db (fold (heartbeat env job) ps w)) \<and> held job r' \<and> rw_id r' = rw_id r"
  using assms(2,3)
proof (induction ps arbitrary: w r)
  case (Cons p ps)
  from heartbeat_at_row [OF assms(1) Cons.prems, of p] obtain r1
    where r1: "at_row pre r1 post (sv_db (heartbeat env job p w))" "held job r1" "rw_id r1 = rw_id r" by blast
  from Cons.IH [OF r1(1,2)] r1(3) show ?case by auto
qed auto

lemma held_not_done: "held job r \<Longrightarrow> rw_status r \<noteq> ''DONE''"
  by (auto simp: held_def)

lemma finish_at_row:
  assumes "at_row pre r post d" "held job r" "ser (jr_tests res) = Ok j"
  shows "store_finish ser now (jb_id job) (jb_attempt job) pv jv res d =
    (Ok True, d\<lparr>db_rows := pre @ finish_row now pv jv j res r # post\<rparr>)"
proof -
  let ?p = "\<lambda>x. owned_by (jb_id job) (jb_attempt job) x \<and> rw_status x \<noteq> ''DONE''"
  have "\<And>x. ?p x \<Longrightarrow> rw_id x = rw_id r" using assms(2) owned_id by (auto simp: held_def)
  from at_row_update [OF assms(1) this, where f = "finish_row now pv jv j res"] held_not_done [OF assms(2)] assms(2,3)
  show ?thesis by (simp add: store_finish_def held_def)
qed

lemma fail_at_row:
  assumes "at_row pre r post d" "held job r"
  shows "fail_attempt now (jb_id job) (jb_attempt job) mx err d =
    (Some (if mx \<le> jb_attempt job then S_Done else S_Queued),
     d\<lparr>db_rows := pre @ (if mx \<le> jb_attempt job then give_up_row now err r else retry_row err r) # post\<rparr>)"
proof -
  let ?p = "\<lambda>x. owned_by (jb_id job) (jb_attempt job) x \<and> rw_status x \<noteq> ''DONE''"
  have "\<And>x. ?p x \<Longrightarrow> rw_id x = rw_id r" using assms(2) owned_id by (auto simp: held_def)
  from at_row_update [OF assms(1) this, where f = "if mx \<le> jb_attempt job then give_up_row now err else retry_row err"]
    held_not_done [OF assms(2)] assms(2)
  show ?thesis by (auto simp: fail_attempt_def held_def Let_def)
qed

end
