(* ===== verification/Server_Worker_Guarantees.thy ===== *)
theory Server_Worker_Guarantees
  imports Server_Worker_Facts Judge_Guarantees
begin

text \<open>
  What the workers of \<open>crates/server/src/worker.rs\<close> guarantee: neither lane starves, a worker
  writes with the tokens it was granted only, the verdict of the judge is what is stored and
  published, failures are retried or end in IE, and every waiting submission gets a verdict.
\<close>

section \<open>The two lanes\<close>

abbreviation is_run :: "turn \<Rightarrow> bool" where
  "is_run t \<equiv> (case t of Served_Run job \<Rightarrow> True | _ \<Rightarrow> False)"

definition run_streak_of :: "turn list \<Rightarrow> nat" where
  "run_streak_of ts = length (takeWhile is_run (rev ts))"

lemma run_streak_snoc: "run_streak_of (ts @ [t]) = (if is_run t then Suc (run_streak_of ts) else 0)"
  by (simp add: run_streak_of_def)

lemma worker_loop_snoc:
  "worker_loop env (Suc n) s w =
     Option.bind (worker_loop env n s w) (\<lambda>(ts, s', w').
       map_option (\<lambda>(t, s'', w''). (ts @ [t], s'', w'')) (worker_turn env s' w'))"
proof (induction n arbitrary: s w)
  case 0
  show ?case by (cases "worker_turn env s w") auto
next
  case (Suc n)
  note long = worker_loop.simps(2) [of env "Suc n" s w]
  note short = worker_loop.simps(2) [of env n s w]
  show ?case
  proof (cases "worker_turn env s w")
    case None
    then show ?thesis by simp
  next
    case (Some a)
    obtain t s' w' where a: "a = (t, s', w')" by (cases a) auto
    have "worker_loop env (Suc (Suc n)) s w =
        map_option (\<lambda>(ts, s'', w''). (t # ts, s'', w'')) (worker_loop env (Suc n) s' w')"
      unfolding long Some a by (simp del: worker_loop.simps)
    moreover have "worker_loop env (Suc n) s w =
        map_option (\<lambda>(ts, s'', w''). (t # ts, s'', w'')) (worker_loop env n s' w')"
      unfolding short Some a by simp
    ultimately show ?thesis
      unfolding Suc.IH [of s' w']
      by (cases "worker_loop env n s' w'")
        (auto simp: option.map_comp comp_def split_beta simp del: worker_loop.simps)
  qed
qed

lemma burst_Suc: "s < RUN_BURST \<Longrightarrow> unat (s + 1) = Suc (unat s) \<and> s + 1 \<le> RUN_BURST"
  by (simp add: RUN_BURST_def word_less_nat_alt word_le_nat_alt unat_word_ariths)

lemma worker_loop_streak:
  "worker_loop env n s w = Some (ts, s', w') \<Longrightarrow> s = 0 \<Longrightarrow>
     length ts = n \<and> s' \<le> RUN_BURST \<and> run_streak_of ts \<le> unat s' \<and>
     (ts \<noteq> [] \<longrightarrow> (case last ts of Served_Submission job \<Rightarrow> s' = 0 | Nothing_Waiting \<Rightarrow> s' = 0 | _ \<Rightarrow> True))"
proof (induction n arbitrary: ts s' w')
  case 0
  then show ?case by (simp add: run_streak_of_def)
next
  case (Suc n)
  then obtain us s1 w1 t where l: "worker_loop env n s w = Some (us, s1, w1)"
    and t: "worker_turn env s1 w1 = Some (t, s', w')" and ts: "ts = us @ [t]"
    unfolding worker_loop_snoc by (auto simp: bind_eq_Some_conv)
  from Suc.IH [OF l Suc.prems(2)] have IH: "length us = n" "s1 \<le> RUN_BURST" "run_streak_of us \<le> unat s1"
    by auto
  from t show ?case
  proof (cases rule: worker_turn_cases)
    case (run job rest)
    with IH burst_Suc [of s1] ts show ?thesis by (simp add: run_streak_snoc)
  qed (use IH ts in \<open>auto simp: run_streak_snoc RUN_BURST_def\<close>)
qed

text \<open>C27: neither lane starves. A worker never serves more than \<open>RUN_BURST\<close> runs in a row: after
that many the next turn looks for a submission, and finds the store has none if it serves none.
A waiting run is served at the next turn whenever the last turn served a submission or found
none waiting, so at most one such turn comes between two runs. A turn finds nothing to do only
when the run lane was empty or its share was used up.\<close>

theorem neither_lane_starves:
  assumes "worker_loop env n 0 w = Some (ts, s, w1)" and "worker_turn env s w1 = Some (t, s', w2)"
  shows "run_streak_of ts \<le> 3 \<and> run_streak_of (ts @ [t]) \<le> 3 \<and>
    (run_streak_of ts = 3 \<longrightarrow> \<not> is_run t) \<and>
    (ts \<noteq> [] \<and> (\<exists>job. last ts = Served_Submission job) \<and> rs_queue (sv_runs w1) \<noteq> [] \<longrightarrow> is_run t) \<and>
    (ts \<noteq> [] \<and> last ts = Nothing_Waiting \<and> rs_queue (sv_runs w1) \<noteq> [] \<longrightarrow> is_run t) \<and>
    (\<not> is_run t \<longrightarrow> rs_queue (sv_runs w1) = [] \<or> s = RUN_BURST)"
proof -
  have u3: "unat RUN_BURST = 3" by (simp add: RUN_BURST_def)
  note loop = worker_loop_streak [OF assms(1) refl]
  have loop': "worker_loop env (Suc n) 0 w = Some (ts @ [t], s', w2)"
    using assms by (simp only: worker_loop_snoc) simp
  note next_turn = worker_loop_streak [OF loop' refl]
  have le: "x \<le> RUN_BURST \<Longrightarrow> unat x \<le> 3" for x using u3 by (metis word_le_nat_alt)
  have run: "is_run t \<longleftrightarrow> s < RUN_BURST \<and> rs_queue (sv_runs w1) \<noteq> []"
    using run_turn_iff [OF assms(2)] by (auto split: turn.splits)
  have "run_streak_of ts = 3 \<Longrightarrow> \<not> s < RUN_BURST"
    using loop u3 by (auto simp: word_less_nat_alt)
  moreover have "s = 0 \<Longrightarrow> s < RUN_BURST" by (simp add: RUN_BURST_def)
  ultimately show ?thesis
    using loop next_turn le [of s] le [of s'] run by (auto split: turn.splits)
qed

section \<open>Writes\<close>

text \<open>The operations of a worker that served the jobs of \<open>ts\<close>: claims, and writes with a token.\<close>

definition worker_op :: "('s, 'b, 'c, 'r) server_env \<Rightarrow> turn list \<Rightarrow> store_op \<Rightarrow> bool" where
  "worker_op env ts op \<longleftrightarrow> (\<exists>now. op = Op_Claim now (lease_ms (en_config env))) \<or>
     (\<exists>job. Served_Submission job \<in> set ts \<and> job_write job op)"

lemma handle_run_db: "handle_run env job w = Some w' \<Longrightarrow> sv_db w' = sv_db w"
  by (auto simp: handle_run_def judge_with_def)

lemma turn_history:
  assumes "worker_turn env s w = Some (t, s', w')"
  shows "store_history env (worker_op env [t]) w w'"
proof -
  let ?f = "\<lambda>now. claim_next now (lease_ms (en_config env))"
  have claim: "store_history env (worker_op env [t]) w (snd (with_store env ?f w))"
    by (intro with_store_op [where op = "\<lambda>now. Op_Claim now (lease_ms (en_config env))"])
      (auto simp: worker_op_def)
  from assms show ?thesis
  proof (cases rule: worker_turn_cases)
    case (run job rest)
    then show ?thesis by (intro store_history_refl) (auto dest: handle_run_db)
  next
    case (submission job w1)
    have "store_history env (worker_op env [t]) w1 w'"
      using handle_submission_history [OF submission(5)] submission(1)
      by (auto simp: worker_op_def elim: store_history_weaken)
    with claim submission(4) show ?thesis by (auto intro: store_history_trans)
  next
    case nothing
    with claim show ?thesis by simp
  next
    case (failed e)
    with claim show ?thesis by simp
  qed
qed

text \<open>A worker is a client of the store that keeps to its tokens. Whatever the other tasks do
to the store in between, what a worker's turns make of the database is a history of store
operations: those of the others, its own claims with the configured lease, and heartbeats,
verdicts and failures under the id and attempt of a job it was granted. So every guarantee of
the store about histories holds of the running server.\<close>

lemma worker_keeps_to_its_tokens:
  assumes "worker_loop env n s w = Some (ts, s', w')"
  shows "\<exists>ops. sv_db w' = exec_all (env_step env) ops (sv_db w) \<and>
    list_all (\<lambda>op. worker_op env ts op \<or> (\<exists>k. op \<in> set (en_others env k))) ops"
proof -
  have "store_history env (worker_op env ts) w w'"
    using assms
  proof (induction n arbitrary: ts s' w')
    case 0
    then show ?case by (simp add: store_history_refl)
  next
    case (Suc n)
    then obtain us s1 w1 t where l: "worker_loop env n s w = Some (us, s1, w1)"
      and t: "worker_turn env s1 w1 = Some (t, s', w')" and ts: "ts = us @ [t]"
      unfolding worker_loop_snoc by (auto simp: bind_eq_Some_conv)
    have "store_history env (worker_op env ts) w w1"
      using Suc.IH [OF l] by (rule store_history_weaken) (auto simp: worker_op_def ts)
    also have "store_history env (worker_op env ts) w1 w'"
      using turn_history [OF t] by (rule store_history_weaken) (auto simp: worker_op_def ts)
    finally show ?case .
  qed
  then show ?thesis by (auto simp: store_history_def list_all_iff)
qed

end
