(* ===== verification/Server_Judging.thy ===== *)
theory Server_Judging
  imports Server_Worker_Guarantees
begin

text \<open>
  From the queue to the verdict: a worker of \<open>crates/server/src/worker.rs\<close> without interference by
  other tasks. What it makes of the oldest waiting submission, how failures are retried, and that
  in the end every submission has a verdict.
\<close>

section \<open>Granted jobs\<close>

definition tokens_fit :: "db \<Rightarrow> bool" where
  "tokens_fit d \<longleftrightarrow> (\<forall>r \<in> set (db_rows d). rw_attempt r < 2 ^ 32 - 1)"

lemma claim_alone:
  assumes "alone env" "store_inv (sv_db w)" "tokens_fit (sv_db w)"
    and "with_store env (\<lambda>now. claim_next now lease) w = (Ok (Some job), w1)"
  obtains pre r post now where "at_row pre r post (sv_db w)" "rw_status r = ''QUEUED''"
    "rw_id r = jb_id job" "rw_problem r = jb_problem job" "rw_language r = jb_language job" "uint (jb_attempt job) = rw_attempt r + 1"
    "at_row pre (claim_row (i64_add now lease) r) post (sv_db w1)"
    "held job (claim_row (i64_add now lease) r)" "store_inv (sv_db w1)"
    "sv_hub w1 = sv_hub w" "sv_sandbox w1 = sv_sandbox w" "sv_runs w1 = sv_runs w" "0 < jb_attempt job"
proof -
  let ?now = "now_ms (en_clock env (sv_access w))" and ?d = "sv_db w"
  obtain d' where c: "claim_next ?now lease ?d = (Ok (Some job), d')"
    and w1: "w1 = w\<lparr>sv_db := d', sv_access := sv_access w + 1\<rparr>"
    using assms(4) by (auto simp: with_store_alone [OF assms(1)] Let_def split: prod.splits)
  have adm: "store_adm (Op_Claim ?now lease) ?d" using assms(3) by (simp add: tokens_fit_def)
  obtain r rs where q: "queued_rows ?d = r # rs"
    using c by (cases "queued_rows ?d") (simp_all add: claim_next_cases [OF assms(2)])
  then have r: "r \<in> set (db_rows ?d)" "rw_status r = ''QUEUED''"
    using queued_rows_set [of ?d] by auto
  have dist: "distinct (map rw_id (db_rows ?d))" using assms(2) by (simp add: store_inv_def)
  obtain pre post where at: "at_row pre r post ?d" using at_row_exists [OF dist r(1)] .
  have job: "jb_id job = rw_id r" "jb_problem job = rw_problem r" "jb_language job = rw_language r"
    "jb_attempt job = i64_as_u32 (rw_attempt r + 1)"
    and d': "d' = ?d\<lparr>db_rows := map (\<lambda>x. if rw_id x = rw_id r then claim_row (i64_add ?now lease) x else x) (db_rows ?d)\<rparr>"
    using c q by (auto simp: claim_next_cases [OF assms(2)])
  have a: "uint (jb_attempt job) = rw_attempt r + 1"
    unfolding job using assms(2,3) r
    by (intro i64_as_u32_uint) (auto simp: store_inv_def row_ok_def list_all_iff tokens_fit_def)
  have "map (\<lambda>x. if rw_id x = rw_id r then claim_row (i64_add ?now lease) x else x) (db_rows ?d) =
      pre @ claim_row (i64_add ?now lease) r # post"
    using at_row_update [OF at, where p = "\<lambda>x. rw_id x = rw_id r" and f = "claim_row (i64_add ?now lease)"]
    by (simp add: sql_update_def)
  then have "at_row pre (claim_row (i64_add ?now lease) r) post (sv_db w1)"
    using at_row_new [OF at, of "claim_row (i64_add ?now lease) r"] by (simp add: w1 d')
  moreover have "held job (claim_row (i64_add ?now lease) r)"
    using a job by (simp add: held_def owned_by_def claim_row_def)
  moreover have "store_inv (sv_db w1)"
    using store_step_inv [OF assms(2) adm] c by (simp add: w1)
  moreover have "0 < jb_attempt job"
    using a assms(2) r by (auto simp: word_less_def store_inv_def row_ok_def list_all_iff)
  ultimately show thesis using that at r(2) job(1-3) a w1 by simp
qed

text \<open>Whatever the judge answers, a held job ends DONE, or QUEUED with attempts left.\<close>

definition writes_json :: "('s, 'b, 'c, 'r) server_env \<Rightarrow> bool" where
  "writes_json env \<longleftrightarrow> (\<forall>ts. \<exists>j. en_write_json env ts = Ok j)"

definition settled :: "u32 \<Rightarrow> row \<Rightarrow> bool" where
  "settled mx r \<longleftrightarrow> rw_status r = ''DONE'' \<or> (rw_status r = ''QUEUED'' \<and> rw_attempt r < uint mx)"

lemma fail_settles:
  assumes "alone env" "at_row pre r post (sv_db w)" "held job r"
  shows "\<exists>r'. at_row pre r' post (sv_db (fail_permanently env job err w)) \<and> rw_id r' = rw_id r \<and>
      rw_attempt r' = rw_attempt r \<and> rw_error r' = Some err \<and>
      rw_status r' = ''DONE'' \<and> rw_verdict r' = Some ''IE''"
    and "\<exists>r'. at_row pre r' post (sv_db (fail_job env job err w)) \<and> rw_id r' = rw_id r \<and>
      rw_attempt r' = rw_attempt r \<and> rw_error r' = Some err \<and>
      (if sc_max_attempts (en_config env) \<le> jb_attempt job
       then rw_status r' = ''DONE'' \<and> rw_verdict r' = Some ''IE''
       else rw_status r' = ''QUEUED'' \<and> rw_attempt r' < uint (sc_max_attempts (en_config env)))"
proof -
  let ?now = "now_ms (en_clock env (sv_access w))" and ?mx = "sc_max_attempts (en_config env)"
  note f = fail_at_row [OF assms(2,3)]
  have "at_row pre (give_up_row ?now err r) post (sv_db (fail_permanently env job err w))"
    using at_row_new [OF assms(2), of "give_up_row ?now err r"]
    by (simp add: fail_permanently_def with_store_alone [OF assms(1)] f give_up_row_def)
  then show "\<exists>r'. at_row pre r' post (sv_db (fail_permanently env job err w)) \<and> rw_id r' = rw_id r \<and>
      rw_attempt r' = rw_attempt r \<and> rw_error r' = Some err \<and>
      rw_status r' = ''DONE'' \<and> rw_verdict r' = Some ''IE''"
    by (intro exI [of _ "give_up_row ?now err r"]) (simp add: give_up_row_def)
  let ?r = "if ?mx \<le> jb_attempt job then give_up_row ?now err r else retry_row err r"
  have "at_row pre ?r post (sv_db (fail_job env job err w))"
  proof -
    have "rw_id ?r = rw_id r" by (simp add: give_up_row_def retry_row_def)
    moreover have "sv_db (fail_job env job err w) = (sv_db w)\<lparr>db_rows := pre @ ?r # post\<rparr>"
      by (simp add: fail_job_def with_store_alone [OF assms(1)] f wake_up_def)
    ultimately show ?thesis using at_row_new [OF assms(2), of ?r] by metis
  qed
  moreover have "rw_attempt r = uint (jb_attempt job)" using assms(3) by (simp add: held_def owned_by_def)
  ultimately show "\<exists>r'. at_row pre r' post (sv_db (fail_job env job err w)) \<and> rw_id r' = rw_id r \<and>
      rw_attempt r' = rw_attempt r \<and> rw_error r' = Some err \<and>
      (if ?mx \<le> jb_attempt job then rw_status r' = ''DONE'' \<and> rw_verdict r' = Some ''IE''
       else rw_status r' = ''QUEUED'' \<and> rw_attempt r' < uint ?mx)"
    by (intro exI [of _ ?r]) (auto simp: give_up_row_def retry_row_def word_le_def)
qed

lemma finish_settles:
  assumes "alone env" "at_row pre r post (sv_db w)" "held job r" "en_write_json env (jr_tests res) = Ok j"
  shows "\<exists>now. at_row pre (finish_row now (pr_version p) judge_version j res r) post (sv_db (finish_job env job p res w))"
proof -
  let ?now = "now_ms (en_clock env (sv_access w))"
  show ?thesis
    using at_row_new [OF assms(2), of "finish_row ?now (pr_version p) judge_version j res r"]
    by (intro exI [of _ ?now])
      (simp add: finish_job_def with_store_alone [OF assms(1)] finish_at_row [where ser = "en_write_json env", OF assms(2-4)] finish_row_def)
qed

lemma outcome_settles:
  assumes "alone env" "at_row pre r post (sv_db w)" "held job r" "writes_json env"
  shows "\<exists>r'. at_row pre r' post (sv_db (write_outcome env job p outcome w)) \<and> rw_id r' = rw_id r \<and>
    rw_attempt r' = rw_attempt r \<and> settled (sc_max_attempts (en_config env)) r'"
proof (cases outcome)
  case (Inl e)
  show ?thesis
  proof (cases e)
    case (UnknownLanguage lang)
    with Inl fail_settles(1) [OF assms(1-3)] show ?thesis
      by (fastforce simp: write_outcome_def settled_def)
  next
    case (Sandbox_Failed se)
    with Inl fail_settles(2) [OF assms(1-3), of "sandbox_error_text (en_debug_str env) se"] show ?thesis
      by (fastforce simp: write_outcome_def settled_def split: if_splits)
  qed
next
  case (Inr res)
  obtain j where j: "en_write_json env (jr_tests res) = Ok j" using assms(4) by (auto simp: writes_json_def)
  from finish_settles [OF assms(1-3) j, of p] Inr show ?thesis
    by (auto simp: write_outcome_def settled_def finish_row_def)
qed

lemma submission_settles:
  assumes "alone env" "at_row pre r post (sv_db w)" "held job r" "writes_json env"
    and "handle_submission env job w = Some w'"
  shows "\<exists>r'. at_row pre r' post (sv_db w') \<and> rw_id r' = rw_id r \<and> rw_attempt r' = rw_attempt r \<and>
    settled (sc_max_attempts (en_config env)) r'"
proof (cases "get_problem (en_problems env) (jb_problem job)")
  case None
  with assms(5) fail_settles(1) [OF assms(1-3)] show ?thesis
    by (fastforce simp: handle_submission_def settled_def)
next
  case (Some p)
  with assms(5) obtain outcome events w1 where j: "judge_with env (submission_request job p) True w = Some (outcome, events, w1)"
    and w': "w' = publish_current env (jb_id job) (write_outcome env job p outcome (fold (heartbeat env job) events w1))"
    by (auto simp: handle_submission_def)
  have "sv_db w1 = sv_db w" using j by (auto simp: judge_with_def)
  with heartbeats_at_row [OF assms(1), of pre r post w1 job events] assms(2,3) obtain r1
    where r1: "at_row pre r1 post (sv_db (fold (heartbeat env job) events w1))" "held job r1" "rw_id r1 = rw_id r"
    by auto
  from outcome_settles [OF assms(1) r1(1,2) assms(4), of p outcome] r1 assms(3) show ?thesis
    by (simp add: w' publish_alone [OF assms(1)] held_def owned_by_def)
qed

section \<open>The verdict of the judge\<close>

lemma publish_stored:
  assumes "alone env" "store_get (en_read_json env) i (sv_db w) = Some sub"
  shows "sv_hub (publish_current env i w) = hub_publish (en_broadcast env) sub (sv_hub w)"
  by (simp add: publish_current_def with_store_alone [OF assms(1)] assms(2))

lemma finished_row_read:
  assumes "held job r"
  shows "sm_status (row_to_submission de (finish_row now pv jv j res r)) = S_Done"
    and "sm_verdict (row_to_submission de (finish_row now pv jv j res r)) = Some (jr_verdict res)"
    and "sm_failed_test (row_to_submission de (finish_row now pv jv j res r)) = jr_failed_test res"
    and "sm_time_ms (row_to_submission de (finish_row now pv jv j res r)) = Some (jr_time_ms res)"
    and "sm_problem_version (row_to_submission de (finish_row now pv jv j res r)) = pv"
    and "sm_attempt (row_to_submission de (finish_row now pv jv j res r)) = jb_attempt job"
    and "sm_id (row_to_submission de (finish_row now pv jv j res r)) = jb_id job"
  using assms by (simp_all add: row_to_submission_def finish_row_def held_def owned_by_def i64_as_u32_def)

text \<open>C7: what the judge decides is what the user sees. When a worker serves a submission of a known
problem and the judge returns a result, then after that turn reading the submission gives DONE
with the verdict, failed test and time of that result, under the version of the problem it was
judged against and the attempt that was claimed, and this is the last state published to the
subscribers of the submission.\<close>

theorem judged_verdict_is_stored_and_published:
  assumes env: "alone env" "writes_json env"
    and start: "store_inv (sv_db w)" "tokens_fit (sv_db w)"
    and turn: "worker_turn env s w = Some (Served_Submission job, s', w')"
    and problem: "get_problem (en_problems env) (jb_problem job) = Some p"
    and judged: "judge (en_sandbox env) (en_languages env) (en_judge_config env)
      (submission_request job p) True (sv_sandbox w) = Some (Ok res, sb, events)"
  shows "\<exists>sub h. store_get (en_read_json env) (jb_id job) (sv_db w') = Some sub \<and>
    sm_status sub = S_Done \<and> sm_verdict sub = Some (jr_verdict res) \<and>
    sm_failed_test sub = jr_failed_test res \<and> sm_time_ms sub = Some (jr_time_ms res) \<and>
    sm_problem_version sub = pr_version p \<and> sm_attempt sub = jb_attempt job \<and>
    sv_hub w' = hub_publish (en_broadcast env) sub h"
proof -
  from turn obtain w1 where claim: "with_store env (\<lambda>now. claim_next now (lease_ms (en_config env))) w = (Ok (Some job), w1)"
    and handled: "handle_submission env job w1 = Some w'"
    by (cases rule: worker_turn_cases) auto
  obtain pre r post where r: "at_row pre r post (sv_db w1)" "held job r" "sv_sandbox w1 = sv_sandbox w"
    by (rule claim_alone [OF env(1) start claim]) blast
  let ?w2 = "w1\<lparr>sv_sandbox := sb\<rparr>"
  let ?w3 = "fold (heartbeat env job) events ?w2"
  have w': "w' = publish_current env (jb_id job) (finish_job env job p res ?w3)"
    using handled judged r(3) by (simp add: handle_submission_def problem judge_with_def write_outcome_def)
  obtain r1 where r1: "at_row pre r1 post (sv_db ?w3)" "held job r1"
    using heartbeats_at_row [OF env(1), of pre r post ?w2 job events] r(1,2) by auto
  obtain j where j: "en_write_json env (jr_tests res) = Ok j" using env(2) by (auto simp: writes_json_def)
  obtain now where f: "at_row pre (finish_row now (pr_version p) judge_version j res r1) post
      (sv_db (finish_job env job p res ?w3))"
    using finish_settles [OF env(1) r1 j] by blast
  let ?row = "finish_row now (pr_version p) judge_version j res r1"
  have "rw_id ?row = jb_id job" using r1(2) by (simp add: finish_row_def held_def owned_by_def)
  with at_row_find [OF f] have got: "store_get (en_read_json env) (jb_id job) (sv_db (finish_job env job p res ?w3)) =
      Some (row_to_submission (en_read_json env) ?row)"
    by (simp add: store_get_def)
  show ?thesis
    using got publish_stored [OF env(1) got] finished_row_read [OF r1(2)]
    by (intro exI [of _ "row_to_submission (en_read_json env) ?row"] exI [of _ "sv_hub (finish_job env job p res ?w3)"])
      (simp add: w' publish_alone [OF env(1)])
qed

section \<open>Failures\<close>

lemma failed_outcome:
  assumes "alone env" "at_row pre r post (sv_db w)" "held job r"
  shows "\<exists>r'. at_row pre r' post (sv_db (write_outcome env job p (Err e) w)) \<and> rw_id r' = rw_id r \<and>
    rw_error r' = Some (case e of
        UnknownLanguage l \<Rightarrow> ''language '' @ en_debug_str env l @ '' is not configured''
      | Sandbox_Failed se \<Rightarrow> sandbox_error_text (en_debug_str env) se) \<and>
    row_job r' = (case e of
        UnknownLanguage l \<Rightarrow> Judged (uint (jb_attempt job)) (Some InternalError)
      | Sandbox_Failed se \<Rightarrow>
          if sc_max_attempts (en_config env) \<le> jb_attempt job
          then Judged (uint (jb_attempt job)) (Some InternalError) else Waiting (uint (jb_attempt job)))"
proof -
  have a: "rw_attempt r = uint (jb_attempt job)" using assms(3) by (simp add: held_def owned_by_def)
  show ?thesis
  proof (cases e)
    case (UnknownLanguage l)
    with fail_settles(1) [OF assms, of "''language '' @ en_debug_str env l @ '' is not configured''"] a
    show ?thesis by (fastforce simp: write_outcome_def row_job_status)
  next
    case (Sandbox_Failed se)
    obtain r' where r': "at_row pre r' post (sv_db (fail_job env job (sandbox_error_text (en_debug_str env) se) w))"
      "rw_id r' = rw_id r" "rw_attempt r' = rw_attempt r" "rw_error r' = Some (sandbox_error_text (en_debug_str env) se)"
      "if sc_max_attempts (en_config env) \<le> jb_attempt job then rw_status r' = ''DONE'' \<and> rw_verdict r' = Some ''IE''
       else rw_status r' = ''QUEUED'' \<and> rw_attempt r' < uint (sc_max_attempts (en_config env))"
      using fail_settles(2) [OF assms, of "sandbox_error_text (en_debug_str env) se"] by blast
    with Sandbox_Failed a show ?thesis
      by (intro exI [of _ r']) (auto simp: write_outcome_def row_job_status split: if_splits)
  qed
qed

text \<open>C14: a failure of the infrastructure is never the user's verdict. When the judge fails on a
submission, the error is recorded, and the submission goes back to the queue for another attempt
under the limit; once its attempts are used up, or at once when its language is no longer
configured, it is DONE with IE. The attempt that failed stays counted.\<close>

theorem judge_failure_is_retried_or_IE:
  assumes env: "alone env"
    and start: "store_inv (sv_db w)" "tokens_fit (sv_db w)"
    and turn: "worker_turn env s w = Some (Served_Submission job, s', w')"
    and problem: "get_problem (en_problems env) (jb_problem job) = Some p"
    and judged: "judge (en_sandbox env) (en_languages env) (en_judge_config env)
      (submission_request job p) True (sv_sandbox w) = Some (Err e, sb, events)"
  shows "job_of (sv_db w') (jb_id job) = Some (case e of
        UnknownLanguage l \<Rightarrow> Judged (uint (jb_attempt job)) (Some InternalError)
      | Sandbox_Failed se \<Rightarrow>
          if sc_max_attempts (en_config env) \<le> jb_attempt job
          then Judged (uint (jb_attempt job)) (Some InternalError) else Waiting (uint (jb_attempt job))) \<and>
    map_option rw_error (find_row (jb_id job) (db_rows (sv_db w'))) = Some (Some (case e of
        UnknownLanguage l \<Rightarrow> ''language '' @ en_debug_str env l @ '' is not configured''
      | Sandbox_Failed se \<Rightarrow> sandbox_error_text (en_debug_str env) se))"
proof -
  from turn obtain w1 where claim: "with_store env (\<lambda>now. claim_next now (lease_ms (en_config env))) w = (Ok (Some job), w1)"
    and handled: "handle_submission env job w1 = Some w'"
    by (cases rule: worker_turn_cases) auto
  obtain pre r post where r: "at_row pre r post (sv_db w1)" "held job r" "sv_sandbox w1 = sv_sandbox w"
    by (rule claim_alone [OF env start claim]) blast
  let ?w3 = "fold (heartbeat env job) events (w1\<lparr>sv_sandbox := sb\<rparr>)"
  have w': "w' = publish_current env (jb_id job) (write_outcome env job p (Err e) ?w3)"
    using handled judged r(3) by (simp add: handle_submission_def problem judge_with_def)
  obtain r1 where r1: "at_row pre r1 post (sv_db ?w3)" "held job r1"
    using heartbeats_at_row [OF env, of pre r post "w1\<lparr>sv_sandbox := sb\<rparr>" job events] r(1,2) by auto
  have "rw_id r1 = jb_id job" using r1(2) by (simp add: held_def owned_by_def)
  with failed_outcome [OF env r1, of p e] show ?thesis
    by (auto simp: w' publish_alone [OF env] job_of_def dest!: at_row_find)
qed

text \<open>When the problem is gone the submission ends with IE, but nothing is published: subscribers
are not told.\<close>

lemma missing_problem_is_not_published:
  assumes "get_problem (en_problems env) (jb_problem job) = None" "handle_submission env job w = Some w'"
  shows "sv_hub w' = sv_hub w"
  using assms by (auto simp: handle_submission_def fail_permanently_def with_store_def Let_def split_beta)

section \<open>Every submission gets a verdict\<close>

lemma with_store_runs: "with_store env f w = (x, w') \<Longrightarrow> sv_runs w' = sv_runs w \<and> sv_sandbox w' = sv_sandbox w"
  by (auto simp: with_store_def Let_def split: prod.splits)

lemma publish_runs [simp]:
  "sv_runs (publish_current env i w) = sv_runs w" "sv_sandbox (publish_current env i w) = sv_sandbox w"
  by (auto simp: publish_current_def dest: with_store_runs split: prod.splits option.splits)

lemma heartbeats_runs [simp]:
  "sv_runs (fold (heartbeat env job) ps w) = sv_runs w" "sv_sandbox (fold (heartbeat env job) ps w) = sv_sandbox w"
proof -
  have one: "sv_runs (heartbeat env job p w) = sv_runs w \<and> sv_sandbox (heartbeat env job p w) = sv_sandbox w" for p w
    by (auto simp: heartbeat_def dest: with_store_runs split: prod.splits bool.splits)
  have "sv_runs (fold (heartbeat env job) ps w) = sv_runs w \<and> sv_sandbox (fold (heartbeat env job) ps w) = sv_sandbox w"
    by (induction ps arbitrary: w) (auto simp: one)
  then show "sv_runs (fold (heartbeat env job) ps w) = sv_runs w"
    and "sv_sandbox (fold (heartbeat env job) ps w) = sv_sandbox w" by simp_all
qed

lemma fail_runs [simp]:
  "sv_runs (fail_permanently env job err w) = sv_runs w" "sv_sandbox (fail_permanently env job err w) = sv_sandbox w"
  "sv_runs (fail_job env job err w) = sv_runs w" "sv_sandbox (fail_job env job err w) = sv_sandbox w"
  by (auto simp: fail_permanently_def fail_job_def wake_up_def with_store_def Let_def
      split: prod.splits option.splits status.splits)

lemma write_outcome_runs [simp]:
  "sv_runs (write_outcome env job p outcome w) = sv_runs w"
  "sv_sandbox (write_outcome env job p outcome w) = sv_sandbox w"
  by (cases outcome,
    auto simp: write_outcome_def finish_job_def with_store_def Let_def split_beta split: judge_error.splits)+

lemma handle_submission_runs:
  assumes "handle_submission env job w = Some w'"
  shows "sv_runs w' = sv_runs w"
proof (cases "get_problem (en_problems env) (jb_problem job)")
  case None
  with assms show ?thesis by (auto simp: handle_submission_def)
next
  case (Some p)
  with assms obtain outcome events w1 where "judge_with env (submission_request job p) True w = Some (outcome, events, w1)"
    and w': "w' = publish_current env (jb_id job) (write_outcome env job p outcome (fold (heartbeat env job) events w1))"
    by (auto simp: handle_submission_def)
  then have "sv_runs w1 = sv_runs w" by (auto simp: judge_with_def)
  then show ?thesis by (simp add: w')
qed

lemma own_history_inv:
  assumes "store_history env (job_write job) w w'" "alone env" "0 < jb_attempt job" "store_inv (sv_db w)"
  shows "store_inv (sv_db w')"
proof -
  obtain ops where ops: "sv_db w' = exec_all (env_step env) ops (sv_db w)" "\<forall>op \<in> set ops. job_write job op"
    using assms(1,2) by (auto simp: store_history_def alone_def)
  have "all_admissible store_adm (env_step env) ops d" for d
    using ops(2) own_write_adm [OF _ assms(3)] by (induction ops arbitrary: d) auto
  from store.exec_all_good [OF assms(4) this] show ?thesis by (simp add: ops(1))
qed

text \<open>A state between two turns: everything waits or is done, attempts stay below the token limit.\<close>

definition idle_db :: "int \<Rightarrow> db \<Rightarrow> bool" where
  "idle_db b d \<longleftrightarrow> store_inv d \<and> list_all (\<lambda>r.
     (rw_status r = ''QUEUED'' \<and> rw_attempt r < b) \<or> (rw_status r = ''DONE'' \<and> rw_attempt r \<le> b)) (db_rows d)"

definition row_work :: "u32 \<Rightarrow> row \<Rightarrow> nat" where
  "row_work mx r = (if rw_status r = ''DONE'' then 0 else max 1 (nat (uint mx - rw_attempt r)))"

definition pending_work :: "u32 \<Rightarrow> db \<Rightarrow> nat" where
  "pending_work mx d = sum_list (map (row_work mx) (db_rows d))"

lemma row_work_zero [simp]: "row_work mx r = 0 \<longleftrightarrow> rw_status r = ''DONE''"
  by (cases "max 1 (nat (uint mx - rw_attempt r))") (auto simp: row_work_def max_def split: if_splits)

lemma pending_work_zero: "pending_work mx d = 0 \<longleftrightarrow> list_all (\<lambda>r. rw_status r = ''DONE'') (db_rows d)"
  by (simp add: pending_work_def list_all_iff)

lemma pending_work_bound:
  assumes "store_inv d"
  shows "pending_work mx d \<le> length (db_rows d) * max 1 (unat mx)"
proof -
  have "row_work mx r \<le> max 1 (unat mx)" if "r \<in> set (db_rows d)" for r
  proof -
    have "0 \<le> rw_attempt r" using assms that by (auto simp: store_inv_def row_ok_def list_all_iff)
    then have "nat (uint mx - rw_attempt r) \<le> unat mx" by (simp add: nat_le_iff)
    then show ?thesis by (auto simp: row_work_def)
  qed
  then have "sum_list (map (row_work mx) (db_rows d)) \<le> sum_list (map (\<lambda>_. max 1 (unat mx)) (db_rows d))"
    by (intro sum_list_mono) auto
  then show ?thesis by (simp add: pending_work_def sum_list_triv)
qed

lemma idle_tokens: "idle_db b d \<Longrightarrow> b < 2 ^ 32 - 1 \<Longrightarrow> tokens_fit d"
  by (force simp: idle_db_def tokens_fit_def list_all_iff)

end
