(* ===== verification/Server_Liveness.thy ===== *)
theory Server_Liveness
  imports Server_Judging
begin

text \<open>
  Termination of the queue: a worker of \<open>crates/server/src/worker.rs\<close> that is left alone brings every
  submission to a verdict, because each turn uses up an attempt or ends a submission. The sample
  server at the end evaluates the guarantees of the workers on a concrete state.
\<close>

section \<open>Each turn makes progress\<close>

text \<open>Rows that are done stay.\<close>

definition keeps_done :: "db \<Rightarrow> db \<Rightarrow> bool" where
  "keeps_done d d' \<longleftrightarrow> (\<forall>r \<in> set (db_rows d). rw_status r = ''DONE'' \<longrightarrow> r \<in> set (db_rows d'))"

lemma keeps_done_refl [simp]: "db_rows d' = db_rows d \<Longrightarrow> keeps_done d d'"
  by (simp add: keeps_done_def)

lemma keeps_done_trans [trans]: "keeps_done d d' \<Longrightarrow> keeps_done d' d'' \<Longrightarrow> keeps_done d d''"
  by (simp add: keeps_done_def)

lemma at_row_keeps_done: "at_row pre r post d \<Longrightarrow> at_row pre r' post d' \<Longrightarrow> rw_status r \<noteq> ''DONE'' \<Longrightarrow> keeps_done d d'"
  by (auto simp: keeps_done_def at_row_def)

lemma settled_work:
  assumes "rw_status r = ''QUEUED''" "rw_attempt r' = rw_attempt r + 1" "settled mx r'"
  shows "row_work mx r' < row_work mx r"
  using assms by (auto simp: row_work_def settled_def)

lemma at_row_work:
  assumes "at_row pre r post d" "at_row pre r' post d'" "row_work mx r' < row_work mx r"
  shows "pending_work mx d' < pending_work mx d"
  using assms by (simp add: at_row_def pending_work_def)

lemma at_row_ids:
  "at_row pre r post d \<Longrightarrow> at_row pre r' post d' \<Longrightarrow> rw_id r' = rw_id r \<Longrightarrow>
     map rw_id (db_rows d') = map rw_id (db_rows d)"
  by (simp add: at_row_def)

lemma claim_result:
  assumes "alone env" "store_inv (sv_db w)"
  shows "if list_all (\<lambda>r. rw_status r \<noteq> ''QUEUED'') (db_rows (sv_db w))
    then \<exists>w1. with_store env (\<lambda>now. claim_next now lease) w = (Ok None, w1) \<and> sv_db w1 = sv_db w \<and>
      sv_runs w1 = sv_runs w \<and> sv_sandbox w1 = sv_sandbox w
    else \<exists>job w1. with_store env (\<lambda>now. claim_next now lease) w = (Ok (Some job), w1)"
proof (cases "queued_rows (sv_db w)")
  case Nil
  then have "list_all (\<lambda>r. rw_status r \<noteq> ''QUEUED'') (db_rows (sv_db w))"
    using queued_rows_set [of "sv_db w"] by (auto simp: list_all_iff)
  with Nil show ?thesis
    by (simp add: with_store_alone [OF assms(1)] claim_next_cases [OF assms(2)])
next
  case (Cons r rs)
  then have "\<not> list_all (\<lambda>r. rw_status r \<noteq> ''QUEUED'') (db_rows (sv_db w))"
    using queued_rows_set [of "sv_db w"] by (auto simp: list_all_iff)
  with Cons show ?thesis
    by (simp add: with_store_alone [OF assms(1)] claim_next_cases [OF assms(2)])
qed

text \<open>What every turn of a worker that is left alone keeps and achieves. A backend in a \<open>ready\<close> state
has a box for the judge, and judging leaves it ready.\<close>

definition quiet :: "('s \<Rightarrow> bool) \<Rightarrow> ('s, 'b, 'c, 'r) server_env \<Rightarrow> int \<Rightarrow> ('s, 'c) server \<Rightarrow> bool" where
  "quiet ready env b w \<longleftrightarrow> idle_db b (sv_db w) \<and> rs_queue (sv_runs w) = [] \<and> ready (sv_sandbox w) \<and>
     uint (sc_max_attempts (en_config env)) \<le> b \<and> b < 2 ^ 32 - 1"

definition stays_ready :: "('s \<Rightarrow> bool) \<Rightarrow> ('s, 'b, 'c, 'r) server_env \<Rightarrow> bool" where
  "stays_ready ready env \<longleftrightarrow> (\<forall>s. ready s \<longrightarrow> sb_acquire (en_sandbox env) s \<noteq> None \<and>
     (\<forall>req l r s' ps. judge (en_sandbox env) (en_languages env) (en_judge_config env) req l s = Some (r, s', ps) \<longrightarrow>
        ready s'))"

definition willing :: "('s \<Rightarrow> bool) \<Rightarrow> ('s, 'b, 'c, 'r) server_env \<Rightarrow> bool" where
  "willing ready env \<longleftrightarrow> alone env \<and> writes_json env \<and> stays_ready ready env"

lemma handled:
  assumes "stays_ready ready env" and "ready (sv_sandbox w)"
  obtains w' where "handle_submission env job w = Some w'" and "ready (sv_sandbox w')"
proof (cases "get_problem (en_problems env) (jb_problem job)")
  case (Some p)
  obtain a where "sb_acquire (en_sandbox env) (sv_sandbox w) = Some a" using assms by (auto simp: stays_ready_def)
  from judge_returns [OF this] obtain r s' ps where
    j: "judge (en_sandbox env) (en_languages env) (en_judge_config env) (submission_request job p) True (sv_sandbox w) = Some (r, s', ps)"
    by blast
  with assms have "ready s'" unfolding stays_ready_def by blast
  with j Some that show thesis by (simp add: handle_submission_def judge_with_def)
qed (use that assms in \<open>simp add: handle_submission_def\<close>)

lemma served_turn:
  assumes env: "willing ready env" and w: "quiet ready env b w"
    and claim: "with_store env (\<lambda>now. claim_next now (lease_ms (en_config env))) w = (Ok (Some job), w1)"
  shows "\<exists>w'. handle_submission env job w1 = Some w' \<and> quiet ready env b w' \<and>
    map rw_id (db_rows (sv_db w')) = map rw_id (db_rows (sv_db w)) \<and> keeps_done (sv_db w) (sv_db w') \<and>
    pending_work (sc_max_attempts (en_config env)) (sv_db w') < pending_work (sc_max_attempts (en_config env)) (sv_db w)"
proof -
  let ?mx = "sc_max_attempts (en_config env)"
  have al: "alone env" and wj: "writes_json env" and inv: "store_inv (sv_db w)" and tok: "tokens_fit (sv_db w)"
    using env w idle_tokens by (auto simp: willing_def quiet_def idle_db_def)
  obtain pre r post now where r: "at_row pre r post (sv_db w)" "rw_status r = ''QUEUED''"
    and c: "at_row pre (claim_row (i64_add now (lease_ms (en_config env))) r) post (sv_db w1)"
      "held job (claim_row (i64_add now (lease_ms (en_config env))) r)" "store_inv (sv_db w1)"
    and k: "sv_runs w1 = sv_runs w" "0 < jb_attempt job" "sv_sandbox w1 = sv_sandbox w"
    by (rule claim_alone [OF al inv tok claim]) blast
  have "stays_ready ready env" "ready (sv_sandbox w1)"
    using env w k(3) by (auto simp: willing_def quiet_def)
  then obtain w' where h: "handle_submission env job w1 = Some w'" and ready: "ready (sv_sandbox w')"
    by (rule handled)
  obtain r' where r': "at_row pre r' post (sv_db w')" "rw_id r' = rw_id r" "rw_attempt r' = rw_attempt r + 1" "settled ?mx r'"
    using submission_settles [OF al c(1,2) wj h] by (auto simp: claim_row_def)
  have "store_inv (sv_db w')"
    by (rule own_history_inv [OF handle_submission_history [OF h] al k(2) c(3)])
  moreover have "rw_attempt r < b"
    using w r by (auto simp: quiet_def idle_db_def at_row_def)
  ultimately have "idle_db b (sv_db w')"
    using w r r' by (auto simp: quiet_def idle_db_def at_row_def settled_def)
  then have "quiet ready env b w'"
    using w ready handle_submission_runs [OF h] k(1) by (simp add: quiet_def)
  with h at_row_ids [OF r(1) r'(1,2)] at_row_work [OF r(1) r'(1) settled_work [OF r(2) r'(3,4)]]
    at_row_keeps_done [OF r(1) r'(1)] r(2)
  show ?thesis by auto
qed

lemma quiet_turn:
  assumes env: "willing ready env" and w: "quiet ready env b w"
  shows "\<exists>t s' w'. worker_turn env s w = Some (t, s', w') \<and> quiet ready env b w' \<and>
    map rw_id (db_rows (sv_db w')) = map rw_id (db_rows (sv_db w)) \<and> keeps_done (sv_db w) (sv_db w') \<and>
    pending_work (sc_max_attempts (en_config env)) (sv_db w') \<le>
      pending_work (sc_max_attempts (en_config env)) (sv_db w) - 1"
proof -
  let ?claim = "with_store env (\<lambda>now. claim_next now (lease_ms (en_config env))) w"
  have al: "alone env" and inv: "store_inv (sv_db w)" and empty: "rs_queue (sv_runs w) = []"
    using env w by (auto simp: willing_def quiet_def idle_db_def)
  have turn: "worker_turn env s w =
      (case ?claim of
         (Ok (Some job), w2) \<Rightarrow> map_option (\<lambda>w'. (Served_Submission job, 0, w')) (handle_submission env job w2)
       | (Ok None, w2) \<Rightarrow> Some (Nothing_Waiting, 0, w2)
       | (Err e, w2) \<Rightarrow> Some (Claim_Failed, s, w2))"
    using empty by (simp add: worker_turn_def run_pop_def)
  show ?thesis
  proof (cases "list_all (\<lambda>r. rw_status r \<noteq> ''QUEUED'') (db_rows (sv_db w))")
    case True
    with claim_result [OF al inv] obtain w1 where c: "?claim = (Ok None, w1)" "sv_db w1 = sv_db w" "sv_runs w1 = sv_runs w"
      "sv_sandbox w1 = sv_sandbox w"
      by auto
    have "list_all (\<lambda>r. rw_status r = ''DONE'') (db_rows (sv_db w))"
      using True w by (auto simp: quiet_def idle_db_def list_all_iff)
    then have "pending_work (sc_max_attempts (en_config env)) (sv_db w) = 0" by (simp add: pending_work_zero)
    with c w turn show ?thesis by (simp add: quiet_def)
  next
    case False
    with claim_result [OF al inv, of "lease_ms (en_config env)"] obtain job w1 where c: "?claim = (Ok (Some job), w1)"
      by auto
    from served_turn [OF env w c] obtain w' where "handle_submission env job w1 = Some w'" "quiet ready env b w'"
      "map rw_id (db_rows (sv_db w')) = map rw_id (db_rows (sv_db w))" "keeps_done (sv_db w) (sv_db w')"
      "pending_work (sc_max_attempts (en_config env)) (sv_db w') < pending_work (sc_max_attempts (en_config env)) (sv_db w)"
      by blast
    with c turn show ?thesis by simp
  qed
qed

lemma quiet_loop:
  assumes "willing ready env" "quiet ready env b w"
  shows "\<exists>ts s' w'. worker_loop env n s w = Some (ts, s', w') \<and> quiet ready env b w' \<and>
    map rw_id (db_rows (sv_db w')) = map rw_id (db_rows (sv_db w)) \<and> keeps_done (sv_db w) (sv_db w') \<and>
    pending_work (sc_max_attempts (en_config env)) (sv_db w') \<le>
      pending_work (sc_max_attempts (en_config env)) (sv_db w) - n"
  using assms(2)
proof (induction n arbitrary: s w)
  case (Suc n)
  from quiet_turn [OF assms(1) Suc.prems, of s] obtain t s1 w1 where
    t: "worker_turn env s w = Some (t, s1, w1)" "quiet ready env b w1"
      "map rw_id (db_rows (sv_db w1)) = map rw_id (db_rows (sv_db w))" "keeps_done (sv_db w) (sv_db w1)"
      "pending_work (sc_max_attempts (en_config env)) (sv_db w1) \<le>
        pending_work (sc_max_attempts (en_config env)) (sv_db w) - 1"
    by blast
  from Suc.IH [OF t(2), of s1] obtain ts s' w' where
    "worker_loop env n s1 w1 = Some (ts, s', w')" "quiet ready env b w'"
      "map rw_id (db_rows (sv_db w')) = map rw_id (db_rows (sv_db w1))" "keeps_done (sv_db w1) (sv_db w')"
      "pending_work (sc_max_attempts (en_config env)) (sv_db w') \<le>
        pending_work (sc_max_attempts (en_config env)) (sv_db w1) - n"
    by blast
  with t keeps_done_trans [OF t(4)] show ?case by (auto simp: bind_eq_Some_conv)
qed auto

section \<open>Every submission gets a verdict\<close>

text \<open>With enough turns for the pending work, every submission ends DONE with a verdict.\<close>

lemma all_judged:
  assumes env: "willing ready env" and w: "quiet ready env b w"
    and work: "pending_work (sc_max_attempts (en_config env)) (sv_db w) \<le> n"
  shows "\<exists>ts s' w'. worker_loop env n s w = Some (ts, s', w') \<and> quiet ready env b w' \<and>
    map rw_id (db_rows (sv_db w')) = map rw_id (db_rows (sv_db w)) \<and> keeps_done (sv_db w) (sv_db w') \<and>
    list_all (\<lambda>r. rw_status r = ''DONE'' \<and> (\<exists>v. rw_verdict r = Some (code v))) (db_rows (sv_db w'))"
proof -
  let ?mx = "sc_max_attempts (en_config env)"
  obtain ts s' w' where l: "worker_loop env n s w = Some (ts, s', w')" "quiet ready env b w'"
    "map rw_id (db_rows (sv_db w')) = map rw_id (db_rows (sv_db w))" "keeps_done (sv_db w) (sv_db w')"
    "pending_work ?mx (sv_db w') \<le> pending_work ?mx (sv_db w) - n"
    using quiet_loop [OF env w] by blast
  from l(5) work have fin: "list_all (\<lambda>r. rw_status r = ''DONE'') (db_rows (sv_db w'))"
    by (simp flip: pending_work_zero [of ?mx])
  have "\<exists>v. c = code v" if "from_code c \<noteq> None" for c
    using that verdict_codec.dec_Some_iff by auto
  with fin l(2) have "list_all (\<lambda>r. rw_status r = ''DONE'' \<and> (\<exists>v. rw_verdict r = Some (code v))) (db_rows (sv_db w'))"
    by (fastforce simp: quiet_def idle_db_def store_inv_def row_ok_def list_all_iff split: option.splits)
  with l show ?thesis by blast
qed

text \<open>Every submission gets a verdict. Take a server whose submissions wait or are done and whose
run lane is empty, with a sandbox that is ready: it has a box for the worker whenever judging has
given back the last one. However often judging fails, for whatever reason, a worker that is left alone needs at most as many turns as
there are submissions times the configured attempts (at least one each): then every submission
is DONE with a verdict, and none was lost. The loop runs through: no turn gets stuck.\<close>

lemma every_submission_is_judged:
  assumes env: "willing ready env" and w: "quiet ready env b w"
    and turns: "length (db_rows (sv_db w)) * max 1 (unat (sc_max_attempts (en_config env))) \<le> n"
  shows "\<exists>ts s' w'. worker_loop env n s w = Some (ts, s', w') \<and>
    map rw_id (db_rows (sv_db w')) = map rw_id (db_rows (sv_db w)) \<and>
    list_all (\<lambda>r. rw_status r = ''DONE'' \<and> (\<exists>v. rw_verdict r = Some (code v))) (db_rows (sv_db w'))"
  using all_judged [OF env w, of n s] turns w pending_work_bound [of "sv_db w" "sc_max_attempts (en_config env)"]
  by (auto simp: quiet_def idle_db_def)

section \<open>A sample server\<close>

definition sample_problem :: problem where
  "sample_problem = \<lparr>pr_slug = ''sum'', pr_title = ''Sum'', pr_difficulty = ''easy'', pr_tags = [],
     pr_time_limit_ms = 1000, pr_memory_limit_kb = 262144, pr_comparer = Lines, pr_show_failed_input = False,
     pr_statement = ''Add.'', pr_tests = sample_tests, pr_sample_names = [''01''], pr_version = ''v1''\<rparr>"

definition sample_broadcast :: "(submission list, unit) broadcast" where
  "sample_broadcast = \<lparr>bc_channel = (\<lambda>n. []), bc_subscribe = (\<lambda>c. ((), c)), bc_send = (\<lambda>s c. c @ [s]),
     bc_receiver_count = length\<rparr>"

definition sample_server_env :: "(mock_state, unit, submission list, unit) server_env" where
  "sample_server_env = \<lparr>en_config = default_server_config, en_sandbox = scripted_ops echo,
     en_languages = sample_registry, en_judge_config = default_judge_config,
     en_problems = [(''sum'', sample_problem)], en_broadcast = sample_broadcast,
     en_write_json = sample_writer, en_read_json = sample_reader, en_debug_str = id,
     en_clock = (\<lambda>n. Some (200 + n)), en_others = (\<lambda>n. [])\<rparr>"

definition sample_server :: "(mock_state, submission list) server" where
  "sample_server = new_server default_server_config sample_queued mock_init"

lemma sample_alone: "alone sample_server_env" "writes_json sample_server_env"
  by (simp_all add: alone_def writes_json_def sample_server_env_def sample_writer_def)

abbreviation always :: "mock_state \<Rightarrow> bool" where "always \<equiv> \<lambda>_. True"

lemma sample_ready: "stays_ready always (sample_server_env\<lparr>en_languages := langs\<rparr>)"
proof -
  have "sb_acquire (scripted_ops echo) s \<noteq> None" for s using scripted_acquires [of echo s] by auto
  then show ?thesis by (simp add: stays_ready_def sample_server_env_def)
qed

lemma sample_willing:
  "willing always sample_server_env" "willing always (sample_server_env\<lparr>en_languages := langs\<rparr>)"
  using sample_alone sample_ready [of langs] sample_ready [of "en_languages sample_server_env"]
  by (simp_all add: willing_def alone_def writes_json_def)

lemma sample_quiet: "quiet always sample_server_env 3 sample_server"
proof -
  have "list_all (\<lambda>r. (rw_status r = ''QUEUED'' \<and> rw_attempt r < 3) \<or>
      (rw_status r = ''DONE'' \<and> rw_attempt r \<le> 3)) (db_rows sample_queued)" by code_simp
  then show ?thesis
    using sample_queued_inv
    by (simp add: quiet_def idle_db_def sample_server_def new_server_def run_store_new_def
        sample_server_env_def default_server_config_def)
qed

lemma sample_rows: "length (db_rows (sv_db sample_server)) = 1"
proof -
  have "length (db_rows sample_queued) = 1" by code_simp
  then show ?thesis by (simp add: sample_server_def new_server_def)
qed

lemma every_submission_is_judged_witness:
  "\<exists>ts s' w'. worker_loop sample_server_env 3 0 sample_server = Some (ts, s', w') \<and>
     list_all (\<lambda>r. rw_status r = ''DONE'') (db_rows (sv_db w'))"
proof -
  have "length (db_rows (sv_db sample_server)) * max 1 (unat (sc_max_attempts (en_config sample_server_env))) \<le> 3"
    by (simp add: sample_rows sample_server_env_def default_server_config_def)
  from every_submission_is_judged [OF sample_willing(1) sample_quiet this, of 0] show ?thesis
    by (auto simp: list_all_iff)
qed

text \<open>The first turn of the sample server takes the submission, whatever languages it has.\<close>

abbreviation server_with :: "registry \<Rightarrow> (mock_state, unit, submission list, unit) server_env" where
  "server_with langs \<equiv> sample_server_env\<lparr>en_languages := langs\<rparr>"

lemma sample_claimed:
  obtains job w' where
    "worker_turn (server_with langs) 0 sample_server = Some (Served_Submission job, 0, w')"
    "jb_problem job = ''sum''" "jb_language job = ''python''"
    "store_inv (sv_db sample_server)" "tokens_fit (sv_db sample_server)"
proof -
  let ?env = "server_with langs"
  have al: "alone ?env" and wl: "willing always ?env" and quiet: "quiet always ?env 3 sample_server"
    using sample_willing sample_quiet by (simp_all add: alone_def willing_def quiet_def writes_json_def)
  have inv: "store_inv (sv_db sample_server)" and tok: "tokens_fit (sv_db sample_server)"
    and empty: "rs_queue (sv_runs sample_server) = []"
    using sample_quiet idle_tokens by (auto simp: quiet_def idle_db_def)
  have q: "list_all (\<lambda>r. rw_status r = ''QUEUED'' \<and> rw_problem r = ''sum'' \<and> rw_language r = ''python'') (db_rows sample_queued)"
    and n: "db_rows sample_queued \<noteq> []"
    by code_simp+
  let ?lease = "lease_ms (en_config ?env)"
  have "\<not> list_all (\<lambda>r. rw_status r \<noteq> ''QUEUED'') (db_rows (sv_db sample_server))"
    using q n by (cases "db_rows sample_queued") (auto simp: sample_server_def new_server_def)
  with claim_result [OF al inv, of ?lease] obtain job w1
    where c: "with_store ?env (\<lambda>now. claim_next now ?lease) sample_server = (Ok (Some job), w1)"
    by auto
  from served_turn [OF wl quiet c] obtain w' where h: "handle_submission ?env job w1 = Some w'"
    by blast
  obtain pre r post where r: "at_row pre r post (sv_db sample_server)" "rw_problem r = jb_problem job" "rw_language r = jb_language job"
    by (rule claim_alone [OF al inv tok c]) blast
  then have job: "jb_problem job = ''sum''" "jb_language job = ''python''"
    using q by (auto simp: at_row_def sample_server_def new_server_def)
  have "worker_turn ?env 0 sample_server = Some (Served_Submission job, 0, w')"
    using c h empty by (simp add: worker_turn_def run_pop_def)
  with job inv tok show thesis by (intro that)
qed

lemma sample_problem_found:
  "jb_problem job = ''sum'' \<Longrightarrow> get_problem (en_problems (server_with langs)) (jb_problem job) = Some sample_problem"
  by (simp add: sample_server_env_def get_problem_def)

lemma sample_served:
  obtains job res sb events w' where
    "worker_turn sample_server_env 0 sample_server = Some (Served_Submission job, 0, w')"
    "get_problem (en_problems sample_server_env) (jb_problem job) = Some sample_problem"
    "judge (en_sandbox sample_server_env) (en_languages sample_server_env) (en_judge_config sample_server_env)
       (submission_request job sample_problem) True (sv_sandbox sample_server) = Some (Ok res, sb, events)"
    "store_inv (sv_db sample_server)" "tokens_fit (sv_db sample_server)"
proof -
  obtain job w' where t: "worker_turn (server_with sample_registry) 0 sample_server = Some (Served_Submission job, 0, w')"
    "jb_problem job = ''sum''" "jb_language job = ''python''"
    "store_inv (sv_db sample_server)" "tokens_fit (sv_db sample_server)"
    by (rule sample_claimed)
  obtain s1 where a: "sb_acquire (scripted_ops echo) (sv_sandbox sample_server) = Some (Ok (), s1)"
    using scripted_acquires by blast
  obtain o1 sb events where j: "judge (scripted_ops echo) sample_registry default_judge_config
      (submission_request job sample_problem) True (sv_sandbox sample_server) = Some (o1, sb, events)"
    using judge_returns [OF a] by blast
  have "get_language sample_registry (rq_language (submission_request job sample_problem)) =
      Some (sample_language\<lparr>lg_source_file := ''main.py'', lg_compile := None\<rparr>)"
    by (simp add: submission_request_def t(3) get_language_def sample_registry_def)
  from scripted.judge_det [OF this sample_language_source j a] j obtain res where
    "judge (scripted_ops echo) sample_registry default_judge_config
      (submission_request job sample_problem) True (sv_sandbox sample_server) = Some (Ok res, sb, events)"
    by blast
  then show thesis
    using t sample_problem_found [OF t(2), of sample_registry]
    by (intro that) (auto simp: sample_server_env_def)
qed

theorem judged_verdict_is_stored_and_published_witness:
  "\<exists>w' i sub. worker_turn sample_server_env 0 sample_server = Some (w') \<and>
     store_get sample_reader i (sv_db (snd (snd w'))) = Some sub \<and> sm_status sub = S_Done \<and>
     sm_problem_version sub = ''v1''"
proof -
  obtain job res sb events w' where t: "worker_turn sample_server_env 0 sample_server = Some (Served_Submission job, 0, w')"
    and p: "get_problem (en_problems sample_server_env) (jb_problem job) = Some sample_problem"
    and j: "judge (en_sandbox sample_server_env) (en_languages sample_server_env) (en_judge_config sample_server_env)
       (submission_request job sample_problem) True (sv_sandbox sample_server) = Some (Ok res, sb, events)"
    and d: "store_inv (sv_db sample_server)" "tokens_fit (sv_db sample_server)"
    by (rule sample_served)
  from judged_verdict_is_stored_and_published [OF sample_alone d t p j] t show ?thesis
    by (auto simp: sample_server_env_def sample_problem_def)
qed

text \<open>Without its language the submission ends with IE.\<close>

theorem judge_failure_is_retried_or_IE_witness:
  "\<exists>job w'. worker_turn (server_with []) 0 sample_server = Some (Served_Submission job, 0, w') \<and>
     job_of (sv_db w') (jb_id job) = Some (Judged (uint (jb_attempt job)) (Some InternalError))"
proof -
  obtain job w' where t: "worker_turn (server_with []) 0 sample_server = Some (Served_Submission job, 0, w')"
    and "jb_problem job = ''sum''" and d: "store_inv (sv_db sample_server)" "tokens_fit (sv_db sample_server)"
    by (rule sample_claimed)
  have al: "alone (server_with [])" using sample_alone by (simp add: alone_def)
  have j: "judge (en_sandbox (server_with [])) (en_languages (server_with [])) (en_judge_config (server_with []))
      (submission_request job sample_problem) True (sv_sandbox sample_server) =
      Some (Err (UnknownLanguage (jb_language job)), sv_sandbox sample_server, [])"
    by (simp add: judge_def get_language_def submission_request_def)
  from judge_failure_is_retried_or_IE [OF al d t sample_problem_found [OF \<open>jb_problem job = ''sum''\<close>] j] t
  show ?thesis by auto
qed

lemma worker_keeps_to_its_tokens_witness:
  "\<exists>ts s' w' ops. worker_loop sample_server_env 2 0 sample_server = Some (ts, s', w') \<and>
     sv_db w' = exec_all (store_step sample_writer sample_reader) ops sample_queued \<and> list_all (worker_op sample_server_env ts) ops"
proof -
  obtain ts s' w' where l: "worker_loop sample_server_env 2 0 sample_server = Some (ts, s', w')"
    using quiet_loop [OF sample_willing(1) sample_quiet] by blast
  from worker_keeps_to_its_tokens [OF l] l show ?thesis
    by (auto simp: sample_server_env_def sample_server_def new_server_def)
qed

text \<open>With a run waiting, the first turn serves it and the second one the submission.\<close>

definition busy_server :: "(mock_state, submission list) server" where
  "busy_server = sample_server\<lparr>sv_runs := snd (run_submit ''r1'' 100 0 sample_run (sv_runs sample_server))\<rparr>"

theorem neither_lane_starves_witness:
  "\<exists>t s' w'. worker_turn sample_server_env 0 busy_server = Some (t, s', w') \<and> run_streak_of [t] \<le> 3 \<and> is_run t"
proof -
  have q: "rs_queue (sv_runs busy_server) = [sample_run\<lparr>rj_id := ''r1''\<rparr>]"
    by (simp add: busy_server_def sample_server_def new_server_def run_store_new_def run_submit_def
        default_server_config_def)
  obtain a where "sb_acquire (en_sandbox sample_server_env) (sv_sandbox busy_server) = Some a"
    using sample_willing(1) unfolding willing_def stays_ready_def by (metis not_None_eq)
  from judge_returns [OF this] q obtain t s' w' where t: "worker_turn sample_server_env 0 busy_server = Some (t, s', w')"
    by (fastforce simp: worker_turn_def RUN_BURST_def run_pop_def handle_run_def judge_with_def modify_record_def
        split: option.splits)
  have "is_run t" using run_turn_iff [OF t] q by (auto simp: RUN_BURST_def)
  with neither_lane_starves [OF worker_loop.simps(1) t] t show ?thesis by auto
qed

end
