(* ===== verification/Server_Http_Guarantees.thy ===== *)
theory Server_Http_Guarantees
  imports Server_Http Server_Recovery Server_Liveness Judge_Problem_Guarantees
begin

text \<open>
  What the HTTP interface (\<open>crates/server/src/http.rs\<close>) promises: which requests are refused and
  how, that an accepted submission is stored before it is answered, that a run always has a test
  to run, and that a subscriber of a submission gets its verdict as the last event.
\<close>

section \<open>Submissions\<close>

lemma check_source_Ok:
  "check_source env lang source = Ok () \<longleftrightarrow>
     get_language (en_languages env) lang \<noteq> None \<and> trim source \<noteq> [] \<and>
     length source \<le> sc_max_source_bytes (en_config env)"
  by (auto simp: check_source_def)

lemma check_source_code:
  "check_source env lang source = Err e \<Longrightarrow>
     status_code e = (if get_language (en_languages env) lang = None \<or> trim source = [] then 400 else 413)"
  by (auto simp: check_source_def bad_request_def payload_too_large_def split: if_splits)

text \<open>The conditions under which a submission is accepted.\<close>

definition acceptable :: "('s, 'b, 'c, 'r) server_env \<Rightarrow> create_submission \<Rightarrow> bool" where
  "acceptable env body \<longleftrightarrow> get_problem (en_problems env) (cs_problem body) \<noteq> None \<and>
     get_language (en_languages env) (cs_language body) \<noteq> None \<and> trim (cs_source body) \<noteq> [] \<and>
     length (cs_source body) \<le> sc_max_source_bytes (en_config env)"

lemma store_insert_fresh:
  assumes "store_inv d" "find_row i (db_rows d) = None"
  shows "\<exists>sub b d'. store_insert de i now new d = (Ok (sub, b), d')"
proof (cases "find_key (nw_idempotency_key new) (db_rows d)")
  case None
  have ids: "i \<notin> rw_id ` set (db_rows d)" using assms(2) by (simp add: find_row_None)
  then have "i \<notin> fst ` set (db_sources d)" using assms(1) by (metis list.set_map store_inv_def)
  moreover have "\<not> list_ex (conflicts (new_row i now new)) (db_rows d)"
    using ids None by (force simp: list_ex_iff conflicts_def find_key_def find_None_iff split: option.splits)
  moreover have "find_row i (db_rows d @ [new_row i now new]) = Some (new_row i now new)"
    using assms(2) by (rule find_new_row)
  ultimately show ?thesis
    using None by (force simp: store_insert_def insert_row_def insert_source_def list_ex_iff)
qed (auto simp: store_insert_def)

text \<open>C26: submissions are refused exactly when they should be. With a fresh id, a submission is
accepted if and only if its problem and language are known, its source is not blank and within
the limit; otherwise the answer is 404 for an unknown problem, 400 for an unknown language or a
blank source, 413 for a source that is too long, and nothing has changed on the server.\<close>

theorem submission_refused_precisely:
  assumes "alone env" and "store_inv (sv_db w)" and "find_row i (db_rows (sv_db w)) = None"
  shows "case post_submission env i header body w of
      (Ok r, w') \<Rightarrow> acceptable env body
    | (Err e, w') \<Rightarrow> \<not> acceptable env body \<and> w' = w \<and> status_code e =
        (if get_problem (en_problems env) (cs_problem body) = None then 404
         else if get_language (en_languages env) (cs_language body) = None \<or> trim (cs_source body) = [] then 400
         else 413)"
proof (cases "get_problem (en_problems env) (cs_problem body)")
  case None
  then show ?thesis by (simp add: post_submission_def or_not_found_def not_found_def acceptable_def)
next
  case (Some p)
  show ?thesis
  proof (cases "check_source env (cs_language body) (cs_source body)")
    case (Inl e)
    then have "check_source env (cs_language body) (cs_source body) \<noteq> Ok ()" by simp
    then have "\<not> acceptable env body" unfolding check_source_Ok acceptable_def by blast
    with Inl check_source_code [OF Inl] Some show ?thesis
      by (simp add: post_submission_def or_not_found_def)
  next
    case (Inr u)
    then have "check_source env (cs_language body) (cs_source body) = Ok ()" by simp
    then have ok: "acceptable env body" unfolding check_source_Ok acceptable_def using Some by simp
    obtain sub b d' where "store_insert (en_read_json env) i (now_ms (en_clock env (sv_access w)))
        (new_submission_of header p body) (sv_db w) = (Ok (sub, b), d')"
      using store_insert_fresh [OF assms(2,3)] by blast
    with ok Some Inr show ?thesis
      by (simp add: post_submission_def or_not_found_def with_store_alone [OF assms(1)])
  qed
qed

lemma post_submission_OkE:
  assumes "post_submission env i header body w = (Ok (loc, sub), w')" "alone env"
  obtains p created d' where "get_problem (en_problems env) (cs_problem body) = Some p"
    "store_insert (en_read_json env) i (now_ms (en_clock env (sv_access w))) (new_submission_of header p body)
       (sv_db w) = (Ok (sub, created), d')"
    "sv_db w' = d'" "sv_wakes w' = (if created then sv_wakes w @ [Notify_One] else sv_wakes w)"
    "loc = ''/v1/submissions/'' @ sm_id sub"
proof -
  obtain p where p: "get_problem (en_problems env) (cs_problem body) = Some p"
    and c: "check_source env (cs_language body) (cs_source body) = Ok ()"
    using assms(1) by (auto simp: post_submission_def or_not_found_def try_then_def split: option.splits sum.splits)
  obtain r d' where r: "store_insert (en_read_json env) i (now_ms (en_clock env (sv_access w)))
      (new_submission_of header p body) (sv_db w) = (r, d')" by fastforce
  with p c assms show thesis
    by (cases r) (auto simp: post_submission_def or_not_found_def with_store_alone wake_up_def intro!: that
        split: if_splits)
qed

text \<open>C15: an accepted submission is stored before it is answered and is never lost. When the answer
is 202, its location names the submission, and reading it at once returns what was answered.
Either the submission is new: it is QUEUED under the fresh id with the source and the idempotency
key of the request, and a worker was woken. Or nothing was changed, the request has an idempotency
key, and the submission that is answered is the one stored under that very key. After any later
history of the store it still exists.\<close>

theorem accepted_submission_is_durable:
  assumes "alone env" and "store_inv (sv_db w)"
    and "post_submission env i header body w = (Ok (loc, sub), w')"
    and "all_admissible store_adm (env_step env) ops (sv_db w')"
  shows "loc = ''/v1/submissions/'' @ sm_id sub \<and> fst (get_submission env (sm_id sub) w') = Ok sub \<and>
    (if sm_id sub = i \<and> find_row i (db_rows (sv_db w)) = None
     then sm_status sub = S_Queued \<and> sm_language sub = cs_language body \<and>
       fst (get_submission_source env i w') = Ok (cs_source body) \<and> sv_wakes w' = sv_wakes w @ [Notify_One] \<and>
       (\<exists>r. find_row i (db_rows (sv_db w')) = Some r \<and> rw_idempotency_key r = idempotency_key header)
     else sv_db w' = sv_db w \<and> sv_wakes w' = sv_wakes w \<and>
       (\<exists>k r. idempotency_key header = Some k \<and> r \<in> set (db_rows (sv_db w)) \<and> rw_idempotency_key r = Some k \<and>
          sub = row_to_submission (en_read_json env) r)) \<and>
    job_of (exec_all (env_step env) ops (sv_db w')) (sm_id sub) \<noteq> None"
proof -
  let ?de = "en_read_json env"
  obtain p created d' where p: "get_problem (en_problems env) (cs_problem body) = Some p"
    and ins: "store_insert ?de i (now_ms (en_clock env (sv_access w))) (new_submission_of header p body)
       (sv_db w) = (Ok (sub, created), d')"
    and w': "sv_db w' = d'" "sv_wakes w' = (if created then sv_wakes w @ [Notify_One] else sv_wakes w)"
    and loc: "loc = ''/v1/submissions/'' @ sm_id sub"
    by (rule post_submission_OkE [OF assms(3,1)])
  let ?now = "now_ms (en_clock env (sv_access w))" and ?new = "new_submission_of header p body"
  have inv': "store_inv (sv_db w')"
    using store_step_inv [OF assms(2), of "Op_Insert i ?now ?new" "en_write_json env" ?de] ins w'(1) by simp
  obtain r where r: "r \<in> set (db_rows d')" "sub = row_to_submission ?de r"
    and new: "created \<longrightarrow> r = new_row i ?now ?new \<and> rw_id r = i \<and> db_rows d' = db_rows (sv_db w) @ [r] \<and>
       db_sources d' = db_sources (sv_db w) @ [(i, nw_source ?new)]"
    using insert_result [OF ins assms(2)] by metis
  have id: "sm_id sub = rw_id r" by (simp add: r(2) row_to_submission_def)
  have dist: "distinct (map rw_id (db_rows d'))" using inv' w'(1) by (simp add: store_inv_def)
  have found: "find_row (sm_id sub) (db_rows d') = Some r"
    using r(1) id dist by (simp add: find_row_distinct)
  have read: "fst (get_submission env (sm_id sub) w') = Ok sub"
    using found r(2) w'(1)
    by (simp add: get_submission_def with_store_alone [OF assms(1)] store_get_def or_not_found_def)
  have old: "d' = sv_db w \<and> find_row (rw_id r) (db_rows (sv_db w)) \<noteq> None \<and>
      (\<exists>k r. idempotency_key header = Some k \<and> r \<in> set (db_rows (sv_db w)) \<and> rw_idempotency_key r = Some k \<and>
         sub = row_to_submission ?de r)" if "\<not> created"
    using that ins found id
    by (fastforce simp: store_insert_def new_submission_of_def dest: find_key_in split: option.splits sum.splits)
  have fresh: "find_row i (db_rows (sv_db w)) = None" if "created"
    using that new dist by (auto simp: find_row_None)
  have src: "fst (get_submission_source env i w') = Ok (cs_source body)" if "created"
  proof -
    have "i \<notin> fst ` set (db_sources (sv_db w))"
      using fresh [OF that] assms(2) by (metis find_row_None list.set_map store_inv_def)
    then have "find (\<lambda>(j, _). j = i) (db_sources (sv_db w)) = None" by (force simp: find_None_iff)
    with new that w'(1) show ?thesis
      by (simp add: get_submission_source_def with_store_alone [OF assms(1)] store_get_source_def
          or_not_found_def find_append new_submission_of_def)
  qed
  have st: "sm_status sub = S_Queued \<and> sm_language sub = cs_language body \<and>
      (\<exists>r. find_row i (db_rows d') = Some r \<and> rw_idempotency_key r = idempotency_key header)" if "created"
    using that new found id by (simp add: r(2) row_to_submission_def new_row_def new_submission_of_def)
  have "job_of (sv_db w') (sm_id sub) = Some (row_job r)" using found w'(1) by (simp add: job_of_def)
  with history_moves [OF inv' assms(4)] have "job_of (exec_all (env_step env) ops (sv_db w')) (sm_id sub) \<noteq> None"
    by (metis moved_job option.distinct(1))
  with loc read old fresh src st new id w' show ?thesis by (cases created) auto
qed

section \<open>Samples\<close>

definition sample_body :: create_submission where
  "sample_body = \<lparr>cs_problem = ''sum'', cs_language = ''python'', cs_source = ''print(1)''\<rparr>"

definition fresh_server :: "(mock_state, submission list) server" where
  "fresh_server = new_server default_server_config empty_db mock_init"

lemma fresh_server_inv: "store_inv (sv_db fresh_server)" "find_row i (db_rows (sv_db fresh_server)) = None"
  using store_inv_empty by (simp_all add: fresh_server_def new_server_def empty_db_def find_row_def)

lemma sample_acceptable: "acceptable sample_server_env sample_body"
proof -
  have "trim ''print(1)'' \<noteq> []" by code_simp
  then show ?thesis
    by (simp add: acceptable_def sample_server_env_def sample_body_def get_problem_def get_language_def
        sample_registry_def default_server_config_def)
qed

theorem submission_refused_precisely_witness:
  "\<exists>r w'. post_submission sample_server_env ''s1'' None sample_body fresh_server = (Ok r, w')"
proof -
  obtain r w' where r: "post_submission sample_server_env ''s1'' None sample_body fresh_server = (r, w')"
    by fastforce
  from submission_refused_precisely [where header = None and body = sample_body,
      OF sample_alone(1) fresh_server_inv(1) fresh_server_inv(2) [of "''s1''"]] sample_acceptable r
  show ?thesis by (cases r) auto
qed

theorem accepted_submission_is_durable_witness:
  "\<exists>loc sub w'. post_submission sample_server_env ''s1'' None sample_body fresh_server = (Ok (loc, sub), w') \<and>
     sm_status sub = S_Queued \<and> fst (get_submission sample_server_env (sm_id sub) w') = Ok sub"
proof -
  obtain p where g: "get_problem (en_problems sample_server_env) (cs_problem sample_body) = Some p"
    and c: "check_source sample_server_env (cs_language sample_body) (cs_source sample_body) = Ok ()"
    using sample_acceptable unfolding acceptable_def check_source_Ok by blast
  obtain sub b d' where "store_insert (en_read_json sample_server_env) ''s1''
      (now_ms (en_clock sample_server_env (sv_access fresh_server))) (new_submission_of None p sample_body)
      (sv_db fresh_server) = (Ok (sub, b), d')"
    using store_insert_fresh [OF fresh_server_inv] by blast
  then obtain loc w' where post: "post_submission sample_server_env ''s1'' None sample_body fresh_server = (Ok (loc, sub), w')"
    by (simp add: post_submission_def or_not_found_def g c with_store_alone [OF sample_alone(1)])
  have "all_admissible store_adm (env_step sample_server_env) [] (sv_db w')" by simp
  from accepted_submission_is_durable [OF sample_alone(1) fresh_server_inv(1) post this] post
  show ?thesis by (auto simp: idempotency_key_def split: if_splits)
qed

end
