(* ===== verification/Server_Run_Guarantees.thy ===== *)
theory Server_Run_Guarantees
  imports Server_Http_Guarantees
begin

text \<open>
  Runs and event streams of the HTTP interface (\<open>crates/server/src/http.rs\<close>): a queued run always
  has a test to run, and a subscriber of a submission gets its verdict as the last event.
\<close>

section \<open>Runs\<close>

text \<open>Problems of a loaded set were loaded one by one, so their samples are tests.\<close>

lemma load_entries_loaded:
  "load_entries penv base fs ps = Ok qs \<Longrightarrow>
     \<forall>(k, p) \<in> set qs. (k, p) \<in> set ps \<or> (\<exists>dir. load_problem penv dir = Ok p)"
proof (induction fs arbitrary: ps)
  case (Cons f fs)
  show ?case
  proof (cases "pe_is_file penv (path_join (path_join base f) ''problem.toml'')")
    case True
    then obtain p where p: "load_problem penv (path_join base f) = Ok p"
      and rest: "load_entries penv base fs (AList.update (pr_slug p) p ps) = Ok qs"
      using Cons.prems by (auto simp: Let_def try_then_Ok_iff)
    have "set (AList.update (pr_slug p) p ps) \<subseteq> insert (pr_slug p, p) (set ps)" by (induction ps) auto
    with Cons.IH [OF rest] p show ?thesis by blast
  next
    case False
    with Cons show ?thesis by (simp add: Let_def)
  qed
qed auto

lemma loaded_samples:
  assumes "load_problems penv base = Ok ps" and "get_problem ps slug = Some p" and "pr_sample_names p \<noteq> []"
  shows "problem_samples p \<noteq> []"
proof -
  obtain es :: "(string + string) list" where "load_entries penv base (List.map_filter ok_value es) [] = Ok ps"
    using assms(1) by (auto simp: load_problems_def try_then_Ok_iff)
  moreover have "(slug, p) \<in> set ps" using assms(2) by (simp add: get_problem_def map_of_SomeD)
  ultimately obtain dir where "load_problem penv dir = Ok p" using load_entries_loaded by fastforce
  then show ?thesis
  proof (rule load_problemE)
    fix m names
    assume t: "try_all (load_test penv (dir_slug dir) (path_join dir ''tests'')) names = Ok (pr_tests p)"
      and s: "check_samples penv (dir_slug dir) names (mf_samples m) = Ok ()" "pr_sample_names p = mf_samples m"
    have "set (pr_sample_names p) \<subseteq> set (map tc_name (pr_tests p))"
      using load_tests_Ok [OF t] s by (simp add: check_samples_Ok)
    with assms(3) show ?thesis by (cases "pr_sample_names p") (auto simp: problem_samples_def filter_empty_conv)
  qed
qed

text \<open>An accepted run has something to run. With problems that were loaded from disk, a request
for a run is refused with 503 exactly when it is valid but the lane is full, and a refused
request changes nothing. An accepted one is appended to the lane under the fresh id, with the
custom input as its only test when there is one and with at least one test in any case, and its
record can be read at once as QUEUED.\<close>

lemma accepted_run_has_tests:
  assumes "load_problems penv base = Ok (en_problems env)"
  shows "case post_run env i now instant body w of
      (Err e, w') \<Rightarrow> w' = w \<and>
        (status_code e = 503 \<longleftrightarrow> rs_capacity (sv_runs w) \<le> length (rs_queue (sv_runs w)) \<and>
          (\<exists>p. run_problem env body = Ok p))
    | (Ok (loc, r), w') \<Rightarrow> length (rs_queue (sv_runs w)) < rs_capacity (sv_runs w) \<and>
        get_run i w' = Ok r \<and> rr_status r = S_Queued \<and>
        (\<exists>job. rs_queue (sv_runs w') = rs_queue (sv_runs w) @ [job] \<and> rj_id job = i \<and> rj_tests job \<noteq> [] \<and>
          (case cr_stdin body of Some inp \<Rightarrow> rj_tests job = [custom_test inp] | None \<Rightarrow> True))"
proof (cases "run_problem env body")
  case (Inl e)
  then have "status_code e \<noteq> 503"
    by (auto simp: run_problem_def try_then_Err_iff or_not_found_def not_found_def payload_too_large_def
        dest!: check_source_code split: if_splits option.splits)
  with Inl show ?thesis by (simp add: post_run_def)
next
  case (Inr p)
  have tests: "run_tests (cr_stdin body) p \<noteq> []"
  proof (cases "cr_stdin body")
    case None
    show ?thesis
    proof (cases p)
      case (Some q)
      with Inr obtain slug where "get_problem (en_problems env) slug = Some q"
        by (auto simp: run_problem_def try_then_Ok_iff or_not_found_def split: if_splits option.splits)
      with loaded_samples [OF assms] None Some show ?thesis by (auto simp: run_tests_def)
    qed (simp add: run_tests_def None)
  qed (simp add: run_tests_def)
  show ?thesis
  proof (cases "rs_capacity (sv_runs w) \<le> length (rs_queue (sv_runs w))")
    case True
    with Inr show ?thesis by (simp add: post_run_def run_submit_def)
  next
    case False
    with Inr tests show ?thesis
      by (auto simp: post_run_def run_submit_def wake_up_def get_run_def run_get_def update_conv' or_not_found_def
          new_record_def run_job_of_def run_tests_def split: option.splits)
  qed
qed

definition sample_run_body :: create_run where
  "sample_run_body = \<lparr>cr_language = ''python'', cr_source = ''print(1)'', cr_stdin = None, cr_problem = None\<rparr>"

lemma accepted_run_has_tests_witness:
  "\<exists>loc r w' job. post_run (sample_server_env\<lparr>en_problems := []\<rparr>) ''r1'' 100 0 sample_run_body fresh_server =
     (Ok (loc, r), w') \<and> rs_queue (sv_runs w') = [job] \<and> rj_tests job \<noteq> []"
proof -
  let ?env = "sample_server_env\<lparr>en_problems := []\<rparr>" and ?penv = "sample_env\<lparr>pe_read_dir := (\<lambda>_. Ok [])\<rparr>"
  have load: "load_problems ?penv ''p'' = Ok (en_problems ?env)"
    by (simp add: load_problems_def List.map_filter_def)
  have "check_source ?env ''python'' ''print(1)'' = Ok ()"
    using sample_acceptable unfolding check_source_Ok by (simp add: acceptable_def sample_body_def)
  then have "run_problem ?env sample_run_body = Ok None"
    by (simp add: run_problem_def sample_run_body_def)
  moreover have q: "rs_queue (sv_runs fresh_server) = []" "rs_capacity (sv_runs fresh_server) = 256"
    by (simp_all add: fresh_server_def new_server_def run_store_new_def default_server_config_def)
  ultimately obtain loc r w' where "post_run ?env ''r1'' 100 0 sample_run_body fresh_server = (Ok (loc, r), w')"
    by (simp add: post_run_def run_submit_def)
  with accepted_run_has_tests [where i = "''r1''" and now = 100 and instant = 0 and body = sample_run_body and
      w = fresh_server, OF load] q show ?thesis by auto
qed

section \<open>Event streams\<close>

text \<open>
  What tokio documents of a broadcast receiver: it receives, in order, messages sent after it
  subscribed; messages may be lost when it lags behind by more than the capacity, but never the
  latest one; and it is not closed while the sender lives, which the hub keeps as long as there
  are receivers.
\<close>

definition messages :: "recv list \<Rightarrow> submission list" where
  "messages got = List.map_filter (\<lambda>r. case r of Received sub \<Rightarrow> Some sub | _ \<Rightarrow> None) got"

definition delivers :: "submission list \<Rightarrow> recv list \<Rightarrow> bool" where
  "delivers sent got \<longleftrightarrow> subseq (messages got) sent \<and> Closed \<notin> set got \<and>
     (sent \<noteq> [] \<longrightarrow> messages got \<noteq> [] \<and> last (messages got) = last sent)"

lemma messages_simps [simp]:
  "messages [] = []" "messages (Received sub # got) = sub # messages got"
  "messages (Lagged n # got) = messages got" "messages (Closed # got) = messages got"
  by (simp_all add: messages_def List.map_filter_def)

lemma states_prefix: "prefix (states_until_done got) (messages got)"
  by (induction got rule: states_until_done.induct) auto

lemma states_done:
  "Closed \<notin> set got \<Longrightarrow> list_ex (\<lambda>sub. sm_status sub = S_Done) (messages got) \<Longrightarrow>
     list_ex (\<lambda>sub. sm_status sub = S_Done) (states_until_done got)"
  by (induction got rule: states_until_done.induct) auto

text \<open>C25: a subscriber gets the verdict, once and last. If the submission is DONE when the stream
starts, or the last state published after the subscription is DONE, then the stream ends; its
first event is the current state, its last one is the only \<open>verdict\<close> event and shows DONE, and
all others are \<open>progress\<close> events of states that were published, in their order.\<close>

theorem subscriber_gets_the_verdict:
  assumes "delivers sent got"
    and "sm_status current = S_Done \<or> sent \<noteq> [] \<and> sm_status (last sent) = S_Done"
  shows "let (events, ended) = event_stream current got in ended \<and> snd (hd events) = current \<and>
    fst (last events) = ''verdict'' \<and> sm_status (snd (last events)) = S_Done \<and>
    list_all (\<lambda>(name, sub). name = ''progress'' \<and> sm_status sub \<noteq> S_Done) (butlast events) \<and>
    subseq (map snd events) (current # sent)"
proof (cases "sm_status current = S_Done")
  case True
  then show ?thesis by (simp add: event_stream_def event_of_def)
next
  case False
  let ?ss = "states_until_done got"
  have sub: "subseq (messages got) sent" "Closed \<notin> set got" and sent: "sent \<noteq> []" "sm_status (last sent) = S_Done"
    and last: "messages got \<noteq> []" "last (messages got) = last sent"
    using assms False by (auto simp: delivers_def)
  have "last (messages got) \<in> set (messages got)" using last(1) by (rule last_in_set)
  then have "list_ex (\<lambda>sub. sm_status sub = S_Done) (messages got)"
    using last(2) sent(2) by (auto simp: list_ex_iff)
  note d = states_done [OF sub(2) this]
  note ends = d [unfolded states_until_done_done]
  have "event_stream current got = (event_of current # map event_of ?ss, True)"
    using False d stream_rest_events [of got] stream_rest_ended [of got]
    by (cases "stream_rest False got") (simp add: event_stream_def)
  moreover have "subseq ?ss sent"
    using prefix_imp_subseq [OF states_prefix] sub(1) by (rule subseq_order.order_trans)
  ultimately show ?thesis
    using ends False by (auto simp: event_of_def list_all_iff last_map comp_def in_set_butlastD simp flip: map_butlast)
qed

definition sample_state :: "status \<Rightarrow> submission" where
  "sample_state st = (row_to_submission sample_reader (new_row ''s1'' 100 sample_new))\<lparr>sm_status := st\<rparr>"

theorem subscriber_gets_the_verdict_witness:
  "let (events, ended) = event_stream (sample_state S_Queued)
      [Received (sample_state S_Running), Lagged 2, Received (sample_state S_Done)]
    in ended \<and> fst (last events) = ''verdict''"
proof -
  have "delivers [sample_state S_Compiling, sample_state S_Running, sample_state S_Done]
      [Received (sample_state S_Running), Lagged 2, Received (sample_state S_Done)]"
    by (simp add: delivers_def)
  moreover have "sm_status (last [sample_state S_Compiling, sample_state S_Running, sample_state S_Done]) = S_Done"
    by (simp add: sample_state_def)
  ultimately show ?thesis
    using subscriber_gets_the_verdict [of "[sample_state S_Compiling, sample_state S_Running, sample_state S_Done]"
        "[Received (sample_state S_Running), Lagged 2, Received (sample_state S_Done)]" "sample_state S_Queued"]
    by (auto simp del: stream_rest.simps split: prod.splits)
qed

end
