(* ===== verification/Server_Queue_Refinement.thy ===== *)
theory Server_Queue_Refinement
  imports Server_Queue_Guarantees
begin

text \<open>
  The abstract queue that \<open>crates/server/src/store.rs\<close> implements: a list of jobs, each pending, held
  until its lease ends, or over, and what every operation does to all of them. The table of
  submissions refines it: seen through the abstraction function, every operation of the store is
  the operation of the queue.
\<close>

section \<open>The abstract queue\<close>

datatype phase = Pending int | Held int i64 | Over int verdict

record queue_job =
  qj_id :: string
  qj_created :: i64
  qj_key :: "string option"
  qj_phase :: phase

fun phase_pending :: "phase \<Rightarrow> bool" where
  "phase_pending (Pending a) \<longleftrightarrow> True"
| "phase_pending _ \<longleftrightarrow> False"

text \<open>The next job is the pending one that was created first, the smallest id among equals.\<close>

definition job_key :: "queue_job \<Rightarrow> queue_key" where
  "job_key j = Queue_Key (qj_created j) (qj_id j)"

definition is_next :: "queue_job list \<Rightarrow> queue_job \<Rightarrow> bool" where
  "is_next js j \<longleftrightarrow> phase_pending (qj_phase j) \<and>
     list_all (\<lambda>k. job_key j \<le> job_key k) (filter (\<lambda>k. phase_pending (qj_phase k)) js)"

text \<open>What the operations do to the phase of a job; a token is the attempt that it was granted for.\<close>

fun grant :: "i64 \<Rightarrow> phase \<Rightarrow> phase" where
  "grant lease_until (Pending a) = Held (a + 1) lease_until"
| "grant lease_until p = p"

fun renew :: "int \<Rightarrow> i64 \<Rightarrow> phase \<Rightarrow> phase" where
  "renew token lease_until (Held a l) = (if a = token then Held a lease_until else Held a l)"
| "renew token lease_until p = p"

text \<open>A verdict ends the job, no verdict puts it back.\<close>

definition settled :: "int \<Rightarrow> verdict option \<Rightarrow> phase" where
  "settled a v = (case v of None \<Rightarrow> Pending a | Some v \<Rightarrow> Over a v)"

fun settle :: "int \<Rightarrow> verdict option \<Rightarrow> phase \<Rightarrow> phase" where
  "settle token v (Pending a) = (if a = token then settled a v else Pending a)"
| "settle token v (Held a l) = (if a = token then settled a v else Held a l)"
| "settle token v (Over a w) = Over a w"

fun expire :: "i64 \<Rightarrow> int \<Rightarrow> phase \<Rightarrow> phase" where
  "expire now mx (Held a l) =
     (if l < now then settled a (if mx \<le> a then Some InternalError else None) else Held a l)"
| "expire now mx p = p"

fun put_back :: "phase \<Rightarrow> phase" where
  "put_back (Held a l) = Pending a"
| "put_back p = p"

definition at_job :: "string \<Rightarrow> (phase \<Rightarrow> phase) \<Rightarrow> queue_job list \<Rightarrow> queue_job list" where
  "at_job i f js = map (\<lambda>j. if qj_id j = i then j\<lparr>qj_phase := f (qj_phase j)\<rparr> else j) js"

definition at_all :: "(phase \<Rightarrow> phase) \<Rightarrow> queue_job list \<Rightarrow> queue_job list" where
  "at_all f js = map (\<lambda>j. j\<lparr>qj_phase := f (qj_phase j)\<rparr>) js"

definition job_taken :: "string \<Rightarrow> string option \<Rightarrow> queue_job \<Rightarrow> bool" where
  "job_taken i key j \<longleftrightarrow> qj_id j = i \<or> (key \<noteq> None \<and> qj_key j = key)"

fun queue_step :: "json_writer \<Rightarrow> store_op \<Rightarrow> queue_job list \<Rightarrow> queue_job list" where
  "queue_step ser (Op_Insert i now new) js =
     (if list_ex (job_taken i (nw_idempotency_key new)) js then js
      else js @ [\<lparr>qj_id = i, qj_created = now, qj_key = nw_idempotency_key new, qj_phase = Pending 0\<rparr>])"
| "queue_step ser (Op_Claim now lease) js =
     map (\<lambda>j. if is_next js j then j\<lparr>qj_phase := grant (i64_add now lease) (qj_phase j)\<rparr> else j) js"
| "queue_step ser (Op_Progress now i a st k n lease) js = at_job i (renew (uint a) (i64_add now lease)) js"
| "queue_step ser (Op_Finish now i a pv jv res) js =
     (case ser (jr_tests res) of
        Err e \<Rightarrow> js
      | Ok txt \<Rightarrow> at_job i (settle (uint a) (Some (jr_verdict res))) js)"
| "queue_step ser (Op_Fail now i a mx err) js =
     at_job i (settle (uint a) (if mx \<le> a then Some InternalError else None)) js"
| "queue_step ser (Op_Sweep now mx) js = at_all (expire now (uint mx)) js"
| "queue_step ser Op_Requeue js = at_all put_back js"

section \<open>The abstraction\<close>

definition row_lease :: "row \<Rightarrow> i64" where
  "row_lease r = (case rw_lease_until_ms r of None \<Rightarrow> 0 | Some l \<Rightarrow> l)"

definition row_verdict :: "row \<Rightarrow> verdict" where
  "row_verdict r = (case Option.bind (rw_verdict r) from_code of None \<Rightarrow> InternalError | Some v \<Rightarrow> v)"

definition row_phase :: "row \<Rightarrow> phase" where
  "row_phase r = (case parse_status (rw_status r) of
     S_Queued \<Rightarrow> Pending (rw_attempt r)
   | S_Compiling \<Rightarrow> Held (rw_attempt r) (row_lease r)
   | S_Running \<Rightarrow> Held (rw_attempt r) (row_lease r)
   | S_Done \<Rightarrow> Over (rw_attempt r) (row_verdict r))"

definition row_entry :: "row \<Rightarrow> queue_job" where
  "row_entry r = \<lparr>qj_id = rw_id r, qj_created = rw_created_at_ms r, qj_key = rw_idempotency_key r,
     qj_phase = row_phase r\<rparr>"

definition queue_of :: "db \<Rightarrow> queue_job list" where
  "queue_of d = map row_entry (db_rows d)"

lemma row_entry_simps [simp]:
  "qj_id (row_entry r) = rw_id r" "qj_phase (row_entry r) = row_phase r" "job_key (row_entry r) = row_key r"
  "qj_key (row_entry r) = rw_idempotency_key r"
  by (simp_all add: row_entry_def job_key_def row_key_def)

lemma row_phase_cases:
  assumes "row_ok r"
  obtains (pending) "rw_status r = ''QUEUED''" "row_phase r = Pending (rw_attempt r)"
  | (held) l where "in_flight (rw_status r)" "row_phase r = Held (rw_attempt r) l" "rw_lease_until_ms r = Some l"
  | (over) v where "rw_status r = ''DONE''" "row_phase r = Over (rw_attempt r) v"
proof -
  from assms obtain st where st: "rw_status r = status_text st" by (auto simp: row_ok_def)
  show thesis
  proof (cases st)
    case S_Queued
    with st show thesis by (intro pending) (simp_all add: row_phase_def parse_status_def)
  next
    case S_Done
    with st show thesis by (intro over) (simp_all add: row_phase_def parse_status_def)
  next
    case S_Compiling
    with st assms obtain l where "rw_lease_until_ms r = Some l" by (auto simp: row_ok_def)
    with S_Compiling st show thesis by (intro held) (simp_all add: row_phase_def parse_status_def row_lease_def)
  next
    case S_Running
    with st assms obtain l where "rw_lease_until_ms r = Some l" by (auto simp: row_ok_def in_flight_def)
    with S_Running st show thesis
      by (intro held) (simp_all add: row_phase_def parse_status_def row_lease_def in_flight_def)
  qed
qed

lemma pending_row: "row_ok r \<Longrightarrow> phase_pending (row_phase r) \<longleftrightarrow> rw_status r = ''QUEUED''"
  by (erule row_phase_cases) (auto simp: in_flight_def)

lemma changed_phases:
  "row_phase (claim_row l r) = Held (rw_attempt r + 1) l"
  "row_phase (finish_row now pv jv j res r) = Over (rw_attempt r) (jr_verdict res)"
  "row_phase (give_up_row now err r) = Over (rw_attempt r) InternalError"
  "row_phase (retry_row err r) = Pending (rw_attempt r)"
  "row_phase (sweep_fail_row now r) = Over (rw_attempt r) InternalError"
  "row_phase (requeue_row r) = Pending (rw_attempt r)"
  "st = S_Compiling \<or> st = S_Running \<Longrightarrow> row_phase (r\<lparr>rw_status := status_text st, rw_tests_done := k,
     rw_tests_total := n, rw_lease_until_ms := Some l\<rparr>) = Held (rw_attempt r) l"
  by (auto simp: row_phase_def row_lease_def row_verdict_def row_changes parse_status_def)

text \<open>The row that a claim takes is the next job.\<close>

lemma claimed_is_next:
  assumes inv: "store_inv d" and r: "r \<in> set (db_rows d)"
  shows "oldest_queued (db_rows d) = Some (rw_id r) \<longleftrightarrow> is_next (queue_of d) (row_entry r)"
proof -
  have ok: "row_ok q" if "q \<in> set (db_rows d)" for q using inv that by (simp add: store_inv_def list_all_iff)
  have ids: "distinct (map rw_id (db_rows d))" using inv by (simp add: store_inv_def)
  have waiting: "set (filter (\<lambda>k. phase_pending (qj_phase k)) (queue_of d)) = row_entry ` set (queued_rows d)"
    using ok pending_row by (auto simp: queue_of_def queued_rows_set)
  have rows: "is_next (queue_of d) (row_entry r) \<longleftrightarrow> r \<in> set (queued_rows d) \<and> (\<forall>q \<in> set (queued_rows d). row_key r \<le> row_key q)"
    using r ok [OF r] by (simp add: is_next_def list_all_iff waiting [unfolded set_filter] pending_row queued_rows_set)
  show ?thesis
  proof (cases "queued_rows d")
    case Nil
    then show ?thesis unfolding rows by (simp add: oldest_queued_def queued_rows_def)
  next
    case (Cons q qs)
    have q: "q \<in> set (db_rows d)" "rw_status q = ''QUEUED''" using Cons queued_rows_set [of d] by auto
    have first: "\<forall>k \<in> set (queued_rows d). row_key q \<le> row_key k"
      using queued_rows_sorted [of d] Cons by auto
    have "is_next (queue_of d) (row_entry r) \<longleftrightarrow> r = q"
    proof
      assume "is_next (queue_of d) (row_entry r)"
      with rows first Cons have "row_key r = row_key q" by (auto intro: antisym)
      then have "rw_id r = rw_id q" by (simp add: row_key_def)
      with ids r q show "r = q" using distinct_map_eq by metis
    next
      assume "r = q"
      with rows first Cons show "is_next (queue_of d) (row_entry r)" by simp
    qed
    moreover have "oldest_queued (db_rows d) = Some (rw_id q)"
      using Cons by (simp add: oldest_queued_def queued_rows_def)
    moreover have "rw_id q = rw_id r \<longleftrightarrow> r = q" using ids r q(1) distinct_map_eq by metis
    ultimately show ?thesis by simp
  qed
qed

section \<open>The refinement\<close>

lemma entry_phase: "row_entry (row_effect ser op d r) = (row_entry r)\<lparr>qj_phase := row_phase (row_effect ser op d r)\<rparr>"
  by (simp add: row_entry_def)

lemma queue_rows: "queue_of (store_step ser de op d) =
    map (\<lambda>r. (row_entry r)\<lparr>qj_phase := row_phase (row_effect ser op d r)\<rparr>) (db_rows d) @ map row_entry (inserted op d)"
  by (simp add: queue_of_def store_step_rows entry_phase del: store_step.simps row_effect.simps inserted.simps)

lemma map_queue: "map f (queue_of d) = map (\<lambda>r. f (row_entry r)) (db_rows d)"
  by (simp add: queue_of_def)

lemma at_job_rows:
  assumes "\<And>r. r \<in> set (db_rows d) \<Longrightarrow> row_phase (g r) = (if rw_id r = i then f (row_phase r) else row_phase r)"
  shows "map (\<lambda>r. (row_entry r)\<lparr>qj_phase := row_phase (g r)\<rparr>) (db_rows d) = at_job i f (queue_of d)"
  using assms by (auto simp: at_job_def queue_of_def)

lemma at_all_rows:
  assumes "\<And>r. r \<in> set (db_rows d) \<Longrightarrow> row_phase (g r) = f (row_phase r)"
  shows "map (\<lambda>r. (row_entry r)\<lparr>qj_phase := row_phase (g r)\<rparr>) (db_rows d) = at_all f (queue_of d)"
  using assms by (auto simp: at_all_def queue_of_def)

lemma settle_row:
  assumes "row_ok r" "0 < a"
  shows "(if owned_by i a r \<and> rw_status r \<noteq> ''DONE'' then settled (rw_attempt r) v else row_phase r) =
    (if rw_id r = i then settle (uint a) v (row_phase r) else row_phase r)"
  using assms(1) by (cases rule: row_phase_cases) (auto simp: owned_by_def)

lemma queue_insert:
  assumes "store_inv d"
  shows "queue_of (store_step ser de (Op_Insert i now new) d) = queue_step ser (Op_Insert i now new) (queue_of d)"
proof -
  have "job_taken i (nw_idempotency_key new) (row_entry r) = conflicts (new_row i now new) r" for r
    by (auto simp: job_taken_def conflicts_def new_row_def)
  then have taken: "list_ex (job_taken i (nw_idempotency_key new)) (queue_of d) \<longleftrightarrow>
      list_ex (conflicts (new_row i now new)) (db_rows d)"
    by (simp add: queue_of_def list_ex_iff)
  have key: "list_ex (conflicts (new_row i now new)) (db_rows d)" if "find_key (nw_idempotency_key new) (db_rows d) \<noteq> None"
  proof -
    obtain r where "find_key (nw_idempotency_key new) (db_rows d) = Some r" using \<open>find_key _ _ \<noteq> None\<close> by blast
    from find_key_in [OF this] have "conflicts (new_row i now new) r" "r \<in> set (db_rows d)"
      by (simp_all add: conflicts_def new_row_def)
    then show ?thesis by (auto simp: list_ex_iff)
  qed
  have "list_ex (\<lambda>(j, _). j = i) (db_sources d) \<longleftrightarrow> i \<in> set (map fst (db_sources d))"
    by (force simp: list_ex_iff)
  also have "\<dots> \<longleftrightarrow> i \<in> rw_id ` set (db_rows d)" using assms by (simp add: store_inv_def)
  finally have "list_ex (\<lambda>(j, _). j = i) (db_sources d) \<Longrightarrow> list_ex (conflicts (new_row i now new)) (db_rows d)"
    by (auto simp: list_ex_iff conflicts_def new_row_def)
  with key have "inserted (Op_Insert i now new) d =
      (if list_ex (conflicts (new_row i now new)) (db_rows d) then [] else [new_row i now new])" by auto
  moreover have "row_entry (new_row i now new) =
      \<lparr>qj_id = i, qj_created = now, qj_key = nw_idempotency_key new, qj_phase = Pending 0\<rparr>"
    by (simp add: row_entry_def new_row_def row_phase_def parse_status_def)
  ultimately show ?thesis
    unfolding queue_rows by (simp add: taken del: inserted.simps) (simp add: queue_of_def row_entry_def)
qed

lemma queue_simulation:
  assumes inv: "store_inv d" and adm: "store_adm op d"
  shows "queue_of (store_step ser de op d) = queue_step ser op (queue_of d)"
proof -
  have ok: "row_ok r" if "r \<in> set (db_rows d)" for r using inv that by (simp add: store_inv_def list_all_iff)
  show ?thesis
  proof (cases op)
    case (Op_Insert i now new)
    then show ?thesis using queue_insert [OF inv] by simp
  next
    case (Op_Claim now lease)
    have "(row_entry r)\<lparr>qj_phase := row_phase (row_effect ser op d r)\<rparr> =
        (if is_next (queue_of d) (row_entry r)
         then (row_entry r)\<lparr>qj_phase := grant (i64_add now lease) (row_phase r)\<rparr> else row_entry r)"
      if r: "r \<in> set (db_rows d)" for r
    proof -
      obtain src where src: "store_get_source (rw_id r) d = Some src"
        using source_exists [OF inv, of "rw_id r"] r by blast
      have "grant l (row_phase r) = Held (rw_attempt r + 1) l" if "phase_pending (row_phase r)" for l
        using ok [OF r] that by (cases rule: row_phase_cases) auto
      then show ?thesis
        using claimed_is_next [OF inv r] src
        by (cases "is_next (queue_of d) (row_entry r)") (simp_all add: Op_Claim changed_phases, simp add: is_next_def)
    qed
    then have "map (\<lambda>r. (row_entry r)\<lparr>qj_phase := row_phase (row_effect ser op d r)\<rparr>) (db_rows d) =
        queue_step ser op (queue_of d)"
      unfolding Op_Claim queue_step.simps map_queue row_entry_simps by (intro map_cong refl)
    then show ?thesis unfolding queue_rows by (simp add: Op_Claim del: queue_step.simps row_effect.simps)
  next
    case (Op_Progress now i a st k n lease)
    have "row_phase (row_effect ser op d r) =
        (if rw_id r = i then renew (uint a) (i64_add now lease) (row_phase r) else row_phase r)"
      if "r \<in> set (db_rows d)" for r
      using ok [OF that] adm
      by (cases rule: row_phase_cases) (auto simp: Op_Progress owned_by_def changed_phases in_flight_def)
    then show ?thesis unfolding queue_rows using at_job_rows [of d "row_effect ser op d"] Op_Progress by simp
  next
    case (Op_Finish now i a pv jv res)
    have "row_phase (row_effect ser op d r) = (if rw_id r = i then settle (uint a) (Some (jr_verdict res)) (row_phase r) else row_phase r)"
      if "r \<in> set (db_rows d)" "ser (jr_tests res) = Ok j" for r j
      using settle_row [OF ok [OF that(1)], of a i "Some (jr_verdict res)"] adm that(2)
      by (auto simp: Op_Finish changed_phases settled_def)
    then show ?thesis
      unfolding queue_rows using at_job_rows [of d "row_effect ser op d"] Op_Finish
      by (cases "ser (jr_tests res)") (simp_all add: queue_of_def row_entry_def)
  next
    case (Op_Fail now i a mx err)
    have "row_phase (row_effect ser op d r) =
        (if rw_id r = i then settle (uint a) (if mx \<le> a then Some InternalError else None) (row_phase r) else row_phase r)"
      if "r \<in> set (db_rows d)" for r
      using settle_row [OF ok [OF that], of a i "if mx \<le> a then Some InternalError else None"] adm
      by (auto simp: Op_Fail changed_phases settled_def split: if_splits)
    then show ?thesis unfolding queue_rows using at_job_rows [of d "row_effect ser op d"] Op_Fail by simp
  next
    case (Op_Sweep now mx)
    have "row_phase (row_effect ser op d r) = expire now (uint mx) (row_phase r)" if "r \<in> set (db_rows d)" for r
      using ok [OF that]
      by (cases rule: row_phase_cases) (auto simp: Op_Sweep expired_def null_less_def changed_phases settled_def)
    then show ?thesis unfolding queue_rows using at_all_rows [of d "row_effect ser op d"] Op_Sweep by simp
  next
    case Op_Requeue
    have "row_phase (row_effect ser op d r) = put_back (row_phase r)" if "r \<in> set (db_rows d)" for r
      using ok [OF that] by (cases rule: row_phase_cases) (auto simp: Op_Requeue changed_phases)
    then show ?thesis unfolding queue_rows using at_all_rows [of d "row_effect ser op d"] Op_Requeue by simp
  qed
qed

text \<open>C8: the store is the abstract queue. After any history of operations the table of submissions,
seen as a list of jobs, is exactly what the queue's own operations make of the jobs that were
there before. So an insertion adds one pending job, unless its id or its idempotency key is
taken; a claim leases the pending job that was created first, and no other, under its next
attempt until the lease ends; a heartbeat renews the lease of the job it names, if that is held
under its token; a result or a failure ends or puts back the job it names, if that is not over
and has its token; a sweep puts back or gives up exactly the jobs whose lease is over, by their
attempts; a restart puts back exactly the jobs that are held.\<close>

theorem store_implements_queue:
  assumes "store_inv d" and "all_admissible store_adm (store_step ser de) ops d"
  shows "queue_of (exec_all (store_step ser de) ops d) = exec_all (queue_step ser) ops (queue_of d)"
  using assms
proof (induction ops arbitrary: d)
  case (Cons op ops)
  then have "store_inv (store_step ser de op d)" by (auto intro: store_step_inv simp del: store_step.simps)
  with Cons queue_simulation [of d op ser de] show ?case by (simp del: store_step.simps queue_step.simps)
qed simp

theorem store_implements_queue_witness:
  "exec_all (queue_step sample_writer) sample_ops [] =
     [\<lparr>qj_id = ''s1'', qj_created = 100, qj_key = Some ''k'', qj_phase = Over 1 Accepted\<rparr>]"
proof -
  have "queue_of (exec_all sample_step sample_ops empty_db) =
      [\<lparr>qj_id = ''s1'', qj_created = 100, qj_key = Some ''k'', qj_phase = Over 1 Accepted\<rparr>]" by code_simp
  moreover have "queue_of empty_db = []" by (simp add: queue_of_def empty_db_def)
  ultimately show ?thesis using store_implements_queue [OF store_inv_empty sample_admissible] by simp
qed

end
