(* ===== verification/Judge_Script.thy ===== *)
theory Judge_Script
  imports Judge_Pipeline_Facts
begin

text \<open>
  \<open>crates/judge/src/pipeline.rs\<close> once more, one sandbox operation at a time. An \<open>async fn\<close> runs up to
  its next \<open>await\<close>, and other tasks run in between, so the judging of one request is a script: a
  tree of operations that continues with the reply it gets. A script run without interruption is
  \<open>judge_in_box\<close>; what it returns for the replies it gets, whoever runs in between, is \<open>yields\<close>.
\<close>

section \<open>Scripts\<close>

datatype 'a script =
    Return 'a
  | Write_File string bytes "sandbox_error + unit \<Rightarrow> 'a script"
  | Exec exec_spec bytes "sandbox_error + exec_outcome \<Rightarrow> 'a script"
  | Report progress "'a script"

type_synonym 'a judging_script = "(judge_error + 'a) script"

primrec then_script :: "'a script \<Rightarrow> ('a \<Rightarrow> 'b script) \<Rightarrow> 'b script" where
  "then_script (Return r) f = f r"
| "then_script (Write_File n c k) f = Write_File n c (\<lambda>r. then_script (k r) f)"
| "then_script (Exec spec i k) f = Exec spec i (\<lambda>r. then_script (k r) f)"
| "then_script (Report p m) f = Report p (then_script m f)"

text \<open>The \<open>?\<close> operator.\<close>

definition try_script :: "'a judging_script \<Rightarrow> ('a \<Rightarrow> 'b judging_script) \<Rightarrow> 'b judging_script" where
  "try_script m f = then_script m (\<lambda>r. case r of Err e \<Rightarrow> Return (Err e) | Ok a \<Rightarrow> f a)"

definition write_script :: "string \<Rightarrow> bytes \<Rightarrow> unit judging_script" where
  "write_script n c = Write_File n c (\<lambda>r. Return (map_err Sandbox_Failed r))"

definition exec_script :: "exec_spec \<Rightarrow> bytes \<Rightarrow> exec_outcome judging_script" where
  "exec_script spec i = Exec spec i (\<lambda>r. Return (map_err Sandbox_Failed r))"

definition report_script :: "progress \<Rightarrow> unit judging_script" where
  "report_script p = Report p (Return (Ok ()))"

section \<open>The pipeline as a script\<close>

definition compile_script ::
  "judge_config \<Rightarrow> language \<Rightarrow> (string + string option) judging_script" where
  "compile_script cfg lang =
     (case lg_compile lang of
        None \<Rightarrow> Return (Ok (Inr None))
      | Some st \<Rightarrow>
          try_script (report_script P_Compiling) (\<lambda>_.
          try_script (exec_script (compile_spec cfg lang st) []) (\<lambda>out.
          let txt = excerpt (oc_stdout out) (jc_compile_output_bytes cfg)
          in if oc_status out \<noteq> ExOk then Return (Ok (Inl (compile_reason (oc_status out) @ txt)))
             else Return (Ok (Inr (filter_empty txt))))))"

fun tests_script ::
  "judge_config \<Rightarrow> exec_spec \<Rightarrow> judge_request \<Rightarrow> nat \<Rightarrow> test_case list \<Rightarrow> test_result list \<Rightarrow> string option \<Rightarrow>
   (test_result list \<times> string option) judging_script" where
  "tests_script cfg spec req i [] results failed_test = Return (Ok (results, failed_test))"
| "tests_script cfg spec req i (test # rest) results failed_test =
     try_script (exec_script spec (tc_input test)) (\<lambda>out.
     let verdict = fst (classify out test (rq_comparer req));
         first_failure = (verdict \<noteq> Accepted \<and> failed_test = None);
         failed_test' = (if first_failure then Some (tc_name test) else failed_test);
         results' = results @ [test_entry cfg req first_failure test out]
     in try_script (report_script (P_Running (i + 1) (length (rq_tests req)))) (\<lambda>_.
        if first_failure \<and> rq_stop_on_first_failure req then Return (Ok (results', failed_test'))
        else tests_script cfg spec req (i + 1) rest results' failed_test'))"

definition judge_script :: "judge_config \<Rightarrow> language \<Rightarrow> judge_request \<Rightarrow> judge_result judging_script" where
  "judge_script cfg lang req =
     (let total = length (rq_tests req)
      in try_script (write_script (lg_source_file lang) (rq_source req)) (\<lambda>_.
         try_script (compile_script cfg lang) (\<lambda>compiled.
         case compiled of
           Inl txt \<Rightarrow>
             Return (Ok \<lparr>jr_verdict = CompileError, jr_time_ms = 0, jr_memory_kb = 0,
               jr_failed_test = None, jr_compile_output = Some txt, jr_tests = [],
               jr_tests_total = total\<rparr>)
         | Inr compile_output \<Rightarrow>
             try_script (report_script (P_Running 0 total)) (\<lambda>_.
             try_script (tests_script cfg (run_spec cfg lang req) req 0 (rq_tests req) [] None)
               (\<lambda>(results, failed_test).
             Return (Ok \<lparr>jr_verdict = final_verdict results,
               jr_time_ms = max_u64 (map tr_time_ms results),
               jr_memory_kb = max_u64 (map tr_memory_kb results),
               jr_failed_test = failed_test, jr_compile_output = compile_output,
               jr_tests = results, jr_tests_total = total\<rparr>))))))"

section \<open>Running a script without interruption\<close>

primrec run_script ::
  "('s, 'b) sandbox \<Rightarrow> 'b \<Rightarrow> bool \<Rightarrow> 'a script \<Rightarrow> 's \<times> progress list \<Rightarrow> 'a \<times> 's \<times> progress list" where
  "run_script sb b l (Return r) w = (r, w)"
| "run_script sb b l (Write_File n c k) w =
     (let (r, s) = sb_write_file sb b n c (fst w) in run_script sb b l (k r) (s, snd w))"
| "run_script sb b l (Exec spec i k) w =
     (let (r, s) = sb_exec sb b spec i (fst w) in run_script sb b l (k r) (s, snd w))"
| "run_script sb b l (Report p m) w =
     run_script sb b l m (fst w, if l then snd w @ [p] else snd w)"

lemma run_then:
  "run_script sb b l (then_script m f) w = (let (r, w') = run_script sb b l m w in run_script sb b l (f r) w')"
  by (induction m arbitrary: w) (auto simp: Let_def split_beta)

lemma run_try: "run_script sb b l (try_script m f) = and_then (run_script sb b l m) (\<lambda>a. run_script sb b l (f a))"
  by (rule ext) (auto simp: try_script_def run_then and_then_def Let_def split: prod.split sum.split)

lemma run_primitives:
  "run_script sb b l (write_script n c) = in_box (sb_write_file sb b n c)"
  "run_script sb b l (exec_script spec i) = in_box (sb_exec sb b spec i)"
  "run_script sb b l (report_script p) = notify l p"
  "run_script sb b l (Return r) = (\<lambda>w. (r, w))"
  by (auto simp: fun_eq_iff write_script_def exec_script_def report_script_def in_box_def notify_def Let_def
      split: prod.splits sum.splits)

lemma run_compile: "run_script sb b l (compile_script cfg lang) = compile_phase sb cfg b lang l"
  by (auto simp: compile_script_def compile_phase_def run_try run_primitives Let_def io_ok_def if_distrib fun_eq_iff
      cong: if_cong split: option.split intro!: arg_cong [where f = "\<lambda>k. and_then m k w" for m w])

lemma run_tests_script:
  "run_script sb b l (tests_script cfg spec req i tests results failed) =
     run_loop sb cfg b spec req l i tests results failed"
proof (induction tests arbitrary: i results failed)
  case (Cons test rest)
  have "run_script sb b l (if c then Return (Ok a) else tests_script cfg spec req j rest rs ft) =
      (if c then io_ok a else run_loop sb cfg b spec req l j rest rs ft)" for c a j rs ft
    using Cons.IH by (simp add: run_primitives io_ok_def fun_eq_iff)
  then show ?case by (simp add: run_try run_primitives Let_def)
qed (simp add: run_primitives io_ok_def fun_eq_iff)

lemma run_judge: "run_script sb b l (judge_script cfg lang req) = judge_in_box sb cfg b lang req l"
  unfolding judge_script_def judge_in_box_def Let_def run_try run_primitives run_compile
  by (intro arg_cong2 [where f = and_then] refl ext)
    (auto simp: run_try run_primitives run_tests_script io_ok_def fun_eq_iff and_then_def
      split: sum.split prod.split)

text \<open>
  Judging one operation at a time is judging: the script of a request, run without interruption with a
  box of any backend, does the same operations in the same order as \<open>judge_in_box\<close>, with the same
  result, the same progress reported and the same state of the backend.
\<close>

lemma judge_as_script:
  "judge sb langs cfg req l s =
     (case get_language langs (rq_language req) of
        None \<Rightarrow> Some (Err (UnknownLanguage (rq_language req)), s, [])
      | Some lang \<Rightarrow>
          (case sb_acquire sb s of
             None \<Rightarrow> None
           | Some (Err e, s') \<Rightarrow> Some (Err (Sandbox_Failed e), s', [])
           | Some (Ok b, s') \<Rightarrow>
               (let (r, s'', ps) = run_script sb b l (judge_script cfg lang req) (s', [])
                in Some (r, snd (sb_release sb b s''), ps))))"
  by (auto simp: judge_def run_judge Let_def split_beta split: option.split sum.split)

section \<open>What is done in a box\<close>

text \<open>
  The operations on one box with the replies the backend gave. \<open>yields m es r\<close>: when these are the
  operations that \<open>m\<close> does and the replies it gets, it returns \<open>r\<close>. The state of the backend does not
  occur, so this is what a script returns whatever other tasks do to the backend in between, and
  whatever its programs do.
\<close>

datatype box_event =
    Wrote string bytes "sandbox_error + unit"
  | Ran exec_spec bytes "sandbox_error + exec_outcome"

inductive yields :: "'a script \<Rightarrow> box_event list \<Rightarrow> 'a \<Rightarrow> bool" where
  yields_Return: "yields (Return r) [] r"
| yields_Write: "yields (k q) es r \<Longrightarrow> yields (Write_File n c k) (Wrote n c q # es) r"
| yields_Exec: "yields (k q) es r \<Longrightarrow> yields (Exec spec i k) (Ran spec i q # es) r"
| yields_Report: "yields m es r \<Longrightarrow> yields (Report p m) es r"

inductive_simps yields_simps [simp]:
  "yields (Return x) es r" "yields (Write_File n c k) es r" "yields (Exec spec i k) es r" "yields (Report p m) es r"

lemma yields_then:
  "yields (then_script m f) es r \<longleftrightarrow> (\<exists>es1 a es2. es = es1 @ es2 \<and> yields m es1 a \<and> yields (f a) es2 r)"
proof (induction m arbitrary: es)
  case (Write_File n c k)
  show ?case
    by (auto simp: Write_File.IH [OF rangeI]) (metis append_Cons, metis append_Cons)
next
  case (Exec spec i k)
  show ?case
    by (auto simp: Exec.IH [OF rangeI]) (metis append_Cons, metis append_Cons)
qed simp_all

lemma yields_try_Ok:
  "yields (try_script m f) es (Ok r) \<longleftrightarrow>
     (\<exists>es1 a es2. es = es1 @ es2 \<and> yields m es1 (Ok a) \<and> yields (f a) es2 (Ok r))"
proof -
  have "yields (case q of Err e \<Rightarrow> Return (Err e) | Ok a \<Rightarrow> f a) es2 (Ok r) \<longleftrightarrow>
      (\<exists>a. q = Ok a \<and> yields (f a) es2 (Ok r))" for q es2
    by (cases q) auto
  then show ?thesis by (auto simp: try_script_def yields_then)
qed

lemma map_err_Ok: "map_err g q = Ok a \<longleftrightarrow> q = Ok a"
  by (cases q) (simp_all add: map_err_def)

lemma yields_primitives:
  "yields (write_script n c) es (Ok u) \<longleftrightarrow> es = [Wrote n c (Ok u)]"
  "yields (exec_script spec i) es (Ok out) \<longleftrightarrow> es = [Ran spec i (Ok out)]"
  "yields (report_script p) es (Ok u) \<longleftrightarrow> es = []"
  by (auto simp: write_script_def exec_script_def report_script_def map_err_Ok dest: sym)

text \<open>
  A session: the source was written; then, if the language compiles, the compiler ran with outcome
  \<open>c\<close>; then the run command was executed on the inputs of tests, \<open>xs\<close> being the tests with their
  outcomes. All of them were executed, unless the request stops at the first failure, which is
  then the last of \<open>xs\<close>. Its result is computed from these outcomes.
\<close>

definition session_events ::
  "judge_config \<Rightarrow> language \<Rightarrow> judge_request \<Rightarrow> exec_outcome option \<Rightarrow> (test_case \<times> exec_outcome) list \<Rightarrow>
   box_event list" where
  "session_events cfg lang req c xs =
     [Wrote (lg_source_file lang) (rq_source req) (Ok ())] @
     (case (lg_compile lang, c) of
        (Some st, Some out) \<Rightarrow> [Ran (compile_spec cfg lang st) [] (Ok out)]
      | _ \<Rightarrow> []) @
     map (\<lambda>(t, out). Ran (run_spec cfg lang req) (tc_input t) (Ok out)) xs"

definition compiler_failed :: "exec_outcome option \<Rightarrow> bool" where
  "compiler_failed c \<longleftrightarrow> (case c of None \<Rightarrow> False | Some out \<Rightarrow> oc_status out \<noteq> ExOk)"

definition tests_taken :: "judge_request \<Rightarrow> (test_case \<times> exec_outcome) list \<Rightarrow> bool" where
  "tests_taken req xs \<longleftrightarrow> map fst xs = take (length xs) (rq_tests req) \<and>
     (if rq_stop_on_first_failure req
      then list_all (\<lambda>(t, out). \<not> is_bad req t out) (butlast xs) \<and>
        (length xs = length (rq_tests req) \<or> xs \<noteq> [] \<and> is_bad req (fst (last xs)) (snd (last xs)))
      else length xs = length (rq_tests req))"

definition session_complete ::
  "language \<Rightarrow> judge_request \<Rightarrow> exec_outcome option \<Rightarrow> (test_case \<times> exec_outcome) list \<Rightarrow> bool" where
  "session_complete lang req c xs \<longleftrightarrow>
     (c = None \<longleftrightarrow> lg_compile lang = None) \<and> (if compiler_failed c then xs = [] else tests_taken req xs)"

definition session_result ::
  "judge_config \<Rightarrow> judge_request \<Rightarrow> exec_outcome option \<Rightarrow> (test_case \<times> exec_outcome) list \<Rightarrow> judge_result" where
  "session_result cfg req c xs =
     (case c of
        None \<Rightarrow> run_result cfg req None xs
      | Some out \<Rightarrow>
          (let txt = excerpt (oc_stdout out) (jc_compile_output_bytes cfg)
           in if oc_status out \<noteq> ExOk then compile_error_result req (compile_reason (oc_status out) @ txt)
              else run_result cfg req (filter_empty txt) xs))"

lemma yields_compile:
  "yields (compile_script cfg lang) es (Ok q) \<longleftrightarrow>
     (case lg_compile lang of
        None \<Rightarrow> es = [] \<and> q = Inr None
      | Some st \<Rightarrow> \<exists>out. es = [Ran (compile_spec cfg lang st) [] (Ok out)] \<and>
          q = (let txt = excerpt (oc_stdout out) (jc_compile_output_bytes cfg)
               in if oc_status out \<noteq> ExOk then Inl (compile_reason (oc_status out) @ txt)
                  else Inr (filter_empty txt)))"
  by (auto simp: compile_script_def yields_try_Ok yields_primitives Let_def split: option.split)

lemma yields_tests:
  assumes "yields (tests_script cfg spec req i tests results failed) es (Ok (rs, ft))"
  shows "\<exists>xs. es = map (\<lambda>(t, out). Ran spec (tc_input t) (Ok out)) xs \<and> map fst xs = take (length xs) tests \<and>
    rs = results @ entries cfg req (failed \<noteq> None) xs \<and>
    ft = (case failed of Some n \<Rightarrow> Some n | None \<Rightarrow> first_bad req xs) \<and>
    (length xs = length tests \<or> rq_stop_on_first_failure req \<and> failed = None \<and> xs \<noteq> [] \<and>
       is_bad req (fst (last xs)) (snd (last xs))) \<and>
    (rq_stop_on_first_failure req \<and> failed = None \<longrightarrow> list_all (\<lambda>(t, out). \<not> is_bad req t out) (butlast xs))"
  using assms
proof (induction tests arbitrary: i results failed es)
  case Nil
  then show ?case by (auto split: option.split)
next
  case (Cons test rest)
  then obtain out es' where es: "es = Ran spec (tc_input test) (Ok out) # es'"
    and rest: "yields (let verdict = fst (classify out test (rq_comparer req));
         first_failure = (verdict \<noteq> Accepted \<and> failed = None);
         failed' = (if first_failure then Some (tc_name test) else failed);
         results' = results @ [test_entry cfg req first_failure test out]
       in if first_failure \<and> rq_stop_on_first_failure req then Return (Ok (results', failed'))
          else tests_script cfg spec req (i + 1) rest results' failed') es' (Ok (rs, ft))"
    by (auto simp: yields_try_Ok yields_primitives Let_def)
  define bad where "bad = is_bad req test out"
  have bad: "fst (classify out test (rq_comparer req)) \<noteq> Accepted \<longleftrightarrow> bad" by (simp add: bad_def is_bad_def)
  show ?case
  proof (cases "bad \<and> failed = None \<and> rq_stop_on_first_failure req")
    case True
    with rest bad es bad_def show ?thesis by (intro exI [of _ "[(test, out)]"]) (auto simp: Let_def)
  next
    case False
    let ?failed = "if bad \<and> failed = None then Some (tc_name test) else failed"
    from rest bad False have "yields (tests_script cfg spec req (i + 1) rest
        (results @ [test_entry cfg req (bad \<and> failed = None) test out]) ?failed) es' (Ok (rs, ft))"
      by (auto simp: Let_def split: if_splits)
    from Cons.IH [OF this] obtain xs where
      xs: "es' = map (\<lambda>(t, out). Ran spec (tc_input t) (Ok out)) xs" "map fst xs = take (length xs) rest"
        "rs = (results @ [test_entry cfg req (bad \<and> failed = None) test out]) @ entries cfg req (?failed \<noteq> None) xs"
        "ft = (case ?failed of Some n \<Rightarrow> Some n | None \<Rightarrow> first_bad req xs)"
        "length xs = length rest \<or> rq_stop_on_first_failure req \<and> ?failed = None \<and> xs \<noteq> [] \<and>
           is_bad req (fst (last xs)) (snd (last xs))"
        "rq_stop_on_first_failure req \<and> ?failed = None \<longrightarrow> list_all (\<lambda>(t, out). \<not> is_bad req t out) (butlast xs)"
      by blast
    show ?thesis
      using es xs False bad_def
      by (intro exI [of _ "(test, out) # xs"]) (auto split: option.splits if_splits)
  qed
qed

lemma judge_script_yields:
  assumes "yields (judge_script cfg lang req) es (Ok res)"
  obtains c xs where "session_complete lang req c xs" "es = session_events cfg lang req c xs"
    "res = session_result cfg req c xs"
proof -
  obtain K where K: "judge_script cfg lang req = try_script (write_script (lg_source_file lang) (rq_source req))
      (\<lambda>_. try_script (compile_script cfg lang) K)"
    "\<And>txt. K (Inl txt) = Return (Ok (compile_error_result req txt))"
    "\<And>co. K (Inr co) = try_script (report_script (P_Running 0 (length (rq_tests req)))) (\<lambda>_.
        try_script (tests_script cfg (run_spec cfg lang req) req 0 (rq_tests req) [] None) (\<lambda>(results, failed_test).
          Return (Ok \<lparr>jr_verdict = final_verdict results, jr_time_ms = max_u64 (map tr_time_ms results),
            jr_memory_kb = max_u64 (map tr_memory_kb results), jr_failed_test = failed_test, jr_compile_output = co,
            jr_tests = results, jr_tests_total = length (rq_tests req)\<rparr>)))"
    by (rule that) (unfold judge_script_def Let_def, rule refl, simp_all add: compile_error_result_def)
  from assms obtain q es1 es2 where es: "es = Wrote (lg_source_file lang) (rq_source req) (Ok ()) # es1 @ es2"
    and c: "yields (compile_script cfg lang) es1 (Ok q)" and k: "yields (K q) es2 (Ok res)"
    unfolding K(1) by (auto simp: yields_try_Ok yields_primitives)
  have r: "case q of Inl txt \<Rightarrow> es2 = [] \<and> res = compile_error_result req txt
      | Inr co \<Rightarrow> \<exists>rs ft. yields (tests_script cfg (run_spec cfg lang req) req 0 (rq_tests req) [] None) es2 (Ok (rs, ft)) \<and>
          res = \<lparr>jr_verdict = final_verdict rs, jr_time_ms = max_u64 (map tr_time_ms rs),
            jr_memory_kb = max_u64 (map tr_memory_kb rs), jr_failed_test = ft, jr_compile_output = co,
            jr_tests = rs, jr_tests_total = length (rq_tests req)\<rparr>"
    using k by (cases q) (auto simp: K(2,3) yields_try_Ok yields_primitives)
  obtain out :: "exec_outcome option" where out: "out = None \<longleftrightarrow> lg_compile lang = None"
    "es1 = (case (lg_compile lang, out) of
        (Some st, Some o') \<Rightarrow> [Ran (compile_spec cfg lang st) [] (Ok o')] | _ \<Rightarrow> [])"
    "q = (case out of None \<Rightarrow> Inr None | Some o' \<Rightarrow>
       (let txt = excerpt (oc_stdout o') (jc_compile_output_bytes cfg)
        in if oc_status o' \<noteq> ExOk then Inl (compile_reason (oc_status o') @ txt) else Inr (filter_empty txt)))"
  proof (cases "lg_compile lang")
    case None
    with c that [of None] show thesis by (simp add: yields_compile)
  next
    case (Some st)
    with c obtain o' where "es1 = [Ran (compile_spec cfg lang st) [] (Ok o')]"
      "q = (let txt = excerpt (oc_stdout o') (jc_compile_output_bytes cfg)
        in if oc_status o' \<noteq> ExOk then Inl (compile_reason (oc_status o') @ txt) else Inr (filter_empty txt))"
      by (auto simp: yields_compile)
    with Some that [of "Some o'"] show thesis by simp
  qed
  show thesis
  proof (cases q)
    case (Inl msg)
    with out have "compiler_failed out" by (auto simp: compiler_failed_def Let_def split: option.splits if_splits)
    with Inl out r es show thesis
      by (intro that [of out "[]"])
        (auto simp: session_complete_def session_events_def session_result_def Let_def split: option.splits if_splits)
  next
    case (Inr co)
    with r obtain rs ft where t: "yields (tests_script cfg (run_spec cfg lang req) req 0 (rq_tests req) [] None) es2 (Ok (rs, ft))"
      and res: "res = \<lparr>jr_verdict = final_verdict rs, jr_time_ms = max_u64 (map tr_time_ms rs),
            jr_memory_kb = max_u64 (map tr_memory_kb rs), jr_failed_test = ft, jr_compile_output = co,
            jr_tests = rs, jr_tests_total = length (rq_tests req)\<rparr>" by auto
    from yields_tests [OF t] obtain xs where
      xs: "es2 = map (\<lambda>(t, out). Ran (run_spec cfg lang req) (tc_input t) (Ok out)) xs" "tests_taken req xs"
        "res = run_result cfg req co xs"
      unfolding tests_taken_def run_result_def Let_def res by fastforce
    have ok: "\<not> compiler_failed out" "session_result cfg req out xs = run_result cfg req co xs"
      using Inr out by (auto simp: compiler_failed_def session_result_def Let_def split: option.splits if_splits)
    with xs out es show thesis
      by (intro that [of out xs]) (simp_all add: session_complete_def session_events_def)
  qed
qed

text \<open>An accepted session compiled, and executed every test, which passed.\<close>

lemma session_accepted:
  assumes "session_complete lang req c xs" "jr_verdict (session_result cfg req c xs) = Accepted"
  shows "\<not> compiler_failed c" "map fst xs = rq_tests req" "\<forall>(t, out) \<in> set xs. passes (rq_comparer req) t out"
proof -
  show ok: "\<not> compiler_failed c"
    using assms(2)
    by (auto simp: session_result_def compiler_failed_def compile_error_result_def Let_def split: option.splits if_splits)
  then have "jr_verdict (session_result cfg req c xs) = final_verdict (entries cfg req False xs)"
    by (auto simp: session_result_def compiler_failed_def run_result_def Let_def split: option.splits)
  with assms(2) have "set (map tr_verdict (entries cfg req False xs)) \<subseteq> {Accepted}"
    by (auto simp: final_verdict_Accepted)
  then have good: "\<forall>(t, out) \<in> set xs. \<not> is_bad req t out"
    by (auto simp: entries_verdicts is_bad_def)
  then show "\<forall>(t, out) \<in> set xs. passes (rq_comparer req) t out" by (auto simp: not_bad_passes)
  have taken: "map fst xs = take (length xs) (rq_tests req)" "length xs = length (rq_tests req) \<or>
      xs \<noteq> [] \<and> is_bad req (fst (last xs)) (snd (last xs))"
    using assms(1) ok by (auto simp: session_complete_def tests_taken_def split: if_splits)
  with good have "length xs = length (rq_tests req)" by (metis case_prodD last_in_set prod.collapse)
  with taken(1) show "map fst xs = rq_tests req" by simp
qed

end
