(* ===== verification/Server_System.thy ===== *)
theory Server_System
  imports Server_Http Judge_Script
begin

text \<open>
  The running server of \<open>crates/server/src/worker.rs\<close>: all its tasks together. Each worker, and the
  heartbeat task of each submission being judged, is a small machine; a move of one of them is what
  its code does between two points at which other tasks may run: one access of the store, of the
  run lane, of the hub or of the sandbox. The sweeper, the requests of clients, and a crash with the
  restart that follows it are moves too. A history of the server is any sequence of moves.
\<close>

section \<open>Tasks\<close>

datatype task = Run_Task run_job | Submission_Task job problem

fun task_request :: "task \<Rightarrow> judge_request" where
  "task_request (Run_Task job) = run_request job"
| "task_request (Submission_Task job p) = submission_request job p"

fun task_listens :: "task \<Rightarrow> bool" where
  "task_listens (Run_Task job) \<longleftrightarrow> False"
| "task_listens (Submission_Task job p) \<longleftrightarrow> True"

text \<open>
  Where a worker is, with its streak of runs. While it judges it has its box, what is left to do
  there, and the channel to the heartbeat task: the events not yet received, and whether that task
  has renewed the lease and is about to publish.
\<close>

datatype 'b worker =
    At_Loop u32
  | Claiming u32
  | Abandoning job
  | Wants_Box task u32
  | In_Box task u32 'b "judge_result judging_script" "progress list" bool
  | Has_Outcome task u32 "judge_error + judge_result" "progress list" bool
  | Publishing job

section \<open>The moves of a worker\<close>

fun script_move ::
  "('s, 'b) sandbox \<Rightarrow> 'b \<Rightarrow> 'a script \<Rightarrow> 's \<Rightarrow> ('a + 'a script) \<times> progress list \<times> 's" where
  "script_move sb b (Return r) s = (Inl r, [], snd (sb_release sb b s))"
| "script_move sb b (Write_File n c k) s = (let (r, s') = sb_write_file sb b n c s in (Inr (k r), [], s'))"
| "script_move sb b (Exec spec i k) s = (let (r, s') = sb_exec sb b spec i s in (Inr (k r), [], s'))"
| "script_move sb b (Report p m) s = (Inr m, [p], s)"

definition enter_box ::
  "('s, 'b, 'c, 'r) server_env \<Rightarrow> task \<Rightarrow> u32 \<Rightarrow> ('s, 'c) server \<Rightarrow> ('b worker \<times> ('s, 'c) server) option" where
  "enter_box env t streak w =
     (case get_language (en_languages env) (rq_language (task_request t)) of
        None \<Rightarrow> Some (Has_Outcome t streak (Err (UnknownLanguage (rq_language (task_request t)))) [] False, w)
      | Some lang \<Rightarrow>
          (case sb_acquire (en_sandbox env) (sv_sandbox w) of
             None \<Rightarrow> None
           | Some (Err e, s) \<Rightarrow> Some (Has_Outcome t streak (Err (Sandbox_Failed e)) [] False, w\<lparr>sv_sandbox := s\<rparr>)
           | Some (Ok b, s) \<Rightarrow>
               Some (In_Box t streak b (judge_script (en_judge_config env) lang (task_request t)) [] False,
                     w\<lparr>sv_sandbox := s\<rparr>)))"

definition deliver ::
  "('s, 'b, 'c, 'r) server_env \<Rightarrow> task \<Rightarrow> u32 \<Rightarrow> judge_error + judge_result \<Rightarrow> ('s, 'c) server \<Rightarrow>
   'b worker \<times> ('s, 'c) server" where
  "deliver env t streak outcome w =
     (case t of
        Run_Task job \<Rightarrow>
          (At_Loop streak,
           w\<lparr>sv_runs := run_complete (rj_id job) (map_err (judge_error_text (en_debug_str env)) outcome) (sv_runs w)\<rparr>)
      | Submission_Task job p \<Rightarrow> (Publishing job, write_outcome env job p outcome w))"

text \<open>\<open>None\<close> is a worker that waits: for a free box, or for its heartbeat task to finish.\<close>

fun worker_move ::
  "('s, 'b, 'c, 'r) server_env \<Rightarrow> 'b worker \<Rightarrow> ('s, 'c) server \<Rightarrow> ('b worker \<times> ('s, 'c) server) option" where
  "worker_move env (At_Loop streak) w =
     (if RUN_BURST \<le> streak then Some (Claiming streak, w)
      else (case run_pop (sv_runs w) of
              (Some job, runs) \<Rightarrow> Some (Wants_Box (Run_Task job) (streak + 1), w\<lparr>sv_runs := runs\<rparr>)
            | (None, runs) \<Rightarrow> Some (Claiming streak, w\<lparr>sv_runs := runs\<rparr>)))"
| "worker_move env (Claiming streak) w =
     (case with_store env (\<lambda>now. claim_next now (lease_ms (en_config env))) w of
        (Ok (Some job), w') \<Rightarrow>
          Some (case get_problem (en_problems env) (jb_problem job) of
                  None \<Rightarrow> Abandoning job
                | Some p \<Rightarrow> Wants_Box (Submission_Task job p) 0, w')
      | (Ok None, w') \<Rightarrow> Some (At_Loop 0, w')
      | (Err e, w') \<Rightarrow> Some (At_Loop streak, w'))"
| "worker_move env (Abandoning job) w = Some (At_Loop 0, fail_permanently env job ''problem no longer exists'' w)"
| "worker_move env (Wants_Box t streak) w = enter_box env t streak w"
| "worker_move env (In_Box t streak b m events busy) w =
     (case script_move (en_sandbox env) b m (sv_sandbox w) of
        (Inl outcome, ps, s) \<Rightarrow> Some (Has_Outcome t streak outcome events busy, w\<lparr>sv_sandbox := s\<rparr>)
      | (Inr m', ps, s) \<Rightarrow>
          Some (In_Box t streak b m' (if task_listens t then events @ ps else events) busy, w\<lparr>sv_sandbox := s\<rparr>))"
| "worker_move env (Has_Outcome t streak outcome events busy) w =
     (if events = [] \<and> \<not> busy then Some (deliver env t streak outcome w) else None)"
| "worker_move env (Publishing job) w = Some (At_Loop 0, publish_current env (jb_id job) w)"

section \<open>The heartbeat task of a submission\<close>

fun beat ::
  "('s, 'b, 'c, 'r) server_env \<Rightarrow> job \<Rightarrow> progress list \<Rightarrow> bool \<Rightarrow> ('s, 'c) server \<Rightarrow>
   (progress list \<times> bool \<times> ('s, 'c) server) option" where
  "beat env job events True w = Some (events, False, publish_current env (jb_id job) w)"
| "beat env job [] False w = None"
| "beat env job (e # events) False w =
     (let (st, k, n) = progress_of e;
          (renewed, w') = with_store env (\<lambda>now. store_progress now (jb_id job) (jb_attempt job) st k n
            (lease_ms (en_config env))) w
      in Some (events, renewed, w'))"

fun heartbeat_move ::
  "('s, 'b, 'c, 'r) server_env \<Rightarrow> 'b worker \<Rightarrow> ('s, 'c) server \<Rightarrow> ('b worker \<times> ('s, 'c) server) option" where
  "heartbeat_move env (In_Box (Submission_Task job p) streak b m events busy) w =
     map_option (\<lambda>(events', busy', w'). (In_Box (Submission_Task job p) streak b m events' busy', w'))
       (beat env job events busy w)"
| "heartbeat_move env (Has_Outcome (Submission_Task job p) streak outcome events busy) w =
     map_option (\<lambda>(events', busy', w'). (Has_Outcome (Submission_Task job p) streak outcome events' busy', w'))
       (beat env job events busy w)"
| "heartbeat_move env _ w = None"

section \<open>Clients\<close>

datatype client_request =
    Post_Submission string "string option" create_submission
  | Post_Run string i64 nat create_run
  | Watch_Submission string
  | Read_Submission string
  | Read_Source string
  | List_Submissions "string option" "u32 option"
  | Read_Health

fun client_move :: "('s, 'b, 'c, 'r) server_env \<Rightarrow> client_request \<Rightarrow> ('s, 'c) server \<Rightarrow> ('s, 'c) server" where
  "client_move env (Post_Submission i header body) w = snd (post_submission env i header body w)"
| "client_move env (Post_Run i now instant body) w = snd (post_run env i now instant body w)"
| "client_move env (Watch_Submission i) w = snd (submission_events env i w)"
| "client_move env (Read_Submission i) w = snd (get_submission env i w)"
| "client_move env (Read_Source i) w = snd (get_submission_source env i w)"
| "client_move env (List_Submissions p limit) w = snd (list_submissions env p limit w)"
| "client_move env Read_Health w = snd (healthz env w)"

section \<open>The system\<close>

record ('s, 'b, 'c) system =
  sy_server :: "('s, 'c) server"
  sy_workers :: "'b worker list"

text \<open>
  The sweeper's tick is three accesses. A crash loses everything but the database, at any moment;
  the restart puts back what was in flight, has new run lane, hub and sandbox state, and all
  workers are at the start of their loop.
\<close>

datatype 's move =
    Worker_Moves nat
  | Heartbeat_Moves nat
  | Sweeps
  | Prunes_Runs nat
  | Prunes_Hub
  | Client client_request
  | Restart 's

definition sweep_store :: "('s, 'b, 'c, 'r) server_env \<Rightarrow> ('s, 'c) server \<Rightarrow> ('s, 'c) server" where
  "sweep_store env w =
     (let (report, w1) = with_store env (\<lambda>now. store_sweep now (sc_max_attempts (en_config env))) w
      in if 0 < sp_requeued report + sp_failed report then wake_up Notify_Waiters w1 else w1)"

definition restarted :: "('s, 'b, 'c, 'r) server_env \<Rightarrow> 's \<Rightarrow> ('s, 'c) server \<Rightarrow> ('s, 'c) server" where
  "restarted env s w =
     (new_server (en_config env) (snd (requeue_inflight (sv_db w))) s)\<lparr>sv_access := sv_access w\<rparr>"

definition with_worker ::
  "nat \<Rightarrow> ('b worker \<Rightarrow> ('s, 'c) server \<Rightarrow> ('b worker \<times> ('s, 'c) server) option) \<Rightarrow>
   ('s, 'b, 'c) system \<Rightarrow> ('s, 'b, 'c) system option" where
  "with_worker i f S =
     (if i < length (sy_workers S)
      then map_option (\<lambda>(x, w). \<lparr>sy_server = w, sy_workers = (sy_workers S)[i := x]\<rparr>)
             (f (sy_workers S ! i) (sy_server S))
      else None)"

fun sys_move ::
  "('s, 'b, 'c, 'r) server_env \<Rightarrow> 's move \<Rightarrow> ('s, 'b, 'c) system \<Rightarrow> ('s, 'b, 'c) system option" where
  "sys_move env (Worker_Moves i) S = with_worker i (worker_move env) S"
| "sys_move env (Heartbeat_Moves i) S = with_worker i (heartbeat_move env) S"
| "sys_move env Sweeps S = Some (S\<lparr>sy_server := sweep_store env (sy_server S)\<rparr>)"
| "sys_move env (Prunes_Runs instant) S =
     Some (S\<lparr>sy_server := (sy_server S)\<lparr>sv_runs := snd (run_prune instant (sv_runs (sy_server S)))\<rparr>\<rparr>)"
| "sys_move env Prunes_Hub S =
     Some (S\<lparr>sy_server := (sy_server S)\<lparr>sv_hub := snd (hub_prune (en_broadcast env) (sv_hub (sy_server S)))\<rparr>\<rparr>)"
| "sys_move env (Client q) S = Some (S\<lparr>sy_server := client_move env q (sy_server S)\<rparr>)"
| "sys_move env (Restart s) S =
     Some \<lparr>sy_server = restarted env s (sy_server S), sy_workers = map (\<lambda>_. At_Loop 0) (sy_workers S)\<rparr>"

fun sys_run ::
  "('s, 'b, 'c, 'r) server_env \<Rightarrow> 's move list \<Rightarrow> ('s, 'b, 'c) system \<Rightarrow> ('s, 'b, 'c) system option" where
  "sys_run env [] S = Some S"
| "sys_run env (a # as) S = Option.bind (sys_move env a S) (sys_run env as)"

definition started :: "('s, 'b, 'c, 'r) server_env \<Rightarrow> db \<Rightarrow> 's \<Rightarrow> nat \<Rightarrow> ('s, 'b, 'c) system" where
  "started env d s n = \<lparr>sy_server = new_server (en_config env) d s, sy_workers = replicate n (At_Loop 0)\<rparr>"

text \<open>\<open>fresh\<close> are the states of a sandbox that was just set up.\<close>

fun move_ok :: "('s \<Rightarrow> bool) \<Rightarrow> 's move \<Rightarrow> bool" where
  "move_ok fresh (Restart s) \<longleftrightarrow> fresh s"
| "move_ok fresh _ \<longleftrightarrow> True"

inductive reachable ::
  "('s, 'b, 'c, 'r) server_env \<Rightarrow> ('s \<Rightarrow> bool) \<Rightarrow> nat \<Rightarrow> ('s, 'b, 'c) system \<Rightarrow> bool"
  for env :: "('s, 'b, 'c, 'r) server_env" and fresh :: "'s \<Rightarrow> bool" and n :: nat where
  start: "fresh s \<Longrightarrow> reachable env fresh n (started env empty_db s n)"
| move: "reachable env fresh n S \<Longrightarrow> move_ok fresh a \<Longrightarrow> sys_move env a S = Some T \<Longrightarrow> reachable env fresh n T"

lemma reachable_run:
  "reachable env fresh n S \<Longrightarrow> list_all (move_ok fresh) as \<Longrightarrow> sys_run env as S = Some T \<Longrightarrow> reachable env fresh n T"
  by (induction as arbitrary: S) (auto simp: bind_eq_Some_conv intro: reachable.move)

lemma with_workerE:
  assumes "with_worker i f S = Some T"
  obtains x w where "i < length (sy_workers S)" "f (sy_workers S ! i) (sy_server S) = Some (x, w)"
    "T = \<lparr>sy_server = w, sy_workers = (sy_workers S)[i := x]\<rparr>"
  using assms by (auto simp: with_worker_def split: if_splits)

lemma workers_count: "reachable env fresh n S \<Longrightarrow> length (sy_workers S) = n"
proof (induction rule: reachable.induct)
  case (move S a T)
  then show ?case by (cases a) (auto elim!: with_workerE)
qed (simp add: started_def)

end
