(* ===== verification/Server_System_Facts.thy ===== *)
theory Server_System_Facts
  imports Server_System Server_Judging
begin

text \<open>
  The moves of the running server seen from the database, and the invariant of its reachable
  states: every access is one operation of the store, the jobs that workers hold are copies of
  rows, no token is held twice, and finished rows show what the judge decides.
\<close>

section \<open>The database only grows\<close>

definition grown :: "db \<Rightarrow> db \<Rightarrow> bool" where
  "grown d d' \<longleftrightarrow> (\<forall>r \<in> set (db_rows d). \<exists>r' \<in> set (db_rows d'). rw_id r' = rw_id r \<and>
       rw_problem r' = rw_problem r \<and> rw_language r' = rw_language r \<and> rw_attempt r \<le> rw_attempt r') \<and>
     (\<forall>i src. store_get_source i d = Some src \<longrightarrow> store_get_source i d' = Some src)"

lemma grown_refl: "grown d d"
  by (auto simp: grown_def)

lemma grown_trans: "grown d d' \<Longrightarrow> grown d' d'' \<Longrightarrow> grown d d''"
  unfolding grown_def by (intro conjI ballI) (metis order_trans, metis)

lemma effect_attempt: "rw_attempt r \<le> rw_attempt (row_effect ser op d r)"
  by (cases op) (auto simp: row_changes split: sum.splits)

lemma source_kept:
  "store_get_source i d = Some src \<Longrightarrow> store_get_source i (store_step ser de op d) = Some src"
  by (auto simp: store_get_source_def store_step_sources find_append split: option.splits)

lemma step_grown: "grown d (store_step ser de op d)"
  unfolding grown_def
  by (auto simp: store_step_rows source_kept intro!: bexI [of _ "row_effect ser op d _"] effect_attempt)

lemma grown_tokens: "grown d d' \<Longrightarrow> tokens_fit d' \<Longrightarrow> tokens_fit d"
  by (fastforce simp: grown_def tokens_fit_def)

section \<open>What a finished row shows\<close>

definition job_of_row :: "db \<Rightarrow> row \<Rightarrow> job" where
  "job_of_row d r = \<lparr>jb_id = rw_id r, jb_problem = rw_problem r, jb_language = rw_language r,
     jb_source = or_default (store_get_source (rw_id r) d) [], jb_attempt = i64_as_u32 (rw_attempt r)\<rparr>"

text \<open>
  \<open>P\<close> gives for each task the outcomes that judging it can have had: all of them when nothing is
  known of what was done.
\<close>

type_synonym outcomes = "task \<Rightarrow> (judge_error + judge_result) set"

definition could_return ::
  "('s, 'b, 'c, 'r) server_env \<Rightarrow> outcomes \<Rightarrow> job \<Rightarrow> string \<Rightarrow> judge_result \<Rightarrow> bool" where
  "could_return env P job version res \<longleftrightarrow>
     (\<exists>p. get_problem (en_problems env) (jb_problem job) = Some p \<and> version = pr_version p \<and>
        Ok res \<in> P (Submission_Task job p))"

definition shows_result ::
  "('s, 'b, 'c, 'r) server_env \<Rightarrow> string \<Rightarrow> judge_result \<Rightarrow> row \<Rightarrow> bool" where
  "shows_result env version res r \<longleftrightarrow>
     rw_verdict r = Some (code (jr_verdict res)) \<and> rw_time_ms r = Some (u64_as_i64 (jr_time_ms res)) \<and>
     rw_memory_kb r = Some (u64_as_i64 (jr_memory_kb res)) \<and> rw_failed_test r = jr_failed_test res \<and>
     rw_compile_output r = jr_compile_output res \<and>
     (\<exists>j. rw_test_results r = Some j \<and> en_write_json env (jr_tests res) = Ok j) \<and>
     rw_problem_version r = version \<and> rw_judge_version r = Some judge_version"

definition authentic ::
  "('s, 'b, 'c, 'r) server_env \<Rightarrow> outcomes \<Rightarrow> db \<Rightarrow> row \<Rightarrow> bool" where
  "authentic env P d r \<longleftrightarrow> rw_status r \<noteq> ''DONE'' \<or>
     (rw_verdict r = Some ''IE'' \<and> rw_error r \<noteq> None) \<or>
     (\<exists>version res. could_return env P (job_of_row d r) version res \<and> shows_result env version res r)"

definition backed ::
  "('s, 'b, 'c, 'r) server_env \<Rightarrow> outcomes \<Rightarrow> db \<Rightarrow> store_op \<Rightarrow> bool" where
  "backed env P d op \<longleftrightarrow> store_adm op d \<and>
     (case op of
        Op_Finish now i a pv jv res \<Rightarrow> jv = judge_version \<and>
          (\<forall>r \<in> set (db_rows d). owned_by i a r \<longrightarrow> could_return env P (job_of_row d r) pv res)
      | _ \<Rightarrow> True)"

lemma source_step:
  assumes "store_inv d" "r \<in> set (db_rows d)"
  shows "store_get_source (rw_id r) (store_step ser de op d) = store_get_source (rw_id r) d"
proof -
  obtain src where "store_get_source (rw_id r) d = Some src"
    using source_exists [OF assms(1), of "rw_id r"] assms(2) by blast
  with source_kept show ?thesis by fastforce
qed

lemma job_kept:
  assumes "store_inv d" "r \<in> set (db_rows d)" "rw_attempt (row_effect ser op d r) = rw_attempt r"
  shows "job_of_row (store_step ser de op d) (row_effect ser op d r) = job_of_row d r"
  using assms(3) by (simp add: job_of_row_def source_step [OF assms(1,2)])

lemma effect_authentic:
  assumes inv: "store_inv d" and op: "backed env P d op" and r: "r \<in> set (db_rows d)"
    and auth: "authentic env P d r"
  shows "authentic env P (env_step env op d) (row_effect (en_write_json env) op d r)"
proof -
  let ?r = "row_effect (en_write_json env) op d r"
  note same = job_kept [OF inv r, of "en_write_json env" op "en_read_json env"]
  show ?thesis
  proof (cases "rw_status r = ''DONE''")
    case True
    with done_row_effect [OF inv r] auth same show ?thesis by (simp add: authentic_def)
  next
    case False
    show ?thesis
    proof (cases "\<exists>now i a pv jv res. op = Op_Finish now i a pv jv res")
      case True
      then have "rw_attempt ?r = rw_attempt r" by (auto simp: row_changes split: sum.splits)
      with same False True op r show ?thesis
        unfolding authentic_def by (auto simp: backed_def row_changes shows_result_def split: sum.splits)
    next
      case no_finish: False
      with False op r show ?thesis
        unfolding authentic_def by (cases op) (auto simp: backed_def row_changes split: option.splits)
    qed
  qed
qed

lemma inserted_authentic: "r \<in> set (inserted op d) \<Longrightarrow> authentic env P d' r"
  by (rule inserted_cases [of op d]) (auto simp: authentic_def new_row_def)

lemma step_authentic:
  assumes "store_inv d" "backed env P d op" "\<forall>r \<in> set (db_rows d). authentic env P d r"
  shows "\<forall>r \<in> set (db_rows (env_step env op d)). authentic env P (env_step env op d) r"
  using effect_authentic [OF assms(1,2)] assms(3)
  by (auto simp: store_step_rows inserted_authentic simp del: store_step.simps)

section \<open>The jobs that workers hold\<close>

fun task_job :: "task \<Rightarrow> job option" where
  "task_job (Run_Task job) = None"
| "task_job (Submission_Task job p) = Some job"

fun worker_job :: "'b worker \<Rightarrow> job option" where
  "worker_job (At_Loop streak) = None"
| "worker_job (Claiming streak) = None"
| "worker_job (Abandoning job) = Some job"
| "worker_job (Wants_Box t streak) = task_job t"
| "worker_job (In_Box t streak b m events busy) = task_job t"
| "worker_job (Has_Outcome t streak outcome events busy) = task_job t"
| "worker_job (Publishing job) = Some job"

text \<open>A job is a copy of a row, under an attempt that was the row's once.\<close>

definition job_ok :: "db \<Rightarrow> job \<Rightarrow> bool" where
  "job_ok d job \<longleftrightarrow> 0 < jb_attempt job \<and> store_get_source (jb_id job) d = Some (jb_source job) \<and>
     (\<exists>r \<in> set (db_rows d). rw_id r = jb_id job \<and> rw_problem r = jb_problem job \<and>
        rw_language r = jb_language job \<and> uint (jb_attempt job) \<le> rw_attempt r)"

lemma job_ok_grown: "grown d d' \<Longrightarrow> job_ok d job \<Longrightarrow> job_ok d' job"
  unfolding grown_def job_ok_def by (metis order_trans)

fun task_ok :: "('s, 'b, 'c, 'r) server_env \<Rightarrow> task \<Rightarrow> bool" where
  "task_ok env (Run_Task job) \<longleftrightarrow> True"
| "task_ok env (Submission_Task job p) \<longleftrightarrow> get_problem (en_problems env) (jb_problem job) = Some p"

fun worker_ok :: "('s, 'b, 'c, 'r) server_env \<Rightarrow> outcomes \<Rightarrow> 'b worker \<Rightarrow> bool" where
  "worker_ok env P (Wants_Box t streak) \<longleftrightarrow> task_ok env t"
| "worker_ok env P (In_Box t streak b m events busy) \<longleftrightarrow> task_ok env t"
| "worker_ok env P (Has_Outcome t streak outcome events busy) \<longleftrightarrow>
     task_ok env t \<and> (case outcome of Ok res \<Rightarrow> Ok res \<in> P t | Err e \<Rightarrow> True)"
| "worker_ok env P _ \<longleftrightarrow> True"

text \<open>What a script returns at its end is among the outcomes.\<close>

fun returns_ok :: "outcomes \<Rightarrow> 'b worker \<Rightarrow> bool" where
  "returns_ok P (In_Box t streak b (Return r) events busy) \<longleftrightarrow> r \<in> P t"
| "returns_ok P _ \<longleftrightarrow> True"

section \<open>Moves of workers\<close>

lemma with_store_aloneE:
  assumes "alone env" "with_store env f w = (a, w')"
  obtains now where "f now (sv_db w) = (a, sv_db w')" "sv_sandbox w' = sv_sandbox w" "sv_runs w' = sv_runs w"
    "sv_hub w' = sv_hub w"
  using assms by (auto simp: with_store_alone Let_def split: prod.splits)

lemma enter_boxE:
  assumes "enter_box env t streak w = Some (x, w')"
  obtains l where "x = Has_Outcome t streak (Err (UnknownLanguage l)) [] False" "w' = w"
    "get_language (en_languages env) (rq_language (task_request t)) = None"
  | e s where "x = Has_Outcome t streak (Err (Sandbox_Failed e)) [] False" "w' = w\<lparr>sv_sandbox := s\<rparr>"
    "sb_acquire (en_sandbox env) (sv_sandbox w) = Some (Err e, s)"
  | lang b s where "x = In_Box t streak b (judge_script (en_judge_config env) lang (task_request t)) [] False"
    "w' = w\<lparr>sv_sandbox := s\<rparr>" "get_language (en_languages env) (rq_language (task_request t)) = Some lang"
    "sb_acquire (en_sandbox env) (sv_sandbox w) = Some (Ok b, s)"
  using assms by (auto simp: enter_box_def split: option.splits sum.splits prod.splits)

lemma worker_move_ok:
  assumes "worker_move env x w = Some (x', w')" "worker_ok env P x" "returns_ok P x"
  shows "worker_ok env P x'"
proof (cases x)
  case (Wants_Box t streak)
  with assms(1,2) have "enter_box env t streak w = Some (x', w')" "task_ok env t" by simp_all
  then show ?thesis by (auto elim!: enter_boxE)
next
  case (In_Box t streak b m events busy)
  with assms show ?thesis by (cases m) (auto split: sum.splits prod.splits)
qed (use assms in \<open>auto simp: deliver_def split: if_splits option.splits prod.splits sum.splits task.splits\<close>)

section \<open>Every access is one operation of the store\<close>

definition db_moved ::
  "('s, 'b, 'c, 'r) server_env \<Rightarrow> outcomes \<Rightarrow> db \<Rightarrow> db \<Rightarrow> bool" where
  "db_moved env P d d' \<longleftrightarrow> d' = d \<or> (\<exists>op. backed env P d op \<and> d' = env_step env op d)"

lemma db_moved_refl: "db_moved env P d d"
  by (simp add: db_moved_def)

lemma db_moved_op: "backed env P d op \<Longrightarrow> d' = env_step env op d \<Longrightarrow> db_moved env P d d'"
  by (auto simp: db_moved_def)

lemma db_moved_grown: "db_moved env P d d' \<Longrightarrow> grown d d'"
  by (auto simp: db_moved_def grown_refl step_grown simp del: store_step.simps)

lemma db_moved_inv: "db_moved env P d d' \<Longrightarrow> store_inv d \<Longrightarrow> store_inv d'"
  by (auto simp: db_moved_def backed_def intro: store_step_inv simp del: store_step.simps)

lemma db_moved_authentic:
  "db_moved env P d d' \<Longrightarrow> store_inv d \<Longrightarrow> \<forall>r \<in> set (db_rows d). authentic env P d r \<Longrightarrow>
     \<forall>r \<in> set (db_rows d'). authentic env P d' r"
  unfolding db_moved_def using step_authentic [of d env P] by blast

lemma publish_moved: "alone env \<Longrightarrow> db_moved env P (sv_db w) (sv_db (publish_current env i w))"
  by (simp add: publish_alone db_moved_refl)

lemma read_moved:
  assumes "alone env" "\<And>now d. snd (f now d) = d"
  shows "sv_db (snd (with_store env f w)) = sv_db w"
proof -
  obtain a w' where w': "with_store env f w = (a, w')" by fastforce
  then obtain now where "f now (sv_db w) = (a, sv_db w')" using with_store_aloneE [OF assms(1)] by metis
  with assms(2) [of now "sv_db w"] w' show ?thesis by simp
qed

lemma op_moved:
  assumes "alone env" "\<And>now d. snd (f now d) = env_step env (op now) d" "\<And>now. backed env P (sv_db w) (op now)"
  shows "db_moved env P (sv_db w) (sv_db (snd (with_store env f w)))"
proof -
  obtain a w' where w': "with_store env f w = (a, w')" by fastforce
  then obtain now where "f now (sv_db w) = (a, sv_db w')" using with_store_aloneE [OF assms(1)] by metis
  with assms(2) [of now "sv_db w"] have "sv_db w' = env_step env (op now) (sv_db w)" by simp
  with assms(3) w' show ?thesis by (auto intro: db_moved_op simp del: store_step.simps)
qed

lemma claim_moved:
  assumes "alone env" "tokens_fit (sv_db w)"
  shows "db_moved env P (sv_db w) (sv_db (snd (with_store env (\<lambda>now. claim_next now lease) w)))"
  using assms by (intro op_moved [where op = "\<lambda>now. Op_Claim now lease"]) (auto simp: backed_def tokens_fit_def)

lemma fail_moved:
  assumes "alone env" "0 < jb_attempt job"
  shows "db_moved env P (sv_db w) (sv_db (fail_permanently env job err w))"
    and "db_moved env P (sv_db w) (sv_db (fail_job env job err w))"
proof -
  have f: "db_moved env P (sv_db w)
      (sv_db (snd (with_store env (\<lambda>now. fail_attempt now (jb_id job) (jb_attempt job) mx err) w)))" for mx
    using assms by (intro op_moved [where op = "\<lambda>now. Op_Fail now (jb_id job) (jb_attempt job) mx err"])
      (auto simp: backed_def)
  then show "db_moved env P (sv_db w) (sv_db (fail_permanently env job err w))"
    by (simp add: fail_permanently_def)
  have "sv_db (fail_job env job err w) = sv_db (snd (with_store env
      (\<lambda>now. fail_attempt now (jb_id job) (jb_attempt job) (sc_max_attempts (en_config env)) err) w))"
    by (auto simp: fail_job_def wake_up_def split: prod.splits option.splits status.splits)
  with f show "db_moved env P (sv_db w) (sv_db (fail_job env job err w))" by simp
qed

lemma beat_moved:
  assumes "alone env" "beat env job events busy w = Some (events', busy', w')"
  shows "db_moved env P (sv_db w) (sv_db w')"
proof (cases busy)
  case False
  with assms(2) obtain e rest where e: "events = e # rest" by (cases events) auto
  obtain st k n where p: "progress_of e = (st, k, n)" "st = S_Compiling \<or> st = S_Running"
    by (cases e) (auto simp: progress_of_def)
  have "db_moved env P (sv_db w) (sv_db (snd (with_store env (\<lambda>now. store_progress now (jb_id job)
      (jb_attempt job) st k n (lease_ms (en_config env))) w)))"
    using p(2) by (intro op_moved [OF assms(1), where op = "\<lambda>now. Op_Progress now (jb_id job)
      (jb_attempt job) st k n (lease_ms (en_config env))"]) (auto simp: backed_def)
  with False assms(2) e p(1) show ?thesis by (auto split: prod.splits)
qed (use assms(2) publish_moved [OF assms(1)] in auto)

text \<open>The result of a script is written for the row of its job, which expects exactly that.\<close>

lemma row_expects:
  assumes "store_inv d" "job_ok d job" "r \<in> set (db_rows d)" "owned_by (jb_id job) (jb_attempt job) r"
  shows "job_of_row d r = job"
proof -
  have id: "rw_id r = jb_id job" "rw_attempt r = uint (jb_attempt job)" using assms(4) by (simp_all add: owned_by_def)
  obtain r' where "r' \<in> set (db_rows d)" "rw_id r' = jb_id job" "rw_problem r' = jb_problem job" "rw_language r' = jb_language job"
    and src: "store_get_source (jb_id job) d = Some (jb_source job)"
    using assms(2) by (auto simp: job_ok_def)
  moreover from this id assms have "r = r'" by (metis find_row_distinct option.inject store_inv_def)
  ultimately show ?thesis using id by (simp add: job_of_row_def or_default_def i64_as_u32_def)
qed

lemma outcome_moved:
  assumes "alone env" "store_inv (sv_db w)" "job_ok (sv_db w) job"
    and "worker_ok env P
      (Has_Outcome (Submission_Task job p) streak result events busy)"
  shows "db_moved env P (sv_db w) (sv_db (write_outcome env job p result w))"
proof (cases result)
  case (Inl e)
  have "0 < jb_attempt job" using assms(3) by (simp add: job_ok_def)
  with fail_moved [OF assms(1)] Inl show ?thesis by (cases e) (auto simp: write_outcome_def)
next
  case (Inr res)
  with assms(4) have "could_return env P job (pr_version p) res" by (simp add: could_return_def)
  with row_expects [OF assms(2,3)] assms(3)
  have "backed env P (sv_db w) (Op_Finish now (jb_id job) (jb_attempt job) (pr_version p) judge_version res)" for now
    by (auto simp: backed_def job_ok_def)
  then have "db_moved env P (sv_db w) (sv_db (finish_job env job p res w))"
    unfolding finish_job_def
    by (intro op_moved [OF assms(1), where op = "\<lambda>now. Op_Finish now (jb_id job) (jb_attempt job) (pr_version p)
      judge_version res"]) simp_all
  with Inr show ?thesis by (simp add: write_outcome_def)
qed

lemma worker_moved:
  assumes env: "alone env" and db: "store_inv (sv_db w)" "tokens_fit (sv_db w)"
    and job: "case worker_job x of None \<Rightarrow> True | Some job \<Rightarrow> job_ok (sv_db w) job"
    and ok: "worker_ok env P x"
    and move: "worker_move env x w = Some (x', w')"
  shows "db_moved env P (sv_db w) (sv_db w')"
proof (cases x)
  case (Claiming streak)
  from move have "w' = snd (with_store env (\<lambda>now. claim_next now (lease_ms (en_config env))) w)"
    by (auto simp: Claiming split: prod.splits sum.splits option.splits)
  with claim_moved [OF env db(2)] show ?thesis by simp
next
  case (Abandoning job)
  with move job fail_moved(1) [OF env] show ?thesis by (auto simp: job_ok_def)
next
  case (Has_Outcome t streak result events busy)
  show ?thesis
  proof (cases t)
    case (Submission_Task j p)
    with move ok job Has_Outcome outcome_moved [OF env db(1)] show ?thesis
      by (auto simp: deliver_def split: if_splits)
  qed (use move Has_Outcome in \<open>auto simp: deliver_def db_moved_refl split: if_splits\<close>)
next
  case (Wants_Box t streak)
  with move have "enter_box env t streak w = Some (x', w')" by simp
  then show ?thesis by (auto simp: db_moved_refl elim!: enter_boxE)
qed (use move publish_moved [OF env] in \<open>auto simp: db_moved_refl split: if_splits option.splits prod.splits sum.splits\<close>)

lemma heartbeat_moveE:
  assumes "heartbeat_move env x w = Some (x', w')"
  obtains job p streak b m events busy events' busy' where
      "x = In_Box (Submission_Task job p) streak b m events busy"
      "x' = In_Box (Submission_Task job p) streak b m events' busy'"
      "beat env job events busy w = Some (events', busy', w')"
  | job p streak outcome events busy events' busy' where
      "x = Has_Outcome (Submission_Task job p) streak outcome events busy"
      "x' = Has_Outcome (Submission_Task job p) streak outcome events' busy'"
      "beat env job events busy w = Some (events', busy', w')"
  using assms by (cases "(env, x, w)" rule: heartbeat_move.cases) auto

section \<open>Moves of everybody else\<close>

lemma client_moved:
  assumes "alone env"
  shows "db_moved env P (sv_db w) (sv_db (client_move env q w))"
proof (cases q)
  case (Post_Submission i header body)
  have "db_moved env P (sv_db w) (sv_db (snd (with_store env (\<lambda>now. store_insert (en_read_json env) i now new) w)))" for new
    by (intro op_moved [OF assms, where op = "\<lambda>now. Op_Insert i now new"]) (simp_all add: backed_def)
  then show ?thesis
    by (auto simp: Post_Submission post_submission_def wake_up_def db_moved_refl split: sum.splits prod.splits)
      (metis snd_conv)+
next
  case (Post_Run i now instant body)
  then show ?thesis
    by (auto simp: post_run_def wake_up_def db_moved_refl split: sum.splits prod.splits queue_full.splits)
qed (auto simp: submission_events_def get_submission_def get_submission_source_def list_submissions_def healthz_def
    split_beta Let_def read_moved [OF assms] db_moved_refl)

lemma sweep_moved:
  assumes "alone env"
  shows "db_moved env P (sv_db w) (sv_db (sweep_store env w))"
proof -
  have "sv_db (sweep_store env w) =
      sv_db (snd (with_store env (\<lambda>now. store_sweep now (sc_max_attempts (en_config env))) w))"
    by (auto simp: sweep_store_def wake_up_def split: prod.splits)
  moreover have "db_moved env P (sv_db w)
      (sv_db (snd (with_store env (\<lambda>now. store_sweep now (sc_max_attempts (en_config env))) w)))"
    by (intro op_moved [OF assms, where op = "\<lambda>now. Op_Sweep now (sc_max_attempts (en_config env))"])
      (simp_all add: backed_def)
  ultimately show ?thesis by simp
qed

lemma restart_moved: "db_moved env P (sv_db w) (sv_db (restarted env s w))"
  by (rule db_moved_op [of _ _ _ Op_Requeue]) (simp_all add: restarted_def new_server_def backed_def)

lemma workers_after:
  assumes "i < length xs" "list_all P xs" "P x"
  shows "list_all P (xs[i := x])"
  using assms by (auto simp: list_all_iff dest: set_update_subset_insert [THEN subsetD])

section \<open>Tokens\<close>

lemma claim_source:
  assumes "claim_next now lease d = (Ok (Some job), d')"
  shows "store_get_source (jb_id job) d = Some (jb_source job)" and "db_sources d' = db_sources d"
  using assms find_row_in by (fastforce simp: claim_next_def Let_def split: option.splits)+

text \<open>The token of a new job is past every attempt its row ever had.\<close>

lemma claimed_job:
  assumes env: "alone env" and db: "store_inv (sv_db w)" "tokens_fit (sv_db w)"
    and claim: "with_store env (\<lambda>now. claim_next now lease) w = (Ok (Some job), w')"
  shows "job_ok (sv_db w') job" and "job_ok (sv_db w) old \<Longrightarrow> jb_id old = jb_id job \<Longrightarrow> jb_attempt old \<noteq> jb_attempt job"
proof -
  obtain pre r post now where at: "at_row pre r post (sv_db w)" "rw_status r = ''QUEUED''"
    "rw_id r = jb_id job" "rw_problem r = jb_problem job" "rw_language r = jb_language job"
    "uint (jb_attempt job) = rw_attempt r + 1" "0 < jb_attempt job"
    "at_row pre (claim_row (i64_add now lease) r) post (sv_db w')"
    by (rule claim_alone [OF env db claim])
  obtain now' where "claim_next now' lease (sv_db w) = (Ok (Some job), sv_db w')"
    using with_store_aloneE [OF env claim] by metis
  note src = claim_source [OF this]
  with at show "job_ok (sv_db w') job"
    by (auto simp: job_ok_def at_row_def claim_row_def store_get_source_def)
  assume old: "job_ok (sv_db w) old" "jb_id old = jb_id job"
  then obtain r' where "r' \<in> set (db_rows (sv_db w))" "rw_id r' = rw_id r" "uint (jb_attempt old) \<le> rw_attempt r'"
    using at(3) by (auto simp: job_ok_def)
  moreover from this at(1) have "r' = r" using db(1) by (metis at_row_find find_row_distinct option.inject store_inv_def)
  ultimately show "jb_attempt old \<noteq> jb_attempt job" using at(6) by auto
qed

lemma worker_move_job:
  assumes "alone env" "store_inv (sv_db w)" "tokens_fit (sv_db w)" "worker_move env x w = Some (x', w')"
  shows "worker_job x' = None \<or> worker_job x' = worker_job x \<or>
    (\<exists>job. worker_job x' = Some job \<and> job_ok (sv_db w') job \<and>
      (\<forall>old. job_ok (sv_db w) old \<longrightarrow> jb_id old = jb_id job \<longrightarrow> jb_attempt old \<noteq> jb_attempt job))"
proof (cases x)
  case (Claiming streak)
  with assms(4) claimed_job [OF assms(1-3)] show ?thesis
    by (fastforce split: prod.splits sum.splits option.splits)
next
  case (Wants_Box t streak)
  with assms(4) have "enter_box env t streak w = Some (x', w')" by simp
  with Wants_Box show ?thesis by (auto elim!: enter_boxE)
qed (use assms(4) in \<open>auto simp: deliver_def split: if_splits option.splits prod.splits sum.splits task.splits\<close>)

section \<open>The invariant of the system\<close>

definition tokens_apart :: "'b worker list \<Rightarrow> bool" where
  "tokens_apart xs \<longleftrightarrow> (\<forall>i j a b. i < length xs \<and> j < length xs \<and> i \<noteq> j \<and>
     worker_job (xs ! i) = Some a \<and> worker_job (xs ! j) = Some b \<and> jb_id a = jb_id b \<longrightarrow>
     jb_attempt a \<noteq> jb_attempt b)"

definition holds_job :: "db \<Rightarrow> 'b worker \<Rightarrow> bool" where
  "holds_job d x \<longleftrightarrow> (case worker_job x of None \<Rightarrow> True | Some job \<Rightarrow> job_ok d job)"

definition sys_ok ::
  "('s, 'b, 'c, 'r) server_env \<Rightarrow> outcomes \<Rightarrow>
   ('s, 'b, 'c) system \<Rightarrow> bool" where
  "sys_ok env P S \<longleftrightarrow> store_inv (sv_db (sy_server S)) \<and>
     (\<forall>r \<in> set (db_rows (sv_db (sy_server S))). authentic env P (sv_db (sy_server S)) r) \<and>
     list_all (holds_job (sv_db (sy_server S))) (sy_workers S) \<and>
     list_all (worker_ok env P) (sy_workers S) \<and>
     tokens_apart (sy_workers S)"

lemma tokens_apart_same:
  assumes "tokens_apart xs" "worker_job x = None \<or> worker_job x = worker_job (xs ! i)"
  shows "tokens_apart (xs[i := x])"
proof -
  have "worker_job (xs ! j) = Some a" if "j < length xs" "worker_job (xs[i := x] ! j) = Some a" for j a
    using that assms(2) by (cases "j = i") auto
  with assms(1) show ?thesis unfolding tokens_apart_def by (metis length_list_update)
qed

lemma tokens_apart_new:
  assumes "tokens_apart xs" "list_all (holds_job d) xs" "worker_job x = Some job"
    and "\<And>old. job_ok d old \<Longrightarrow> jb_id old = jb_id job \<Longrightarrow> jb_attempt old \<noteq> jb_attempt job"
  shows "tokens_apart (xs[i := x])"
proof -
  have old: "job_ok d a" if "j < length xs" "worker_job (xs ! j) = Some a" for j a
    using assms(2) that by (force simp: list_all_length holds_job_def)
  show ?thesis
    unfolding tokens_apart_def
  proof (intro allI impI, elim conjE)
    fix j k a b
    assume jk: "j < length (xs[i := x])" "k < length (xs[i := x])" "j \<noteq> k" "worker_job (xs[i := x] ! j) = Some a"
      "worker_job (xs[i := x] ! k) = Some b" "jb_id a = jb_id b"
    then consider "j = i" "k \<noteq> i" | "j \<noteq> i" "k = i" | "j \<noteq> i" "k \<noteq> i" by blast
    then show "jb_attempt a \<noteq> jb_attempt b"
    proof cases
      case 1
      with jk assms(3,4) old [of k b] show ?thesis by fastforce
    next
      case 2
      with jk assms(3,4) old [of j a] show ?thesis by fastforce
    next
      case 3
      with jk assms(1) show ?thesis by (simp add: tokens_apart_def)
    qed
  qed
qed

lemma holds_job_grown: "grown d d' \<Longrightarrow> list_all (holds_job d) xs \<Longrightarrow> list_all (holds_job d') xs"
  by (auto simp: list_all_iff holds_job_def job_ok_grown split: option.splits)

text \<open>Whatever moves, rows stay and their attempts only rise.\<close>

lemma history_grown: "store_history env own w w' \<Longrightarrow> grown (sv_db w) (sv_db w')"
proof -
  have "grown d (exec_all (env_step env) ops d)" for ops d
  proof (induction ops arbitrary: d)
    case (Cons op ops)
    from step_grown [of d "en_write_json env" "en_read_json env" op] Cons show ?case
      by (auto simp del: store_step.simps intro: grown_trans)
  qed (simp add: grown_refl)
  then show "store_history env own w w' \<Longrightarrow> grown (sv_db w) (sv_db w')" by (auto simp: store_history_def)
qed

lemma worker_grown:
  assumes "worker_move env x w = Some (x', w')"
  shows "grown (sv_db w) (sv_db w')"
proof (cases x)
  case (Claiming streak)
  from assms have "w' = snd (with_store env (\<lambda>now. claim_next now (lease_ms (en_config env))) w)"
    by (auto simp: Claiming split: prod.splits sum.splits option.splits)
  moreover have "store_history env (\<lambda>_. True) w
      (snd (with_store env (\<lambda>now. claim_next now (lease_ms (en_config env))) w))"
    by (intro with_store_op [where op = "\<lambda>now. Op_Claim now (lease_ms (en_config env))"]) simp_all
  ultimately show ?thesis using history_grown by blast
next
  case (Wants_Box t streak)
  with assms have "enter_box env t streak w = Some (x', w')" by simp
  then show ?thesis by (auto simp: grown_refl elim!: enter_boxE)
qed (use assms history_grown [OF fail_history(1)] history_grown [OF write_outcome_history]
    history_grown [OF publish_current_history] grown_refl in
    \<open>auto simp: deliver_def split: if_splits option.splits prod.splits sum.splits task.splits\<close>)

lemma sys_grown:
  assumes "alone env" "sys_move env a S = Some T"
  shows "grown (sv_db (sy_server S)) (sv_db (sy_server T))"
proof (cases a)
  case (Worker_Moves i)
  with assms(2) show ?thesis by (auto elim!: with_workerE intro: worker_grown)
next
  case (Heartbeat_Moves i)
  with assms(2) show ?thesis
    by (auto elim!: with_workerE heartbeat_moveE intro: db_moved_grown [OF beat_moved [OF assms(1)]])
next
  case Sweeps
  with assms sweep_moved [THEN db_moved_grown, OF assms(1)] show ?thesis by auto
next
  case (Client q)
  with assms client_moved [THEN db_moved_grown, OF assms(1)] show ?thesis by auto
next
  case (Restart s)
  with assms restart_moved [THEN db_moved_grown] show ?thesis by auto
qed (use assms grown_refl in auto)

lemma sys_moved:
  assumes env: "alone env" and ok: "sys_ok env P S"
    and fit: "tokens_fit (sv_db (sy_server S))" and move: "sys_move env a S = Some T"
  shows "db_moved env P (sv_db (sy_server S)) (sv_db (sy_server T))"
proof (cases a)
  case (Worker_Moves i)
  with move obtain x w where i: "i < length (sy_workers S)"
    and m: "worker_move env (sy_workers S ! i) (sy_server S) = Some (x, w)" and T: "sy_server T = w"
    by (auto elim!: with_workerE)
  from ok i have "store_inv (sv_db (sy_server S))"
    "case worker_job (sy_workers S ! i) of None \<Rightarrow> True | Some job \<Rightarrow> job_ok (sv_db (sy_server S)) job"
    "worker_ok env P (sy_workers S ! i)"
    by (auto simp: sys_ok_def list_all_length holds_job_def)
  from worker_moved [OF env this(1) fit this(2,3) m] T show ?thesis by simp
next
  case (Heartbeat_Moves i)
  with move show ?thesis
    by (auto elim!: with_workerE heartbeat_moveE intro: beat_moved [OF env])
next
  case Sweeps
  with move sweep_moved [OF env] show ?thesis by auto
next
  case (Client q)
  with move client_moved [OF env] show ?thesis by auto
next
  case (Restart s)
  with move restart_moved show ?thesis by auto
qed (use move db_moved_refl in auto)

lemma sys_move_ok:
  assumes env: "alone env" and ok: "sys_ok env P S"
    and rets: "list_all (returns_ok P) (sy_workers S)"
    and fit: "tokens_fit (sv_db (sy_server S))" and move: "sys_move env a S = Some T"
  shows "sys_ok env P T"
proof -
  let ?d = "sv_db (sy_server S)" and ?d' = "sv_db (sy_server T)"
  note moved = sys_moved [OF env ok fit move]
  have S: "store_inv ?d" "\<forall>r \<in> set (db_rows ?d). authentic env P ?d r" "list_all (holds_job ?d) (sy_workers S)"
    "list_all (worker_ok env P) (sy_workers S)" "tokens_apart (sy_workers S)"
    using ok by (simp_all add: sys_ok_def)
  have db: "store_inv ?d'" "\<forall>r \<in> set (db_rows ?d'). authentic env P ?d' r"
    using db_moved_inv [OF moved S(1)] db_moved_authentic [OF moved S(1,2)] .
  have held: "list_all (holds_job ?d') (sy_workers S)"
    using holds_job_grown [OF db_moved_grown [OF moved] S(3)] .
  have "list_all (holds_job ?d') (sy_workers T) \<and> list_all (worker_ok env P) (sy_workers T) \<and>
      tokens_apart (sy_workers T)"
  proof (cases a)
    case (Worker_Moves i)
    with move obtain x w where i: "i < length (sy_workers S)"
      and m: "worker_move env (sy_workers S ! i) (sy_server S) = Some (x, w)"
      and T: "sy_server T = w" "sy_workers T = (sy_workers S)[i := x]"
      by (auto elim!: with_workerE)
    have "worker_ok env P (sy_workers S ! i)" and hi: "holds_job ?d' (sy_workers S ! i)"
      using S(4) held i by (simp_all add: list_all_length)
    moreover have "returns_ok P (sy_workers S ! i)" using rets i by (simp add: list_all_length)
    ultimately have "worker_ok env P x" using worker_move_ok [OF m] by blast
    moreover have "holds_job ?d' x \<and> tokens_apart ((sy_workers S)[i := x])"
      using worker_move_job [OF env S(1) fit m]
    proof (elim disjE exE conjE)
      fix job
      assume job: "worker_job x = Some job" "job_ok (sv_db w) job"
        "\<forall>old. job_ok ?d old \<longrightarrow> jb_id old = jb_id job \<longrightarrow> jb_attempt old \<noteq> jb_attempt job"
      from tokens_apart_new [OF S(5,3) job(1)] job T show ?thesis by (simp add: holds_job_def)
    qed (use hi tokens_apart_same [OF S(5)] in \<open>auto simp: holds_job_def\<close>)
    ultimately show ?thesis
      using workers_after [OF i held] workers_after [OF i S(4)] by (simp add: T(2))
  next
    case (Heartbeat_Moves i)
    with move obtain x w where i: "i < length (sy_workers S)"
      and m: "heartbeat_move env (sy_workers S ! i) (sy_server S) = Some (x, w)"
      and T: "sy_workers T = (sy_workers S)[i := x]"
      by (auto elim!: with_workerE)
    have j: "worker_job x = worker_job (sy_workers S ! i)"
      and k: "worker_ok env P x = worker_ok env P (sy_workers S ! i)"
      using m by (auto elim!: heartbeat_moveE)
    with S(4) held i have "worker_ok env P x" "holds_job ?d' x" by (simp_all add: list_all_length holds_job_def)
    with workers_after [OF i held] workers_after [OF i S(4)] tokens_apart_same [OF S(5)] j show ?thesis
      by (simp add: T)
  next
    case (Restart s)
    with move show ?thesis by (auto simp: list_all_iff holds_job_def tokens_apart_def)
  qed (use move held S in auto)
  with db show ?thesis by (simp add: sys_ok_def)
qed

lemma reachable_ok:
  assumes "alone env" "\<And>S. reachable env fresh n S \<Longrightarrow> list_all (returns_ok P) (sy_workers S)"
    and "reachable env fresh n S" "tokens_fit (sv_db (sy_server S))"
  shows "sys_ok env P S"
  using assms(3,4)
proof (induction rule: reachable.induct)
  case (start s)
  show ?case
    by (auto simp: sys_ok_def started_def new_server_def store_inv_empty list_all_iff holds_job_def tokens_apart_def)
      (simp add: empty_db_def)
next
  case (move S a T)
  from grown_tokens [OF sys_grown [OF assms(1) move.hyps(3)] move.prems]
  have "tokens_fit (sv_db (sy_server S))" .
  from sys_move_ok [OF assms(1) move.IH [OF this] assms(2) [OF move.hyps(1)] this move.hyps(3)] show ?case .
qed

lemma sys_ok_mono:
  assumes "sys_ok env P S" "\<And>t. P t \<subseteq> Q t"
  shows "sys_ok env Q S"
proof -
  have "worker_ok env P x \<Longrightarrow> worker_ok env Q x" for x
    using assms(2) by (cases x) (auto split: sum.splits)
  moreover have "authentic env P d r \<Longrightarrow> authentic env Q d r" for d r
    using assms(2) unfolding authentic_def could_return_def by blast
  ultimately show ?thesis using assms(1) by (auto simp: sys_ok_def list_all_iff)
qed

text \<open>Whatever the sandbox is, the server is safe.\<close>

lemma returns_any: "returns_ok (\<lambda>_. UNIV) x"
  by (cases "((\<lambda>_. UNIV) :: outcomes, x)" rule: returns_ok.cases) auto

lemmas reachable_safe = reachable_ok [where P = "\<lambda>_. UNIV", OF _ list_all_iff [THEN iffD2, OF ballI, OF returns_any]]

lemma run_grown: "alone env \<Longrightarrow> sys_run env as S = Some T \<Longrightarrow> grown (sv_db (sy_server S)) (sv_db (sy_server T))"
proof (induction as arbitrary: S)
  case (Cons a as)
  then obtain S' where S': "sys_move env a S = Some S'" "sys_run env as S' = Some T" by (auto simp: bind_eq_Some_conv)
  from grown_trans [OF sys_grown [OF Cons.prems(1) S'(1)] Cons.IH [OF Cons.prems(1) S'(2)]] show ?case .
qed (simp add: grown_refl)

lemma run_history:
  assumes "alone env" "reachable env fresh n S" "list_all (move_ok fresh) as" "sys_run env as S = Some T"
    and "tokens_fit (sv_db (sy_server T))"
  shows "\<exists>ops. sv_db (sy_server T) = exec_all (env_step env) ops (sv_db (sy_server S)) \<and>
    all_admissible store_adm (env_step env) ops (sv_db (sy_server S))"
  using assms(2-4)
proof (induction as arbitrary: S)
  case Nil
  then show ?case by (intro exI [of _ "[]"]) simp
next
  case (Cons a as)
  then obtain S' where S': "sys_move env a S = Some S'" "sys_run env as S' = Some T" by (auto simp: bind_eq_Some_conv)
  have "tokens_fit (sv_db (sy_server S))"
    using grown_tokens [OF run_grown [OF assms(1) Cons.prems(3)] assms(5)] .
  from sys_moved [OF assms(1) reachable_safe [OF assms(1) Cons.prems(1) this] this S'(1)]
  have "\<exists>ops. sv_db (sy_server S') = exec_all (env_step env) ops (sv_db (sy_server S)) \<and>
      all_admissible store_adm (env_step env) ops (sv_db (sy_server S))"
    unfolding db_moved_def
  proof (elim disjE exE conjE)
    fix op assume "backed env (\<lambda>_. UNIV) (sv_db (sy_server S)) op" "sv_db (sy_server S') = env_step env op (sv_db (sy_server S))"
    then show ?thesis by (intro exI [of _ "[op]"]) (simp add: backed_def del: store_step.simps store_adm.simps)
  qed (auto intro: exI [of _ "[]"])
  moreover have "reachable env fresh n S'" using Cons.prems S'(1) by (auto intro: reachable.move)
  then have "\<exists>ops. sv_db (sy_server T) = exec_all (env_step env) ops (sv_db (sy_server S')) \<and>
      all_admissible store_adm (env_step env) ops (sv_db (sy_server S'))"
    using Cons.IH [of S'] Cons.prems(2) S'(2) by simp
  ultimately show ?case by (metis exec_all_append all_admissible_append)
qed

end
