(* ===== verification/Server_System_Boxes.thy ===== *)
theory Server_System_Boxes
  imports Server_System_Facts Judge_Isolate_Guarantees
begin

text \<open>
  The boxes of the sandbox in the running server: several workers hold one each at the same time.
  What that takes of a backend is the \<open>shared_sandbox\<close> interface, which the isolate backend
  provides; with as many boxes as workers no worker ever waits for one, and a turn of a worker ends.
\<close>

section \<open>Sharing a backend\<close>

text \<open>Operations on one box leave the others valid, a new box is nobody else's, and there are \<open>slots\<close>.\<close>

locale shared_sandbox = sandbox_provider sb inv live holds
  for sb :: "('s, 'b) sandbox" and inv :: "'s \<Rightarrow> bool" and live :: "'s \<Rightarrow> nat" and holds :: "'b \<Rightarrow> 's \<Rightarrow> bool" +
  fixes slots :: nat
  assumes acquire_new: "inv s \<Longrightarrow> sb_acquire sb s = Some (Ok b, s') \<Longrightarrow> \<not> holds b s"
    and acquire_frame: "inv s \<Longrightarrow> sb_acquire sb s = Some (r, s') \<Longrightarrow> holds c s \<Longrightarrow> holds c s'"
    and write_frame: "inv s \<Longrightarrow> sb_write_file sb b name data s = (rw, s') \<Longrightarrow> holds c s \<Longrightarrow> holds c s'"
    and exec_frame: "inv s \<Longrightarrow> sb_exec sb b spec input s = (rx, s') \<Longrightarrow> holds c s \<Longrightarrow> holds c s'"
    and release_frame: "inv s \<Longrightarrow> sb_release sb b s = (rr, s') \<Longrightarrow> holds c s \<Longrightarrow> c \<noteq> b \<Longrightarrow> holds c s'"
    and acquire_free: "inv s \<Longrightarrow> live s < slots \<Longrightarrow> sb_acquire sb s \<noteq> None"

section \<open>The boxes of the workers\<close>

fun worker_box :: "'b worker \<Rightarrow> 'b list" where
  "worker_box (In_Box t streak b m events busy) = [b]"
| "worker_box _ = []"

definition boxes :: "'b worker list \<Rightarrow> 'b list" where
  "boxes xs = concat (map worker_box xs)"

lemma boxes_split:
  assumes "i < length xs"
  shows "boxes xs = boxes (take i xs) @ worker_box (xs ! i) @ boxes (drop (Suc i) xs)"
  using id_take_nth_drop [OF assms] unfolding boxes_def
  by (metis concat.simps(2) concat_append list.simps(9) map_append)

lemma boxes_update:
  assumes "i < length xs"
  obtains A B where "boxes xs = A @ worker_box (xs ! i) @ B" "\<And>x. boxes (xs[i := x]) = A @ worker_box x @ B"
    "\<And>j. j < length xs \<Longrightarrow> j \<noteq> i \<Longrightarrow> set (worker_box (xs ! j)) \<subseteq> set A \<union> set B"
proof (rule that [OF boxes_split [OF assms]])
  show "boxes (xs[i := x]) = boxes (take i xs) @ worker_box x @ boxes (drop (Suc i) xs)" for x
    using assms by (simp add: boxes_def upd_conv_take_nth_drop)
  fix j assume j: "j < length xs" "j \<noteq> i"
  have "xs ! j \<in> set (take i xs) \<union> set (drop (Suc i) xs)"
  proof (cases "j < i")
    case True
    with j show ?thesis by (auto simp: in_set_conv_nth)
  next
    case False
    with j have "drop (Suc i) xs ! (j - Suc i) = xs ! j" "j - Suc i < length (drop (Suc i) xs)" by auto
    then show ?thesis by (metis UnI2 nth_mem)
  qed
  then show "set (worker_box (xs ! j)) \<subseteq> set (boxes (take i xs)) \<union> set (boxes (drop (Suc i) xs))"
    by (auto simp: boxes_def)
qed

text \<open>Only a worker's own moves touch the sandbox.\<close>

lemma deliver_sandbox: "sv_sandbox (snd (deliver env t streak outcome w)) = sv_sandbox w"
  by (simp add: deliver_def split: task.split)

lemma beat_sandbox: "beat env job events busy w = Some (events', busy', w') \<Longrightarrow> sv_sandbox w' = sv_sandbox w"
  by (cases "(env, job, events, busy, w)" rule: beat.cases) (auto dest: with_store_runs split: prod.splits)

lemma client_sandbox: "sv_sandbox (client_move env q w) = sv_sandbox w"
  by (cases q) (auto simp: post_submission_def post_run_def wake_up_def submission_events_def get_submission_def
      get_submission_source_def list_submissions_def healthz_def with_store_def Let_def
      split: sum.splits prod.splits queue_full.splits)

lemma sweep_sandbox: "sv_sandbox (sweep_store env w) = sv_sandbox w"
  by (auto simp: sweep_store_def wake_up_def with_store_def Let_def split: prod.splits)

context shared_sandbox
begin

definition boxes_ok :: "'s \<Rightarrow> 'b list \<Rightarrow> bool" where
  "boxes_ok s bs \<longleftrightarrow> inv s \<and> live s = length bs \<and> distinct bs \<and> (\<forall>b \<in> set bs. holds b s)"

lemma boxes_ok_acquire:
  assumes "boxes_ok s (A @ B)" "sb_acquire sb s = Some (r, s')"
  shows "boxes_ok s' (case r of Err e \<Rightarrow> A @ B | Ok b \<Rightarrow> A @ b # B)"
proof -
  have ok: "inv s" "live s = length (A @ B)" "distinct (A @ B)" "\<forall>b \<in> set (A @ B). holds b s"
    using assms(1) by (simp_all add: boxes_ok_def)
  show ?thesis
  proof (cases r)
    case (Inl e)
    with acquire_err [OF ok(1)] acquire_frame [OF ok(1) assms(2)] ok assms(2) show ?thesis
      by (auto simp: boxes_ok_def)
  next
    case (Inr b)
    with acquire_ok [OF ok(1)] acquire_new [OF ok(1)] acquire_frame [OF ok(1) assms(2)] ok assms(2)
    show ?thesis by (fastforce simp: boxes_ok_def)
  qed
qed

lemma boxes_ok_script:
  assumes "boxes_ok s (A @ b # B)" "script_move sb b m s = (next, ps, s')"
  shows "boxes_ok s' (case next of Inl r \<Rightarrow> A @ B | Inr m' \<Rightarrow> A @ b # B)"
proof -
  have ok: "inv s" "live s = length (A @ b # B)" "distinct (A @ b # B)" "\<forall>c \<in> set (A @ b # B). holds c s" "holds b s"
    using assms(1) by (simp_all add: boxes_ok_def)
  show ?thesis
  proof (cases m)
    case (Return r)
    obtain q where rel: "sb_release sb b s = (q, snd (sb_release sb b s))" by (cases "sb_release sb b s") simp
    have "\<forall>c \<in> set (A @ B). holds c (snd (sb_release sb b s))"
      using release_frame [OF ok(1) rel] ok(3,4) by (metis Un_iff disjoint_iff distinct.simps(2) distinct_append list.set_intros set_append set_subset_Cons subsetD)
    with Return release_frees [OF ok(1,5) rel] ok assms(2) show ?thesis by (auto simp: boxes_ok_def)
  next
    case (Write_File n c k)
    obtain q t where w: "sb_write_file sb b n c s = (q, t)" by fastforce
    with Write_File write_keeps [OF ok(1,5) w] write_frame [OF ok(1) w] ok assms(2) show ?thesis
      by (auto simp: boxes_ok_def)
  next
    case (Exec spec i k)
    obtain q t where w: "sb_exec sb b spec i s = (q, t)" by fastforce
    with Exec exec_keeps [OF ok(1,5) w] exec_frame [OF ok(1) w] ok assms(2) show ?thesis
      by (auto simp: boxes_ok_def)
  next
    case (Report p m')
    with assms show ?thesis by auto
  qed
qed

lemma worker_move_boxes:
  assumes "sb = en_sandbox env" "worker_move env x w = Some (x', w')" "boxes_ok (sv_sandbox w) (A @ worker_box x @ B)"
  shows "boxes_ok (sv_sandbox w') (A @ worker_box x' @ B)"
proof (cases x)
  case (Wants_Box t streak)
  with assms(2) have "enter_box env t streak w = Some (x', w')" by simp
  then show ?thesis
    using boxes_ok_acquire [of "sv_sandbox w" A B] assms(3) Wants_Box
    by (fastforce simp: assms(1) elim!: enter_boxE)
next
  case (In_Box t streak b m events busy)
  obtain r ps s where m: "script_move sb b m (sv_sandbox w) = (r, ps, s)" by (cases "script_move sb b m (sv_sandbox w)") auto
  with boxes_ok_script [OF _ m, of A B] In_Box assms show ?thesis by (auto split: sum.splits)
next
  case (Has_Outcome t streak outcome events busy)
  with assms(2) deliver_sandbox [of env t streak outcome w] have "sv_sandbox w' = sv_sandbox w"
    by (auto split: if_splits)
  moreover have "worker_box x' = []" using Has_Outcome assms(2) by (auto simp: deliver_def split: if_splits task.splits)
  ultimately show ?thesis using assms(3) Has_Outcome by simp
next
  case (Claiming streak)
  with assms(2,3) show ?thesis
    by (auto split: prod.splits sum.splits option.splits dest: with_store_runs)
qed (use assms in \<open>auto split: if_splits option.splits prod.splits\<close>)

lemma reachable_boxes:
  assumes "sb = en_sandbox env" "\<And>s. fresh s \<Longrightarrow> inv s \<and> live s = 0" "reachable env fresh n S"
  shows "boxes_ok (sv_sandbox (sy_server S)) (boxes (sy_workers S))"
  using assms(3)
proof (induction rule: reachable.induct)
  case (start s)
  have "boxes (replicate n (At_Loop 0 :: 'b worker)) = []" by (simp add: boxes_def)
  with start assms(2) show ?case by (simp add: boxes_ok_def started_def new_server_def)
next
  case (move S a T)
  show ?case
  proof (cases a)
    case (Worker_Moves i)
    with move.hyps(3) obtain x w where i: "i < length (sy_workers S)"
      and m: "worker_move env (sy_workers S ! i) (sy_server S) = Some (x, w)"
      and T: "T = \<lparr>sy_server = w, sy_workers = (sy_workers S)[i := x]\<rparr>" by (auto elim!: with_workerE)
    from boxes_update [OF i] obtain A B where "boxes (sy_workers S) = A @ worker_box (sy_workers S ! i) @ B"
      and B: "\<And>x. boxes ((sy_workers S)[i := x]) = A @ worker_box x @ B" by metis
    with worker_move_boxes [OF assms(1) m] move.IH T show ?thesis by simp
  next
    case (Heartbeat_Moves i)
    with move.hyps(3) obtain x w where i: "i < length (sy_workers S)"
      and m: "heartbeat_move env (sy_workers S ! i) (sy_server S) = Some (x, w)"
      and T: "T = \<lparr>sy_server = w, sy_workers = (sy_workers S)[i := x]\<rparr>" by (auto elim!: with_workerE)
    from boxes_update [OF i] obtain A B where A: "boxes (sy_workers S) = A @ worker_box (sy_workers S ! i) @ B"
      and B: "\<And>x. boxes ((sy_workers S)[i := x]) = A @ worker_box x @ B" by metis
    have "worker_box x = worker_box (sy_workers S ! i)" "sv_sandbox w = sv_sandbox (sy_server S)"
      using m by (auto elim!: heartbeat_moveE dest: beat_sandbox)
    with move.IH T A B show ?thesis by simp
  next
    case (Restart s)
    have "boxes (map (\<lambda>_. At_Loop 0) (sy_workers S) :: 'b worker list) = []" by (simp add: boxes_def)
    with Restart move.hyps assms(2) show ?thesis by (auto simp: boxes_ok_def restarted_def new_server_def)
  qed (use move in \<open>auto simp: client_sandbox sweep_sandbox\<close>)
qed

end

section \<open>The isolate backend\<close>

lemma isolate_acquire_new:
  assumes "pool_inv cfg w" "isolate_acquire ho cfg w = Returns r w'"
  shows "holds_box c w \<Longrightarrow> holds_box c w'" and "r = Ok b \<Longrightarrow> \<not> holds_box b w"
proof -
  let ?b = "last (iw_free w)"
  let ?w1 = "w\<lparr>iw_permits := iw_permits w - 1, iw_free := butlast (iw_free w),
    iw_boxes := (?b, \<lparr>ib_box_dir = [], ib_executed = False\<rparr>) # iw_boxes w\<rparr>"
  obtain q w2 where i: "box_init ho cfg ?b ?w1 = (q, w2)" by fastforce
  have free: "iw_permits w \<noteq> 0" "iw_free w \<noteq> []"
    using assms(2) by (auto simp: isolate_acquire_def split: if_splits)
  then have b: "\<not> holds_box ?b w"
    using assms(1) last_in_set [of "iw_free w"] unfolding pool_inv_def holds_box_def distinct_append by blast
  have w: "r = (case q of Err e \<Rightarrow> Err e | Ok u \<Rightarrow> Ok ?b)" "w' = (case q of Err e \<Rightarrow> drop_box ?b w2 | Ok u \<Rightarrow> w2)"
    using assms(2) free i by (auto simp: isolate_acquire_def Let_def split: sum.splits)
  then show "r = Ok b \<Longrightarrow> \<not> holds_box b w" using b by (auto split: sum.splits)
  assume "holds_box c w"
  moreover from this b have "c \<noteq> ?b" by blast
  moreover have "map fst (iw_boxes w2) = ?b # map fst (iw_boxes w)"
    using keeps_pool_step [OF keeps_init i] by (simp add: same_pool_def)
  ultimately have "holds_box c w2" "c \<noteq> ?b" by (auto simp: holds_box_def)
  then show "holds_box c w'" using w(2) by (auto simp: holds_box_def drop_box_def split: sum.splits)
qed

lemma isolate_acquire_free:
  assumes "pool_inv cfg w" "live_boxes w < card (set (box_ids cfg))"
  shows "\<exists>r w'. isolate_acquire ho cfg w = Returns r w'"
proof -
  have d: "distinct (iw_free w @ map fst (iw_boxes w))" "set (iw_free w @ map fst (iw_boxes w)) = set (box_ids cfg)"
    "iw_permits w = length (iw_free w)"
    using assms(1) by (simp_all add: pool_inv_def)
  with distinct_card [OF d(1)] assms(2) have "iw_permits w \<noteq> 0" by (auto simp: live_boxes_def)
  with acquire_Waits [of ho cfg w] acquire_never_panics [OF assms(1), of ho] show ?thesis
    by (cases "isolate_acquire ho cfg w") auto
qed

interpretation isolate_shared: shared_sandbox "isolate_ops ho cfg" "pool_inv cfg" live_boxes holds_box "card (set (box_ids cfg))"
  for ho :: "'h host_ops" and cfg
proof
  fix s s' :: "'h iso_world" and b c :: u32 and name data spec input
  assume inv: "pool_inv cfg s"
  show "sb_acquire (isolate_ops ho cfg) s = Some (Ok b, s') \<Longrightarrow> \<not> holds_box b s"
    using isolate_acquire_new(2) [OF inv] by (auto simp: isolate_ops_def split: acquired.splits)
  show "sb_acquire (isolate_ops ho cfg) s = Some (r, s') \<Longrightarrow> holds_box c s \<Longrightarrow> holds_box c s'" for r
    using isolate_acquire_new(1) [OF inv] by (auto simp: isolate_ops_def split: acquired.splits)
  show "sb_write_file (isolate_ops ho cfg) b name data s = (q, s') \<Longrightarrow> holds_box c s \<Longrightarrow> holds_box c s'" for q
    using same_pool_inv(3) [OF keeps_pool_step [OF keeps_write, of ho b name data s]] by (simp add: isolate_ops_def)
  show "sb_exec (isolate_ops ho cfg) b spec input s = (q, s') \<Longrightarrow> holds_box c s \<Longrightarrow> holds_box c s'" for q
    using same_pool_inv(3) [OF keeps_pool_step [OF keeps_exec, of ho cfg b spec input s]] by (simp add: isolate_ops_def)
  show "sb_release (isolate_ops ho cfg) b s = (q, s') \<Longrightarrow> holds_box c s \<Longrightarrow> c \<noteq> b \<Longrightarrow> holds_box c s'" for q
  proof -
    assume rel: "sb_release (isolate_ops ho cfg) b s = (q, s')" and c: "holds_box c s" "c \<noteq> b"
    obtain u w where cl: "box_cleanup ho cfg b s = (u, w)" by fastforce
    with rel have "s' = drop_box b w" by (simp add: isolate_ops_def isolate_release_def)
    with c same_pool_inv(3) [OF keeps_pool_step [OF keeps_cleanup cl], of c] show "holds_box c s'"
      by (auto simp: drop_box_def holds_box_def)
  qed
  show "live_boxes s < card (set (box_ids cfg)) \<Longrightarrow> sb_acquire (isolate_ops ho cfg) s \<noteq> None"
    using isolate_acquire_free [OF inv, of ho] by (auto simp: isolate_ops_def)
qed

end
