(* ===== verification/Server_System_Turns.thy ===== *)
theory Server_System_Turns
  imports Server_System_Boxes
begin

text \<open>
  Turns of workers in the running server: a turn cannot go on forever whatever the others do, a
  worker whose backend has a box for everybody is never stuck, and the turn of
  \<open>Server_Worker\<close>, where nobody runs in between, is one of the histories.
\<close>

section \<open>Turns end\<close>

inductive script_next :: "'a script \<Rightarrow> 'a script \<Rightarrow> bool" where
  "script_next (k r) (Write_File n c k)"
| "script_next (k r) (Exec spec i k)"
| "script_next m (Report p m)"

inductive_simps script_next_simps [simp]:
  "script_next m (Return r)" "script_next m (Write_File n c k)" "script_next m (Exec spec i k)"
  "script_next m (Report p m')"

lemma wf_script: "wf {(m', m :: 'a script). script_next m' m}"
  unfolding wf_def
proof (intro allI impI)
  fix P :: "'a script \<Rightarrow> bool" and m
  assume step: "\<forall>m. (\<forall>m'. (m', m) \<in> {(m', m). script_next m' m} \<longrightarrow> P m') \<longrightarrow> P m"
  show "P m"
    by (induction m) (rule step [rule_format], auto)+
qed

fun phase :: "'b worker \<Rightarrow> nat" where
  "phase (At_Loop streak) = 0"
| "phase (Publishing job) = 1"
| "phase (Abandoning job) = 1"
| "phase (Has_Outcome t streak outcome events busy) = 2"
| "phase (In_Box t streak b m events busy) = 3"
| "phase (Wants_Box t streak) = 4"
| "phase (Claiming streak) = 5"

fun left_to_do :: "'b worker \<Rightarrow> judge_result judging_script" where
  "left_to_do (In_Box t streak b m events busy) = m"
| "left_to_do _ = Return (Err (UnknownLanguage []))"

fun beats_left :: "'b worker \<Rightarrow> nat" where
  "beats_left (In_Box t streak b m events busy) = 2 * length events + (if busy then 1 else 0)"
| "beats_left (Has_Outcome t streak outcome events busy) = 2 * length events + (if busy then 1 else 0)"
| "beats_left _ = 0"

definition turn_order :: "('b worker \<times> 'b worker) set" where
  "turn_order = inv_image (less_than <*lex*> {(m', m). script_next m' m} <*lex*> less_than)
     (\<lambda>x. (phase x, left_to_do x, beats_left x))"

lemma wf_turn_order: "wf turn_order"
  by (auto simp: turn_order_def intro: wf_script)

text \<open>A move within a turn, of the worker or of its heartbeat task, in any state of the server.\<close>

definition turn_step :: "('s, 'b, 'c, 'r) server_env \<Rightarrow> 'b worker \<Rightarrow> 'b worker \<Rightarrow> bool" where
  "turn_step env x y \<longleftrightarrow> (\<forall>streak. x \<noteq> At_Loop streak) \<and>
     (\<exists>w w'. worker_move env x w = Some (y, w') \<or> heartbeat_move env x w = Some (y, w'))"

lemma script_move_next: "script_move sb b m s = (Inr m', ps, s') \<Longrightarrow> script_next m' m"
  by (cases m) (auto simp: Let_def split: prod.splits)

lemma worker_move_ordered:
  assumes "worker_move env x w = Some (y, w')" "\<forall>streak. x \<noteq> At_Loop streak"
  shows "(y, x) \<in> turn_order"
proof (cases x)
  case (Wants_Box t streak)
  with assms(1) have "enter_box env t streak w = Some (y, w')" by simp
  then show ?thesis by (auto simp: Wants_Box turn_order_def elim!: enter_boxE)
qed (use assms in \<open>auto simp: turn_order_def deliver_def dest: script_move_next
    split: if_splits option.splits prod.splits sum.splits task.splits\<close>)

lemma beat_ordered:
  "beat env job events busy w = Some (events', busy', w') \<Longrightarrow>
     2 * length events' + (if busy' then 1 else 0) < 2 * length events + (if busy then 1 else (0::nat))"
  by (cases "(env, job, events, busy, w)" rule: beat.cases) (auto split: prod.splits)

lemma heartbeat_move_ordered: "heartbeat_move env x w = Some (y, w') \<Longrightarrow> (y, x) \<in> turn_order"
  by (erule heartbeat_moveE; drule beat_ordered) (simp_all add: turn_order_def)

lemma turn_step_ordered: "turn_step env x y \<Longrightarrow> (y, x) \<in> turn_order"
  using worker_move_ordered heartbeat_move_ordered unfolding turn_step_def by blast

lemma wf_turns: "wf {(y, x). turn_step env x y}"
  by (rule wf_subset [OF wf_turn_order]) (auto dest: turn_step_ordered)

section \<open>Nobody is stuck\<close>

text \<open>A run has no heartbeat task.\<close>

fun runs_quiet :: "'b worker \<Rightarrow> bool" where
  "runs_quiet (In_Box (Run_Task job) streak b m events busy) \<longleftrightarrow> events = [] \<and> \<not> busy"
| "runs_quiet (Has_Outcome (Run_Task job) streak outcome events busy) \<longleftrightarrow> events = [] \<and> \<not> busy"
| "runs_quiet _ \<longleftrightarrow> True"

lemma runs_quiet_task:
  "runs_quiet (In_Box t streak b m events busy) \<longleftrightarrow> task_listens t \<or> (events = [] \<and> \<not> busy)"
  "runs_quiet (Has_Outcome t streak outcome events busy) \<longleftrightarrow> task_listens t \<or> (events = [] \<and> \<not> busy)"
  by (cases t; simp)+

lemma worker_move_quiet:
  assumes "worker_move env x w = Some (y, w')" "runs_quiet x"
  shows "runs_quiet y"
proof (cases x)
  case (Wants_Box t streak)
  with assms(1) have "enter_box env t streak w = Some (y, w')" by simp
  then show ?thesis by (auto simp: runs_quiet_task elim!: enter_boxE)
qed (use assms in \<open>auto simp: runs_quiet_task deliver_def
    split: if_splits option.splits prod.splits sum.splits task.splits\<close>)

lemma reachable_quiet: "reachable env fresh n S \<Longrightarrow> list_all runs_quiet (sy_workers S)"
proof (induction rule: reachable.induct)
  case (move S a T)
  show ?case
  proof (cases a)
    case (Worker_Moves i)
    with move.hyps obtain x w where i: "i < length (sy_workers S)"
      and m: "worker_move env (sy_workers S ! i) (sy_server S) = Some (x, w)"
      and T: "sy_workers T = (sy_workers S)[i := x]" by (auto elim!: with_workerE)
    from move.IH i have "runs_quiet (sy_workers S ! i)" by (simp add: list_all_length)
    from workers_after [OF i move.IH worker_move_quiet [OF m this]] T show ?thesis by simp
  next
    case (Heartbeat_Moves i)
    have "runs_quiet y" if "heartbeat_move env x w = Some (y, w')" for x y w w'
      using that by (auto elim!: heartbeat_moveE)
    with Heartbeat_Moves move show ?thesis by (auto elim!: with_workerE intro!: workers_after)
  qed (use move in \<open>auto simp: list_all_iff\<close>)
qed (simp add: started_def list_all_iff)

lemma worker_waits:
  assumes "worker_move env x w = None" "runs_quiet x"
  shows "heartbeat_move env x w \<noteq> None \<or>
    (\<exists>t streak. x = Wants_Box t streak \<and> sb_acquire (en_sandbox env) (sv_sandbox w) = None)"
proof (cases x)
  case (Has_Outcome t streak outcome events busy)
  with assms obtain job p where t: "t = Submission_Task job p" "events \<noteq> [] \<or> busy"
    by (cases t) (auto split: if_splits)
  then show ?thesis
    by (cases "(env, job, events, busy, w)" rule: beat.cases) (auto simp: Has_Outcome split: prod.splits)
qed (use assms in \<open>auto simp: enter_box_def split: if_splits option.splits prod.splits sum.splits\<close>)

lemma boxes_le: "length (boxes xs) \<le> length xs"
proof (induction xs)
  case (Cons x xs)
  have "length (worker_box x) \<le> 1" by (cases x) auto
  with Cons show ?case by (simp add: boxes_def)
qed (simp add: boxes_def)

lemma boxes_less:
  assumes "i < length xs" "worker_box (xs ! i) = []"
  shows "length (boxes xs) < length xs"
  using boxes_split [OF assms(1)] assms boxes_le [of "take i xs"] boxes_le [of "drop (Suc i) xs"] by simp

context shared_sandbox
begin

lemma never_stuck:
  assumes "sb = en_sandbox env" "\<And>s. fresh s \<Longrightarrow> inv s \<and> live s = 0" "reachable env fresh n S" "n \<le> slots" "i < n"
  shows "worker_move env (sy_workers S ! i) (sy_server S) \<noteq> None \<or>
    heartbeat_move env (sy_workers S ! i) (sy_server S) \<noteq> None"
proof -
  let ?x = "sy_workers S ! i"
  have len: "length (sy_workers S) = n" using workers_count [OF assms(3)] .
  have quiet: "runs_quiet ?x" using reachable_quiet [OF assms(3)] assms(5) len by (simp add: list_all_length)
  have "sb_acquire sb (sv_sandbox (sy_server S)) \<noteq> None" if "?x = Wants_Box t streak" for t streak
  proof -
    have "length (boxes (sy_workers S)) < n" using boxes_less [of i "sy_workers S"] that assms(5) len by simp
    with reachable_boxes [OF assms(1-3)] acquire_free [of "sv_sandbox (sy_server S)"] assms(4) show ?thesis
      by (simp add: boxes_ok_def)
  qed
  with worker_waits [of env ?x "sy_server S"] quiet assms(1) show ?thesis by blast
qed

end

section \<open>A worker and its heartbeat task on their own\<close>

definition own_moves :: "nat \<Rightarrow> 's move list \<Rightarrow> bool" where
  "own_moves i as \<longleftrightarrow> list_all (\<lambda>a. a = Worker_Moves i \<or> a = Heartbeat_Moves i) as"

definition by_worker ::
  "('s, 'b, 'c, 'r) server_env \<Rightarrow> nat \<Rightarrow> ('s, 'b, 'c) system \<Rightarrow> ('s, 'b, 'c) system \<Rightarrow> bool" where
  "by_worker env i S T \<longleftrightarrow> (\<exists>as. own_moves i as \<and> sys_run env as S = Some T)"

lemma sys_run_append: "sys_run env (as @ bs) S = Option.bind (sys_run env as S) (sys_run env bs)"
proof (induction as arbitrary: S)
  case (Cons a as)
  then show ?case by (cases "sys_move env a S") auto
qed simp

lemma by_worker_refl: "by_worker env i S S"
  unfolding by_worker_def by (intro exI [of _ "[]"]) (simp add: own_moves_def)

lemma by_worker_trans [trans]:
  assumes "by_worker env i S T" "by_worker env i T U"
  shows "by_worker env i S U"
proof -
  obtain as bs where "own_moves i as" "sys_run env as S = Some T" "own_moves i bs" "sys_run env bs T = Some U"
    using assms by (auto simp: by_worker_def)
  then show ?thesis unfolding by_worker_def by (intro exI [of _ "as @ bs"]) (simp add: own_moves_def sys_run_append)
qed

text \<open>The system with worker \<open>i\<close> at \<open>x\<close>.\<close>

definition sys_at :: "nat \<Rightarrow> 'b worker list \<Rightarrow> 'b worker \<Rightarrow> ('s, 'c) server \<Rightarrow> ('s, 'b, 'c) system" where
  "sys_at i xs x w = \<lparr>sy_server = w, sy_workers = xs[i := x]\<rparr>"

lemma by_worker_move:
  assumes "i < length xs" "worker_move env x w = Some (y, w') \<or> heartbeat_move env x w = Some (y, w')"
  shows "by_worker env i (sys_at i xs x w) (sys_at i xs y w')"
  using assms(2)
proof
  assume "worker_move env x w = Some (y, w')"
  with assms(1) show ?thesis
    unfolding by_worker_def by (intro exI [of _ "[Worker_Moves i]"]) (simp add: own_moves_def sys_at_def with_worker_def)
next
  assume "heartbeat_move env x w = Some (y, w')"
  with assms(1) show ?thesis
    unfolding by_worker_def by (intro exI [of _ "[Heartbeat_Moves i]"]) (simp add: own_moves_def sys_at_def with_worker_def)
qed

lemma by_worker_reachable: "reachable env fresh n S \<Longrightarrow> by_worker env i S T \<Longrightarrow> reachable env fresh n T"
proof -
  have "list_all (move_ok fresh) as" if "own_moves i as" for as
    using that by (auto simp: own_moves_def list_all_iff)
  then show "reachable env fresh n S \<Longrightarrow> by_worker env i S T \<Longrightarrow> reachable env fresh n T"
    by (auto simp: by_worker_def intro: reachable_run)
qed

context shared_sandbox
begin

lemma turn_completes:
  assumes "sb = en_sandbox env" "\<And>s. fresh s \<Longrightarrow> inv s \<and> live s = 0" "n \<le> slots" "i < n" "reachable env fresh n S"
  shows "\<exists>T streak. by_worker env i S T \<and> sy_workers T ! i = At_Loop streak"
  using assms(5)
proof (induction "sy_workers S ! i" arbitrary: S rule: wf_induct_rule [OF wf_turn_order])
  case (1 S)
  let ?x = "sy_workers S ! i"
  show ?case
  proof (cases "\<exists>streak. ?x = At_Loop streak")
    case False
    have i: "i < length (sy_workers S)" using workers_count [OF 1(2)] assms(4) by simp
    have S: "S = sys_at i (sy_workers S) ?x (sy_server S)" by (simp add: sys_at_def)
    from never_stuck [OF assms(1,2) 1(2) assms(3,4)] obtain y w where
      m: "worker_move env ?x (sy_server S) = Some (y, w) \<or> heartbeat_move env ?x (sy_server S) = Some (y, w)" by fastforce
    let ?T = "sys_at i (sy_workers S) y w"
    have T: "by_worker env i S ?T" using by_worker_move [OF i m] S by simp
    have y: "sy_workers ?T ! i = y" using i by (simp add: sys_at_def)
    have "(y, ?x) \<in> turn_order"
      using m False worker_move_ordered heartbeat_move_ordered by blast
    with 1(1) [of ?T] y by_worker_reachable [OF 1(2) T] obtain U streak
      where "by_worker env i ?T U" "sy_workers U ! i = At_Loop streak" by auto
    with T show ?thesis by (blast intro: by_worker_trans)
  qed (use by_worker_refl in blast)
qed

end

section \<open>A turn without interference\<close>

lemma script_by_worker:
  assumes "i < length xs" and "run_script (en_sandbox env) b (task_listens t) m (sv_sandbox w, ps) = (r, s', ps')"
  shows "by_worker env i (sys_at i xs (In_Box t streak b m ps False) w)
    (sys_at i xs (Has_Outcome t streak r ps' False) (w\<lparr>sv_sandbox := snd (sb_release (en_sandbox env) b s')\<rparr>))"
  using assms(2)
proof (induction m arbitrary: w ps)
  case (Return q)
  then show ?case by (intro by_worker_move [OF assms(1)]) auto
next
  case (Write_File n c k)
  obtain q s where q: "sb_write_file (en_sandbox env) b n c (sv_sandbox w) = (q, s)" by fastforce
  have "by_worker env i (sys_at i xs (In_Box t streak b (Write_File n c k) ps False) w)
      (sys_at i xs (In_Box t streak b (k q) ps False) (w\<lparr>sv_sandbox := s\<rparr>))"
    using q by (intro by_worker_move [OF assms(1)]) simp
  also have "by_worker env i \<dots> (sys_at i xs (Has_Outcome t streak r ps' False)
      (w\<lparr>sv_sandbox := snd (sb_release (en_sandbox env) b s')\<rparr>))"
    using Write_File.IH [OF rangeI, of q "w\<lparr>sv_sandbox := s\<rparr>" ps] Write_File.prems q by simp
  finally show ?case .
next
  case (Exec spec inp k)
  obtain q s where q: "sb_exec (en_sandbox env) b spec inp (sv_sandbox w) = (q, s)" by fastforce
  have "by_worker env i (sys_at i xs (In_Box t streak b (Exec spec inp k) ps False) w)
      (sys_at i xs (In_Box t streak b (k q) ps False) (w\<lparr>sv_sandbox := s\<rparr>))"
    using q by (intro by_worker_move [OF assms(1)]) simp
  also have "by_worker env i \<dots> (sys_at i xs (Has_Outcome t streak r ps' False)
      (w\<lparr>sv_sandbox := snd (sb_release (en_sandbox env) b s')\<rparr>))"
    using Exec.IH [OF rangeI, of q "w\<lparr>sv_sandbox := s\<rparr>" ps] Exec.prems q by simp
  finally show ?case .
next
  case (Report p m)
  have "by_worker env i (sys_at i xs (In_Box t streak b (Report p m) ps False) w)
      (sys_at i xs (In_Box t streak b m (if task_listens t then ps @ [p] else ps) False) w)"
    by (intro by_worker_move [OF assms(1)]) simp
  also have "by_worker env i \<dots> (sys_at i xs (Has_Outcome t streak r ps' False)
      (w\<lparr>sv_sandbox := snd (sb_release (en_sandbox env) b s')\<rparr>))"
    using Report.IH [of w "if task_listens t then ps @ [p] else ps"] Report.prems by (cases "task_listens t") simp_all
  finally show ?case .
qed

lemma judge_by_worker:
  assumes "i < length xs" "judge_with env (task_request t) (task_listens t) w = Some (r, ps, w')"
  shows "by_worker env i (sys_at i xs (Wants_Box t streak) w) (sys_at i xs (Has_Outcome t streak r ps False) w')"
proof -
  obtain s where j: "judge (en_sandbox env) (en_languages env) (en_judge_config env) (task_request t)
      (task_listens t) (sv_sandbox w) = Some (r, s, ps)" and w': "w' = w\<lparr>sv_sandbox := s\<rparr>"
    using assms(2) by (auto simp: judge_with_def)
  show ?thesis
  proof (cases "get_language (en_languages env) (rq_language (task_request t))")
    case None
    with j w' show ?thesis by (intro by_worker_move [OF assms(1)]) (auto simp: judge_as_script enter_box_def)
  next
    case (Some lang)
    note lang = Some
    obtain a s1 where acq: "sb_acquire (en_sandbox env) (sv_sandbox w) = Some (a, s1)"
      using j by (auto simp: judge_as_script lang split: option.splits)
    show ?thesis
    proof (cases a)
      case (Inl e)
      with j w' lang acq show ?thesis
        by (intro by_worker_move [OF assms(1)]) (auto simp: judge_as_script enter_box_def)
    next
      case (Inr b)
      let ?m = "judge_script (en_judge_config env) lang (task_request t)"
      obtain s2 where run: "run_script (en_sandbox env) b (task_listens t) ?m (s1, []) = (r, s2, ps)"
        and s: "s = snd (sb_release (en_sandbox env) b s2)"
        using j acq Inr by (auto simp: judge_as_script lang split: prod.splits)
      have "by_worker env i (sys_at i xs (Wants_Box t streak) w)
          (sys_at i xs (In_Box t streak b ?m [] False) (w\<lparr>sv_sandbox := s1\<rparr>))"
        using acq Inr lang by (intro by_worker_move [OF assms(1)]) (simp add: enter_box_def)
      also have "by_worker env i \<dots> (sys_at i xs (Has_Outcome t streak r ps False) w')"
        using script_by_worker [OF assms(1), of env b t ?m "w\<lparr>sv_sandbox := s1\<rparr>"] run s w' by simp
      finally show ?thesis .
    qed
  qed
qed

lemma heartbeat_by_worker:
  assumes "i < length xs"
  shows "by_worker env i (sys_at i xs (Has_Outcome (Submission_Task job p) streak r (e # ps) False) w)
    (sys_at i xs (Has_Outcome (Submission_Task job p) streak r ps False) (heartbeat env job e w))"
proof -
  obtain st k n where e: "progress_of e = (st, k, n)" by (cases "progress_of e")
  obtain renewed w1 where p: "with_store env (\<lambda>now. store_progress now (jb_id job) (jb_attempt job) st k n
      (lease_ms (en_config env))) w = (renewed, w1)" by fastforce
  have beat: "by_worker env i (sys_at i xs (Has_Outcome (Submission_Task job p) streak r (e # ps) False) w)
      (sys_at i xs (Has_Outcome (Submission_Task job p) streak r ps renewed) w1)"
    using e p by (intro by_worker_move [OF assms]) simp
  show ?thesis
  proof (cases renewed)
    case True
    note beat
    also have "by_worker env i (sys_at i xs (Has_Outcome (Submission_Task job p) streak r ps renewed) w1)
        (sys_at i xs (Has_Outcome (Submission_Task job p) streak r ps False) (publish_current env (jb_id job) w1))"
      using True by (intro by_worker_move [OF assms]) simp
    finally show ?thesis using e p True by (simp add: heartbeat_def)
  qed (use beat e p in \<open>simp add: heartbeat_def\<close>)
qed

lemma heartbeats_by_worker:
  assumes "i < length xs"
  shows "by_worker env i (sys_at i xs (Has_Outcome (Submission_Task job p) streak r ps False) w)
    (sys_at i xs (Has_Outcome (Submission_Task job p) streak r [] False) (fold (heartbeat env job) ps w))"
proof (induction ps arbitrary: w)
  case (Cons e ps)
  note heartbeat_by_worker [OF assms, of env job p streak r e ps w]
  also note Cons.IH
  finally show ?case by simp
qed (simp add: by_worker_refl)

lemma submission_by_worker:
  assumes "i < length xs" "handle_submission env job w = Some w'"
  shows "by_worker env i (sys_at i xs (case get_problem (en_problems env) (jb_problem job) of
      None \<Rightarrow> Abandoning job | Some p \<Rightarrow> Wants_Box (Submission_Task job p) 0) w) (sys_at i xs (At_Loop 0) w')"
proof (cases "get_problem (en_problems env) (jb_problem job)")
  case None
  with assms(2) show ?thesis by (intro by_worker_move [OF assms(1)]) (auto simp: handle_submission_def)
next
  case (Some p)
  with assms(2) obtain r ps w1 where j: "judge_with env (submission_request job p) True w = Some (r, ps, w1)"
    and w': "w' = publish_current env (jb_id job) (write_outcome env job p r (fold (heartbeat env job) ps w1))"
    by (auto simp: handle_submission_def)
  let ?t = "Submission_Task job p" and ?w = "fold (heartbeat env job) ps w1"
  have "by_worker env i (sys_at i xs (Wants_Box ?t 0) w) (sys_at i xs (Has_Outcome ?t 0 r ps False) w1)"
    using j by (intro judge_by_worker [OF assms(1)]) simp
  also note heartbeats_by_worker [OF assms(1)]
  also have "by_worker env i (sys_at i xs (Has_Outcome ?t 0 r [] False) ?w)
      (sys_at i xs (Publishing job) (write_outcome env job p r ?w))"
    by (intro by_worker_move [OF assms(1)]) (simp add: deliver_def)
  also have "by_worker env i \<dots> (sys_at i xs (At_Loop 0) w')"
    by (intro by_worker_move [OF assms(1)]) (simp add: w')
  finally show ?thesis using Some by simp
qed

lemma run_script_silent: "run_script sb b False m w = (r, s, ps) \<Longrightarrow> ps = snd w"
proof (induction m arbitrary: w)
  case (Write_File n c k)
  from Write_File.IH [OF rangeI] Write_File.prems show ?case by (fastforce split: prod.splits)
next
  case (Exec spec i k)
  from Exec.IH [OF rangeI] Exec.prems show ?case by (fastforce split: prod.splits)
qed auto

lemma judge_silent: "judge sb langs cfg req False s = Some (r, s', ps) \<Longrightarrow> ps = []"
  by (auto simp: judge_as_script Let_def split: option.splits sum.splits prod.splits dest: run_script_silent)

lemma run_by_worker:
  assumes "i < length xs" "handle_run env job w = Some w'"
  shows "by_worker env i (sys_at i xs (Wants_Box (Run_Task job) streak) w) (sys_at i xs (At_Loop streak) w')"
proof -
  obtain r ps w1 where j: "judge_with env (run_request job) False w = Some (r, ps, w1)"
    and w': "w' = w1\<lparr>sv_runs := run_complete (rj_id job) (map_err (judge_error_text (en_debug_str env)) r) (sv_runs w1)\<rparr>"
    using assms(2) by (auto simp: handle_run_def)
  have ps: "ps = []" using j judge_silent by (fastforce simp: judge_with_def)
  have "by_worker env i (sys_at i xs (Wants_Box (Run_Task job) streak) w)
      (sys_at i xs (Has_Outcome (Run_Task job) streak r ps False) w1)"
    using j by (intro judge_by_worker [OF assms(1)]) simp
  also have "by_worker env i \<dots> (sys_at i xs (At_Loop streak) w')"
    using ps by (intro by_worker_move [OF assms(1)]) (simp add: deliver_def w')
  finally show ?thesis .
qed

lemma turn_by_worker:
  assumes "i < length xs" "worker_turn env streak w = Some (t, streak', w')"
  shows "by_worker env i (sys_at i xs (At_Loop streak) w) (sys_at i xs (At_Loop streak') w')"
  using assms(2)
proof (cases rule: worker_turn_cases)
  case (run job rest)
  let ?w = "w\<lparr>sv_runs := snd (run_pop (sv_runs w))\<rparr>"
  have "run_pop (sv_runs w) = (Some job, snd (run_pop (sv_runs w)))" using run(4) by (simp add: run_pop_def)
  then have "by_worker env i (sys_at i xs (At_Loop streak) w) (sys_at i xs (Wants_Box (Run_Task job) streak') ?w)"
    using run(2,3) by (intro by_worker_move [OF assms(1)]) (auto simp: not_le [symmetric] split: prod.split)
  also note run_by_worker [OF assms(1) run(5)]
  finally show ?thesis .
next
  case (submission job w1)
  have "by_worker env i (sys_at i xs (At_Loop streak) w) (sys_at i xs (Claiming streak) w)"
    using submission(3) by (intro by_worker_move [OF assms(1)]) (auto simp: run_pop_def)
  also have "by_worker env i \<dots> (sys_at i xs (case get_problem (en_problems env) (jb_problem job) of
      None \<Rightarrow> Abandoning job | Some p \<Rightarrow> Wants_Box (Submission_Task job p) 0) w1)"
    using submission(4) by (intro by_worker_move [OF assms(1)]) simp
  also note submission_by_worker [OF assms(1) submission(5)]
  finally show ?thesis using submission(2) by simp
next
  case nothing
  note none = this
  have "by_worker env i (sys_at i xs (At_Loop streak) w) (sys_at i xs (Claiming streak) w)"
    using none(3) by (intro by_worker_move [OF assms(1)]) (auto simp: run_pop_def)
  also have "by_worker env i \<dots> (sys_at i xs (At_Loop streak') w')"
    using none by (intro by_worker_move [OF assms(1)]) simp
  finally show ?thesis .
next
  case (failed e)
  have "by_worker env i (sys_at i xs (At_Loop streak) w) (sys_at i xs (Claiming streak) w)"
    using failed(3) by (intro by_worker_move [OF assms(1)]) (auto simp: run_pop_def)
  also have "by_worker env i \<dots> (sys_at i xs (At_Loop streak') w')"
    using failed by (intro by_worker_move [OF assms(1)]) simp
  finally show ?thesis .
qed

end
