(* ===== verification/Server_System_Log.thy ===== *)
theory Server_System_Log
  imports Server_System_Boxes
begin

text \<open>
  What was done in the boxes of the sandbox while the running server moved: the log of a run. An
  entry is made when, and only when, the state of the backend changed the way the operation of
  that entry changes it, with the reply that the backend gave. Nothing is assumed of the programs
  in the boxes. The lemmas show that every result a worker gets was computed from a session: what
  was done in one box between its being handed out for that worker's task and the result.
\<close>

section \<open>The log of a run\<close>

text \<open>\<open>Set_Up\<close> is a new sandbox after a crash; a box is handed out for a task of a worker.\<close>

datatype 'b sandbox_event =
    Set_Up
  | Handed_Out 'b task
  | Used 'b box_event
  | Given_Back 'b

fun script_events ::
  "('s, 'b) sandbox \<Rightarrow> 'b \<Rightarrow> 'a script \<Rightarrow> 's \<Rightarrow> 's \<Rightarrow> 'b sandbox_event list" where
  "script_events sb b (Return r) s s' = (if snd (sb_release sb b s) = s' then [Given_Back b] else [])"
| "script_events sb b (Write_File n c k) s s' =
     (let (q, t) = sb_write_file sb b n c s in if t = s' then [Used b (Wrote n c q)] else [])"
| "script_events sb b (Exec spec i k) s s' =
     (let (q, t) = sb_exec sb b spec i s in if t = s' then [Used b (Ran spec i q)] else [])"
| "script_events sb b (Report p m) s s' = []"

definition entry_events ::
  "('s, 'b) sandbox \<Rightarrow> task \<Rightarrow> 'b worker \<Rightarrow> 's \<Rightarrow> 's \<Rightarrow> 'b sandbox_event list" where
  "entry_events sb t x' s s' =
     (case x' of
        In_Box t' streak b m events busy \<Rightarrow> if sb_acquire sb s = Some (Ok b, s') then [Handed_Out b t] else []
      | _ \<Rightarrow> [])"

fun worker_events :: "('s, 'b) sandbox \<Rightarrow> 'b worker \<Rightarrow> 'b worker \<Rightarrow> 's \<Rightarrow> 's \<Rightarrow> 'b sandbox_event list" where
  "worker_events sb (Wants_Box t streak) x' s s' = entry_events sb t x' s s'"
| "worker_events sb (In_Box t streak b m events busy) x' s s' = script_events sb b m s s'"
| "worker_events sb _ x' s s' = []"

definition move_log ::
  "('s, 'b, 'c, 'r) server_env \<Rightarrow> 's move \<Rightarrow> ('s, 'b, 'c) system \<Rightarrow> ('s, 'b, 'c) system \<Rightarrow> 'b sandbox_event list" where
  "move_log env a S T =
     (case a of
        Worker_Moves i \<Rightarrow> worker_events (en_sandbox env) (sy_workers S ! i) (sy_workers T ! i)
          (sv_sandbox (sy_server S)) (sv_sandbox (sy_server T))
      | Restart s \<Rightarrow> [Set_Up]
      | _ \<Rightarrow> [])"

fun sys_log ::
  "('s, 'b, 'c, 'r) server_env \<Rightarrow> 's move list \<Rightarrow> ('s, 'b, 'c) system \<Rightarrow> 'b sandbox_event list" where
  "sys_log env [] S = []"
| "sys_log env (a # as) S =
     (case sys_move env a S of None \<Rightarrow> [] | Some T \<Rightarrow> move_log env a S T @ sys_log env as T)"

section \<open>Sessions\<close>

text \<open>
  A session in the log: a box was handed out for a task, and from then on the entries that concern
  this box are the given operations, in this order and with these replies, and no others. In
  between others may use other boxes.
\<close>

fun concerns :: "'b \<Rightarrow> 'b sandbox_event \<Rightarrow> bool" where
  "concerns b Set_Up \<longleftrightarrow> True"
| "concerns b (Handed_Out c t) \<longleftrightarrow> c = b"
| "concerns b (Used c e) \<longleftrightarrow> c = b"
| "concerns b (Given_Back c) \<longleftrightarrow> c = b"

definition occupied :: "'b sandbox_event list \<Rightarrow> 'b \<Rightarrow> task \<Rightarrow> box_event list \<Rightarrow> bool" where
  "occupied L b t es \<longleftrightarrow> (\<exists>before during. L = before @ Handed_Out b t # during \<and>
     filter (concerns b) during = map (Used b) es)"

definition session_in :: "'b sandbox_event list \<Rightarrow> task \<Rightarrow> box_event list \<Rightarrow> bool" where
  "session_in L t es \<longleftrightarrow> (\<exists>b during after. L = during @ after \<and> occupied during b t es)"

lemma occupied_other: "occupied L b t es \<Longrightarrow> \<forall>e \<in> set L'. \<not> concerns b e \<Longrightarrow> occupied (L @ L') b t es"
  unfolding occupied_def by (metis append_Cons append_Nil2 append_assoc filter_False filter_append)

lemma occupied_used:
  assumes "occupied L b t es"
  shows "occupied (L @ [Used b e]) b t (es @ [e])"
proof -
  obtain before during where L: "L = before @ Handed_Out b t # during" "filter (concerns b) during = map (Used b) es"
    using assms by (auto simp: occupied_def)
  then show ?thesis
    unfolding occupied_def by (intro exI [of _ before] exI [of _ "during @ [Used b e]"]) simp
qed

lemma occupied_new: "occupied (L @ [Handed_Out b t]) b t []"
  by (auto simp: occupied_def intro!: exI)

lemma session_occupied: "occupied L b t es \<Longrightarrow> session_in L t es"
  unfolding session_in_def by (metis append_Nil2)

lemma session_later: "session_in L t es \<Longrightarrow> session_in (L @ L') t es"
  unfolding session_in_def by (metis append.assoc)

text \<open>The outcomes of a task that the log can account for.\<close>

definition logged_outcomes ::
  "('s, 'b, 'c, 'r) server_env \<Rightarrow> 'b sandbox_event list \<Rightarrow> outcomes" where
  "logged_outcomes env L t = {r. \<exists>lang es. get_language (en_languages env) (rq_language (task_request t)) = Some lang \<and>
     session_in L t es \<and> yields (judge_script (en_judge_config env) lang (task_request t)) es r}"

lemma logged_later: "logged_outcomes env L t \<subseteq> logged_outcomes env (L @ L') t"
  by (auto simp: logged_outcomes_def intro: session_later)

section \<open>Where the scripts are\<close>

text \<open>What is left of a worker's script continues the session in its box.\<close>

definition script_at ::
  "('s, 'b, 'c, 'r) server_env \<Rightarrow> 'b sandbox_event list \<Rightarrow> 'b worker \<Rightarrow> bool" where
  "script_at env L x \<longleftrightarrow> (case x of
     In_Box t streak b m events busy \<Rightarrow>
       (\<exists>lang es. get_language (en_languages env) (rq_language (task_request t)) = Some lang \<and> occupied L b t es \<and>
          (\<forall>es' r. yields m es' r \<longrightarrow> yields (judge_script (en_judge_config env) lang (task_request t)) (es @ es') r))
   | _ \<Rightarrow> True)"

lemma script_at_returns: "script_at env L x \<Longrightarrow> returns_ok (logged_outcomes env L) x"
proof (cases "(logged_outcomes env L, x)" rule: returns_ok.cases)
  case (1 P t streak b r events busy)
  assume "script_at env L x"
  with 1 obtain lang es where "get_language (en_languages env) (rq_language (task_request t)) = Some lang" "occupied L b t es"
    "yields (judge_script (en_judge_config env) lang (task_request t)) es r"
    by (force simp: script_at_def)
  moreover from session_occupied [OF this(2)] have "session_in L t es" .
  ultimately show ?thesis using 1 by (auto simp: logged_outcomes_def)
qed simp_all

lemma script_at_other:
  assumes "script_at env L x" "\<And>b. b \<in> set (worker_box x) \<Longrightarrow> \<forall>e \<in> set L'. \<not> concerns b e"
  shows "script_at env (L @ L') x"
  using assms by (cases x) (fastforce simp: script_at_def intro: occupied_other)+

lemma script_at_continues:
  assumes "script_at env L (In_Box t streak b m events busy)"
    and "\<And>es' r. yields m' es' r \<Longrightarrow> yields m (es1 @ es') r" and "L' = map (Used b) es1" and "length es1 \<le> 1"
  shows "script_at env (L @ L') (In_Box t streak b m' events' busy')"
proof -
  obtain lang es where l: "get_language (en_languages env) (rq_language (task_request t)) = Some lang" "occupied L b t es"
    "\<And>es' r. yields m es' r \<Longrightarrow> yields (judge_script (en_judge_config env) lang (task_request t)) (es @ es') r"
    using assms(1) by (auto simp: script_at_def)
  have "occupied (L @ L') b t (es @ es1)"
    using assms(3,4) l(2) by (cases es1) (auto intro: occupied_used)
  with l(1) l(3) [OF assms(2)] show ?thesis by (fastforce simp: script_at_def)
qed

lemma worker_move_script:
  assumes "worker_move env x w = Some (x', w')" "script_at env L x"
  shows "script_at env (L @ worker_events (en_sandbox env) x x' (sv_sandbox w) (sv_sandbox w')) x'"
proof (cases x)
  case (Wants_Box t streak)
  with assms(1) have "enter_box env t streak w = Some (x', w')" by simp
  then show ?thesis
  proof (cases rule: enter_boxE)
    case (3 lang b s)
    with Wants_Box have "worker_events (en_sandbox env) x x' (sv_sandbox w) (sv_sandbox w') = [Handed_Out b t]"
      by (simp add: entry_events_def)
    with 3 occupied_new show ?thesis by (fastforce simp: script_at_def)
  qed (simp_all add: script_at_def)
next
  case (In_Box t streak b m events busy)
  show ?thesis
  proof (cases m)
    case (Return r)
    with In_Box assms(1) show ?thesis by (auto simp: script_at_def)
  next
    case (Write_File n c k)
    obtain q s where "sb_write_file (en_sandbox env) b n c (sv_sandbox w) = (q, s)" by fastforce
    with In_Box Write_File assms show ?thesis
      by (auto intro!: script_at_continues [of env L t streak b m events busy _ "[Wrote n c q]"])
  next
    case (Exec spec i k)
    obtain q s where "sb_exec (en_sandbox env) b spec i (sv_sandbox w) = (q, s)" by fastforce
    with In_Box Exec assms show ?thesis
      by (auto intro!: script_at_continues [of env L t streak b m events busy _ "[Ran spec i q]"])
  next
    case (Report p m')
    with In_Box assms show ?thesis
      by (auto intro!: script_at_continues [of env L t streak b m events busy _ "[]"] simp flip: append_Nil2)
  qed
next
  case (Has_Outcome t streak outcome events busy)
  with assms(1) show ?thesis by (auto simp: script_at_def deliver_def split: if_splits task.splits)
qed (use assms in \<open>auto simp: script_at_def split: if_splits option.splits prod.splits sum.splits\<close>)

lemma worker_events_own:
  assumes "worker_move env x w = Some (x', w')" "e \<in> set (worker_events (en_sandbox env) x x' (sv_sandbox w) (sv_sandbox w'))"
    and "concerns c e"
  shows "c \<in> set (worker_box x) \<union> set (worker_box x')"
proof (cases x)
  case (Wants_Box t streak)
  with assms(1) have "enter_box env t streak w = Some (x', w')" by simp
  with assms(2,3) Wants_Box show ?thesis by (auto simp: entry_events_def elim!: enter_boxE split: if_splits)
next
  case (In_Box t streak b m events busy)
  with assms(2,3) show ?thesis by (cases m) (auto split: if_splits prod.splits)
qed (use assms(2) in auto)

lemma scripts_move:
  assumes "distinct (boxes (sy_workers S))" "distinct (boxes (sy_workers T))"
    and "sys_move env a S = Some T" "list_all (script_at env L) (sy_workers S)"
  shows "list_all (script_at env (L @ move_log env a S T)) (sy_workers T)"
proof (cases a)
  case (Worker_Moves i)
  with assms(3) obtain x w where i: "i < length (sy_workers S)"
    and m: "worker_move env (sy_workers S ! i) (sy_server S) = Some (x, w)"
    and T: "T = \<lparr>sy_server = w, sy_workers = (sy_workers S)[i := x]\<rparr>" by (auto elim!: with_workerE)
  obtain A B where A: "boxes (sy_workers S) = A @ worker_box (sy_workers S ! i) @ B"
    and A': "boxes ((sy_workers S)[i := x]) = A @ worker_box x @ B"
    and B: "\<And>j. j < length (sy_workers S) \<Longrightarrow> j \<noteq> i \<Longrightarrow> set (worker_box (sy_workers S ! j)) \<subseteq> set A \<union> set B"
    using boxes_update [OF i] by metis
  let ?es = "worker_events (en_sandbox env) (sy_workers S ! i) x (sv_sandbox (sy_server S)) (sv_sandbox w)"
  have "script_at env (L @ ?es) ((sy_workers S)[i := x] ! j)" if j: "j < length (sy_workers S)" for j
  proof (cases "j = i")
    case True
    with worker_move_script [OF m] assms(4) i show ?thesis by (simp add: list_all_length)
  next
    case False
    have "\<not> concerns c e" if "c \<in> set (worker_box (sy_workers S ! j))" "e \<in> set ?es" for c e
    proof -
      have "c \<in> set A \<union> set B" using that(1) B [OF j False] by blast
      moreover have "distinct (A @ worker_box (sy_workers S ! i) @ B)" "distinct (A @ worker_box x @ B)"
        using assms(1,2) T A A' by simp_all
      ultimately have "c \<notin> set (worker_box (sy_workers S ! i)) \<union> set (worker_box x)" by auto
      with worker_events_own [OF m that(2)] show ?thesis by blast
    qed
    with False assms(4) j script_at_other [of env L "sy_workers S ! j" ?es] show ?thesis
      by (simp add: list_all_length)
  qed
  then show ?thesis using i by (simp add: T Worker_Moves move_log_def list_all_length)
next
  case (Heartbeat_Moves i)
  with assms(3) obtain x w where i: "i < length (sy_workers S)"
    and m: "heartbeat_move env (sy_workers S ! i) (sy_server S) = Some (x, w)"
    and T: "T = \<lparr>sy_server = w, sy_workers = (sy_workers S)[i := x]\<rparr>" by (auto elim!: with_workerE)
  have "script_at env L x = script_at env L (sy_workers S ! i)"
    using m by (auto simp: script_at_def elim!: heartbeat_moveE)
  with assms(4) i workers_after [OF i assms(4)] show ?thesis
    by (simp add: T Heartbeat_Moves move_log_def list_all_length)
next
  case (Restart s)
  with assms(3) show ?thesis by (auto simp: list_all_iff script_at_def)
qed (use assms(3,4) in \<open>auto simp: move_log_def\<close>)

context shared_sandbox
begin

lemma run_logged:
  assumes env: "alone env" "sb = en_sandbox env" and fresh: "\<And>s. fresh s \<Longrightarrow> inv s \<and> live s = 0"
    and fit: "tokens_fit (sv_db (sy_server T))"
  shows "reachable env fresh n S \<Longrightarrow> list_all (move_ok fresh) as \<Longrightarrow> sys_run env as S = Some T \<Longrightarrow>
    sys_ok env (logged_outcomes env L) S \<Longrightarrow> list_all (script_at env L) (sy_workers S) \<Longrightarrow>
    sys_ok env (logged_outcomes env (L @ sys_log env as S)) T"
proof (induction as arbitrary: S L)
  case (Cons a as)
  obtain S' where a: "sys_move env a S = Some S'" and rest: "sys_run env as S' = Some T"
    using Cons.prems(3) by (auto simp: bind_eq_Some_conv)
  have reach: "reachable env fresh n S'" using Cons.prems(1,2) a by (auto intro: reachable.move)
  have "tokens_fit (sv_db (sy_server S))" using grown_tokens [OF run_grown [OF env(1) Cons.prems(3)] fit] .
  from sys_move_ok [OF env(1) Cons.prems(4) _ this a] Cons.prems(5)
  have "sys_ok env (logged_outcomes env L) S'" by (auto simp: list_all_iff intro: script_at_returns)
  then have ok: "sys_ok env (logged_outcomes env (L @ move_log env a S S')) S'"
    by (rule sys_ok_mono) (rule logged_later)
  have "distinct (boxes (sy_workers S))" "distinct (boxes (sy_workers S'))"
    using reachable_boxes [OF env(2) fresh Cons.prems(1)] reachable_boxes [OF env(2) fresh reach]
    by (simp_all add: boxes_ok_def)
  from scripts_move [OF this a Cons.prems(5)]
  have "list_all (script_at env (L @ move_log env a S S')) (sy_workers S')" .
  from Cons.IH [OF reach _ rest ok this] Cons.prems(2) a show ?case by simp
qed simp

lemma started_logged:
  assumes "alone env" "sb = en_sandbox env" "\<And>s. fresh s \<Longrightarrow> inv s \<and> live s = 0" "fresh s"
    and "list_all (move_ok fresh) as" "sys_run env as (started env empty_db s n) = Some T" "tokens_fit (sv_db (sy_server T))"
  shows "sys_ok env (logged_outcomes env (sys_log env as (started env empty_db s n))) T"
proof -
  let ?S = "started env empty_db s n"
  have "sys_ok env (logged_outcomes env []) ?S"
    by (auto simp: sys_ok_def started_def new_server_def store_inv_empty list_all_iff holds_job_def tokens_apart_def)
      (simp add: empty_db_def)
  moreover have "list_all (script_at env []) (sy_workers ?S)" by (simp add: started_def list_all_iff script_at_def)
  ultimately have "sys_ok env (logged_outcomes env ([] @ sys_log env as ?S)) T"
    using run_logged [OF assms(1-3,7) reachable.start [where fresh = fresh, OF assms(4)] assms(5,6)] by blast
  then show ?thesis by simp
qed

end

end
