(* ===== verification/Server_Main.thy ===== *)
theory Server_Main
  imports Server_Liveness Judge_Isolate_Guarantees Judge_Problem_Guarantees
begin

text \<open>
  The start of the server (\<open>crates/server/src/main.rs\<close>): languages and problems are loaded, the
  isolate backend is set up and checked, jobs that were in flight are put back in the queue, and
  the state is built; what comes before, reading the configuration and opening the database, is in
  \<open>Server_Boot\<close>. The composition of everything: after a restart, from any database a server can
  leave behind, every submission is judged with the isolate backend.
\<close>

section \<open>Starting\<close>

datatype start_error =
    Start_Languages language_error
  | Start_Problems problem_error
  | Start_NoLanguages string
  | Start_Sandbox sandbox_error

text \<open>\<open>base\<close> has the configuration and the parameters of the environment that are not loaded.\<close>

definition start_server ::
  "'h host_ops \<Rightarrow> isolate_config \<Rightarrow> (string \<Rightarrow> string + string) \<Rightarrow> (string \<Rightarrow> string + registry) \<Rightarrow> problem_env \<Rightarrow>
   ('h iso_world, u32, 'c, 'r) server_env \<Rightarrow> 'h \<Rightarrow> db \<Rightarrow>
   start_error + ('h iso_world, u32, 'c, 'r) server_env \<times> ('h iso_world, 'c) server" where
  "start_server ho icfg read toml penv base h d =
     (let cfg = en_config base
      in try_then (map_err Start_Languages (load_languages read toml (sc_languages_file cfg))) (\<lambda>langs.
         try_then (map_err Start_Problems (load_problems penv (sc_problems_dir cfg))) (\<lambda>problems.
         if langs = [] then Err (Start_NoLanguages (sc_languages_file cfg))
         else try_then (map_err Start_Sandbox (start_sandbox ho icfg h)) (\<lambda>pool.
           (let (requeued, d') = requeue_inflight d
            in Ok (base\<lparr>en_sandbox := isolate_ops ho icfg, en_languages := langs, en_problems := problems\<rparr>,
                   new_server cfg d' pool))))))"

section \<open>After a restart\<close>

lemma isolate_ready:
  assumes "en_sandbox env = isolate_ops ho cfg" "box_ids cfg \<noteq> []"
  shows "stays_ready (pool_ready cfg) env"
  using isolate_has_box isolate_stays_ready assms by (auto simp: stays_ready_def)

lemma row_ok_status:
  "row_ok r \<Longrightarrow> rw_status r = ''QUEUED'' \<or> in_flight (rw_status r) \<or> rw_status r = ''DONE''"
proof -
  assume "row_ok r"
  then obtain s where "rw_status r = status_text s" by (auto simp: row_ok_def)
  then show ?thesis by (cases s) (simp_all add: in_flight_def)
qed

lemma requeue_idle:
  assumes "store_inv d" "\<forall>r \<in> set (db_rows d). rw_attempt r < b" "requeue_inflight d = (n, d')"
  shows "idle_db b d'" and "map rw_id (db_rows d') = map rw_id (db_rows d)" and "keeps_done d d'"
proof -
  have d': "d' = store_step sample_writer sample_reader Op_Requeue d" using assms(3) by simp
  have rows: "db_rows d' = map (\<lambda>r. if in_flight (rw_status r) then requeue_row r else r) (db_rows d)"
    using assms(3) by (auto simp: requeue_inflight_def sql_update_def)
  then show "map rw_id (db_rows d') = map rw_id (db_rows d)" by (simp add: requeue_row_def)
  show "keeps_done d d'" by (force simp: keeps_done_def rows in_flight_def)
  have "store_adm Op_Requeue d" by simp
  then have "store_inv d'" unfolding d' by (rule store.step_good [OF assms(1)])
  moreover have "(rw_status r' = ''QUEUED'' \<and> rw_attempt r' < b) \<or> (rw_status r' = ''DONE'' \<and> rw_attempt r' \<le> b)"
    if "r \<in> set (db_rows d)" "r' = (if in_flight (rw_status r) then requeue_row r else r)" for r r'
  proof -
    have "row_ok r" "rw_attempt r < b" using that(1) assms(1,2) by (simp_all add: store_inv_def list_all_iff)
    with row_ok_status [of r] show ?thesis by (auto simp: that(2) requeue_row_def)
  qed
  ultimately show "idle_db b d'" unfolding idle_db_def list_all_iff rows set_map by blast
qed

text \<open>Take any database that a server can leave behind, with submissions waiting, half judged or done,
whose attempts fit a token. When the server starts with it, on the isolate backend with a range of
box ids that does not wrap, a worker that is left alone brings every submission to a verdict within
as many turns as there are submissions times the configured attempts, whatever the host does; what
was done stays, nothing is lost, and all boxes are free again.\<close>

lemma restart_judges_everything:
  assumes start: "start_server ho icfg read toml penv base h d = Ok (env, w)"
    and ids: "unat (ic_first_box_id icfg) + unat (ic_slots icfg) < 2 ^ 32"
    and base: "alone base" "writes_json base"
    and db: "store_inv d" "\<forall>r \<in> set (db_rows d). rw_attempt r < b"
    and attempts: "uint (sc_max_attempts (en_config base)) \<le> b" "b < 2 ^ 32 - 1"
    and turns: "length (db_rows d) * max 1 (unat (sc_max_attempts (en_config base))) \<le> n"
  shows "\<exists>ts s' w'. worker_loop env n 0 w = Some (ts, s', w') \<and> keeps_done d (sv_db w') \<and>
    map rw_id (db_rows (sv_db w')) = map rw_id (db_rows d) \<and>
    list_all (\<lambda>r. rw_status r = ''DONE'' \<and> (\<exists>v. rw_verdict r = Some (code v))) (db_rows (sv_db w')) \<and>
    live_boxes (sv_sandbox w') = 0"
proof -
  obtain requeued d' where d': "requeue_inflight d = (requeued, d')" by fastforce
  with start obtain langs problems pool where pool: "start_sandbox ho icfg h = Ok pool"
    and env: "env = base\<lparr>en_sandbox := isolate_ops ho icfg, en_languages := langs, en_problems := problems\<rparr>"
    and w: "w = new_server (en_config base) d' pool"
    by (auto simp: start_server_def Let_def try_then_Ok_iff split: if_splits)
  note idle = requeue_idle [OF db d'] and ready = start_sandbox_ready [OF pool ids]
  have willing: "willing (pool_ready icfg) env"
    using base isolate_ready [of env ho icfg] ready(2) by (simp add: willing_def env alone_def writes_json_def)
  have quiet: "quiet (pool_ready icfg) env b w"
    using idle(1) ready(1) attempts by (simp add: quiet_def w env new_server_def run_store_new_def)
  have "length (db_rows d') = length (db_rows d)" using idle(2) by (metis length_map)
  with turns have n: "pending_work (sc_max_attempts (en_config env)) (sv_db w) \<le> n"
    using pending_work_bound [of "sv_db w" "sc_max_attempts (en_config env)"] idle(1)
    by (auto simp: idle_db_def w env new_server_def)
  from all_judged [OF willing quiet n, of 0] idle(2) keeps_done_trans [OF idle(3)] show ?thesis
    by (auto simp: w new_server_def quiet_def pool_ready_def)
qed

definition sample_base :: "(nat iso_world, u32, submission list, unit) server_env" where
  "sample_base = \<lparr>en_config = default_server_config, en_sandbox = isolate_ops sample_host sample_isolate,
     en_languages = [], en_judge_config = default_judge_config, en_problems = [],
     en_broadcast = sample_broadcast, en_write_json = sample_writer, en_read_json = sample_reader,
     en_debug_str = id, en_clock = (\<lambda>n. Some (200 + n)), en_others = (\<lambda>n. [])\<rparr>"

lemma restart_judges_everything_witness:
  "\<exists>env w ts s' w'. start_server sample_host sample_isolate (\<lambda>_. Ok []) (\<lambda>_. Ok [(''rust'', sample_language)])
       (sample_env\<lparr>pe_read_dir := (\<lambda>_. Ok [])\<rparr>) sample_base 0 sample_leased = Ok (env, w) \<and>
     worker_loop env 3 0 w = Some (ts, s', w') \<and> list_all (\<lambda>r. rw_status r = ''DONE'') (db_rows (sv_db w'))"
proof -
  let ?penv = "sample_env\<lparr>pe_read_dir := (\<lambda>_. Ok [])\<rparr>"
  have "load_problems ?penv x = Ok []" for x by (simp add: load_problems_def List.map_filter_def)
  moreover have "case start_sandbox sample_host sample_isolate 0 of Ok pool \<Rightarrow> True | Err e \<Rightarrow> False" by code_simp
  moreover have "load_languages (\<lambda>_. Ok []) (\<lambda>_. Ok [(''rust'', sample_language)]) x =
      Ok [(''rust'', sample_language\<lparr>lg_id := ''rust''\<rparr>)]" for x
    by (simp add: load_languages_def sample_registry_loads)
  ultimately obtain env w where start: "start_server sample_host sample_isolate (\<lambda>_. Ok [])
      (\<lambda>_. Ok [(''rust'', sample_language)]) ?penv sample_base 0 sample_leased = Ok (env, w)"
    by (simp add: start_server_def Let_def split_beta split: sum.splits)
  have base: "alone sample_base" "writes_json sample_base"
    by (simp_all add: alone_def writes_json_def sample_base_def sample_writer_def)
  have "list_all (\<lambda>r. rw_attempt r < 3) (db_rows sample_leased)" and n: "length (db_rows sample_leased) = 1" by code_simp+
  then have a: "\<forall>r \<in> set (db_rows sample_leased). rw_attempt r < 3" by (simp add: list_all_iff)
  from restart_judges_everything [OF start sample_ids_fit base sample_leased_inv a, of 3] n start show ?thesis
    by (auto simp: sample_base_def default_server_config_def list_all_iff)
qed

end
