(* ===== verification/Server_System_Guarantees.thy ===== *)
theory Server_System_Guarantees
  imports Server_System_Turns Server_System_Log Server_Main
begin

text \<open>
  What the running server guarantees, with any number of workers, their heartbeat tasks, the
  sweeper, clients and crashes interleaved in any order: it keeps to the store's histories, verdicts
  are those of the judge for the submission's own source and final, no two workers own a submission,
  and no turn of a worker gets stuck or goes on forever.
\<close>

section \<open>A sample history\<close>

text \<open>Two workers on the isolate backend, on a host where every program prints 3.\<close>

definition sum_problem :: problem where
  "sum_problem = sample_problem\<lparr>pr_tests := [\<lparr>tc_name = ''01'', tc_input = ''1 2'', tc_expected = Some ''3''\<rparr>],
     pr_comparer := Tokens\<rparr>"

definition system_env :: "(nat iso_world, u32, submission list, unit) server_env" where
  "system_env = \<lparr>en_config = default_server_config, en_sandbox = isolate_ops three_host sample_isolate,
     en_languages = [(''python'', python)], en_judge_config = default_judge_config,
     en_problems = [(''sum'', sum_problem)], en_broadcast = sample_broadcast,
     en_write_json = sample_writer, en_read_json = sample_reader, en_debug_str = id,
     en_clock = (\<lambda>n. Some (200 + n)), en_others = (\<lambda>n. [])\<rparr>"

lemma system_alone: "alone system_env"
  by (simp add: alone_def system_env_def)

lemma system_sandbox: "en_sandbox system_env = isolate_ops three_host sample_isolate"
  by (simp add: system_env_def)

lemma sample_pool_ready: "pool_ready sample_isolate sample_pool"
  using sample_pool_inv by (simp add: pool_ready_def live_boxes_def sample_pool_def)

definition sample_body' :: create_submission where
  "sample_body' = \<lparr>cs_problem = ''sum'', cs_language = ''python'', cs_source = ''print(1)''\<rparr>"

definition sample_start :: "(nat iso_world, u32, submission list) system" where
  "sample_start = started system_env empty_db sample_pool 2"

definition posted_row :: row where
  "posted_row = new_row ''s1'' 200 \<lparr>nw_user_id = LOCAL_USER, nw_problem = ''sum'', nw_problem_version = ''v1'',
     nw_language = ''python'', nw_source = ''print(1)'', nw_tests_total = 1, nw_idempotency_key = None\<rparr>"

definition posted_server :: "(nat iso_world, submission list) server" where
  "posted_server = (sy_server sample_start)\<lparr>sv_db := \<lparr>db_rows = [posted_row], db_sources = [(''s1'', ''print(1)'')]\<rparr>,
     sv_access := 1, sv_wakes := [Notify_One]\<rparr>"

lemma sample_posted:
  "sys_move system_env (Client (Post_Submission ''s1'' None sample_body')) sample_start =
     Some (sys_at 0 (replicate 2 (At_Loop 0)) (At_Loop 0) posted_server)"
proof -
  have "trim ''print(1)'' \<noteq> []" by code_simp
  then show ?thesis
    by (simp add: post_submission_def or_not_found_def check_source_def get_language_def
        get_problem_def system_env_def sample_body'_def sample_start_def started_def new_server_def
        default_server_config_def with_store_def store_insert_def find_key_def idempotency_key_def
        new_submission_of_def insert_row_def insert_source_def empty_db_def find_row_def wake_up_def
        posted_server_def posted_row_def sys_at_def row_to_submission_def new_row_def now_ms_def
        sum_problem_def sample_problem_def numeral_2_eq_2)
qed

text \<open>A worker claims the submission, and at the end of its turn the row shows the verdict.\<close>

definition posted_job :: job where
  "posted_job = \<lparr>jb_id = ''s1'', jb_problem = ''sum'', jb_language = ''python'', jb_source = ''print(1)'', jb_attempt = 1\<rparr>"

definition claimed_server :: "(nat iso_world, submission list) server" where
  "claimed_server = posted_server\<lparr>sv_db := \<lparr>db_rows = [claim_row (i64_add 201 (lease_ms default_server_config)) posted_row],
     db_sources = [(''s1'', ''print(1)'')]\<rparr>, sv_access := 2\<rparr>"

lemma sample_claim:
  "with_store system_env (\<lambda>now. claim_next now (lease_ms (en_config system_env))) posted_server =
     (Ok (Some posted_job), claimed_server)"
  by (simp add: with_store_def system_env_def posted_server_def claimed_server_def now_ms_def claim_next_def
      oldest_queued_def order_by_key_def posted_row_def new_row_def sql_update_def find_row_def claim_row_def
      store_get_source_def posted_job_def i64_as_u32_def)

lemma sample_idle: "rs_queue (sv_runs posted_server) = []"
  by (simp add: posted_server_def sample_start_def started_def new_server_def run_store_new_def)

lemma sample_problem_known:
  "get_problem (en_problems system_env) (jb_problem posted_job) = Some sum_problem"
  by (simp add: system_env_def get_problem_def posted_job_def)

lemma sample_claiming:
  "sys_run system_env [Client (Post_Submission ''s1'' None sample_body'), Worker_Moves 0, Worker_Moves 0] sample_start =
     Some (sys_at 0 (replicate 2 (At_Loop 0))
       (Wants_Box (Submission_Task posted_job sum_problem) 0) claimed_server)"
proof -
  have "run_pop (sv_runs posted_server) = (None, sv_runs posted_server)" using sample_idle by (simp add: run_pop_def)
  then show ?thesis
    using sample_posted sample_claim sample_problem_known
    by (simp add: sys_at_def with_worker_def RUN_BURST_def numeral_2_eq_2 del: sys_move.simps(6))
qed

lemma sample_turn:
  obtains w r where "worker_turn system_env 0 posted_server = Some (Served_Submission posted_job, 0, w)"
    "db_rows (sv_db w) = [r]" "rw_id r = ''s1''" "rw_status r = ''DONE''" "rw_verdict r = Some (code Accepted)"
    "rw_attempt r = 1"
proof -
  let ?p = sum_problem and ?req = "submission_request posted_job sum_problem"
  have "rq_tests ?req = [\<lparr>tc_name = ''01'', tc_input = ''1 2'', tc_expected = Some ''3''\<rparr>]" "rq_comparer ?req = Tokens"
    "rq_language ?req = ''python''" by (simp_all add: submission_request_def sum_problem_def posted_job_def)
  from three_judged [OF this, of True] obtain res s2 ps where
    j: "judge (isolate_ops three_host sample_isolate) [(''python'', python)] default_judge_config ?req True sample_pool =
      Some (Ok res, s2, ps)" and acc: "jr_verdict res = Accepted" by blast
  have pool: "sv_sandbox claimed_server = sample_pool"
    by (simp add: claimed_server_def posted_server_def sample_start_def started_def new_server_def)
  let ?w1 = "claimed_server\<lparr>sv_sandbox := s2\<rparr>" and ?r0 = "claim_row (i64_add 201 (lease_ms default_server_config)) posted_row"
  have at: "at_row [] ?r0 [] (sv_db ?w1)" by (simp add: at_row_def claimed_server_def)
  have held: "held posted_job ?r0"
    by (simp add: held_def owned_by_def claim_row_def posted_row_def new_row_def posted_job_def)
  obtain r1 where r1: "at_row [] r1 [] (sv_db (fold (heartbeat system_env posted_job) ps ?w1))" "held posted_job r1" "rw_id r1 = rw_id ?r0"
    using heartbeats_at_row [OF system_alone at held] by blast
  have json: "en_write_json system_env (jr_tests res) = Ok ''[]''" by (simp add: system_env_def sample_writer_def)
  let ?w2 = "fold (heartbeat system_env posted_job) ps ?w1"
  from finish_settles [OF system_alone r1(1,2) json, of ?p] obtain now where
    fin: "at_row [] (finish_row now (pr_version ?p) judge_version ''[]'' res r1) []
      (sv_db (finish_job system_env posted_job ?p res ?w2))" by blast
  let ?r = "finish_row now (pr_version ?p) judge_version ''[]'' res r1"
  let ?w = "publish_current system_env (jb_id posted_job) (finish_job system_env posted_job ?p res ?w2)"
  have "handle_submission system_env posted_job claimed_server = Some ?w"
    using j pool sample_problem_known
    by (simp add: handle_submission_def judge_with_def write_outcome_def) (simp add: system_env_def)
  then have "worker_turn system_env 0 posted_server = Some (Served_Submission posted_job, 0, ?w)"
    using sample_claim sample_idle by (simp add: worker_turn_def RUN_BURST_def run_pop_def)
  moreover have "db_rows (sv_db ?w) = [?r]" using fin by (simp add: at_row_def publish_alone [OF system_alone])
  moreover have "rw_id ?r = ''s1''" "rw_attempt ?r = 1" "rw_status ?r = ''DONE''" "rw_verdict ?r = Some (code Accepted)"
    using r1(2,3) acc by (simp_all add: finish_row_def held_def owned_by_def posted_job_def)
  ultimately show thesis using that [of ?w ?r] by blast
qed

lemma sample_run:
  obtains as S r where "list_all (move_ok (pool_ready sample_isolate)) as" "sys_run system_env as sample_start = Some S"
    "db_rows (sv_db (sy_server S)) = [r]" "rw_id r = ''s1''" "rw_status r = ''DONE''" "rw_verdict r = Some (code Accepted)"
    "rw_attempt r = 1"
proof -
  obtain w r where t: "worker_turn system_env 0 posted_server = Some (Served_Submission posted_job, 0, w)"
    and r: "db_rows (sv_db w) = [r]" "rw_id r = ''s1''" "rw_status r = ''DONE''" "rw_verdict r = Some (code Accepted)"
      "rw_attempt r = 1"
    by (rule sample_turn)
  let ?sys = "sys_at 0 (replicate 2 (At_Loop 0)) (At_Loop 0)"
  obtain as where as: "own_moves 0 as" "sys_run system_env as (?sys posted_server) = Some (?sys w)"
    using turn_by_worker [OF _ t, of 0 "replicate 2 (At_Loop 0)"] by (auto simp: by_worker_def)
  let ?as = "Client (Post_Submission ''s1'' None sample_body') # as"
  have "list_all (move_ok (pool_ready sample_isolate)) ?as" using as(1) by (auto simp: own_moves_def list_all_iff)
  moreover have "sys_run system_env ?as sample_start = Some (?sys w)"
    using sample_posted as(2) by (simp del: sys_move.simps)
  ultimately show thesis using r by (intro that [of ?as "?sys w" r]) (auto simp: sys_at_def)
qed

lemma sample_start_reachable: "reachable system_env (pool_ready sample_isolate) 2 sample_start"
  unfolding sample_start_def by (rule reachable.start) (rule sample_pool_ready)

lemma sample_reached:
  obtains S r where "reachable system_env (pool_ready sample_isolate) 2 S" "db_rows (sv_db (sy_server S)) = [r]" "rw_id r = ''s1''"
    "rw_status r = ''DONE''" "rw_verdict r = Some (code Accepted)" "rw_attempt r = 1"
proof -
  obtain as S r where S: "list_all (move_ok (pool_ready sample_isolate)) as" "sys_run system_env as sample_start = Some S"
    "db_rows (sv_db (sy_server S)) = [r]" "rw_id r = ''s1''" "rw_status r = ''DONE''" "rw_verdict r = Some (code Accepted)"
    "rw_attempt r = 1" by (rule sample_run)
  from reachable_run [OF sample_start_reachable S(1,2)] S(3-7) show thesis by (rule that)
qed

section \<open>The server keeps to the store's histories\<close>

text \<open>C5: every execution of the running server is a history of the store. However the workers, their
heartbeat tasks, the sweeper, clients, crashes and restarts interleave, and whatever the sandbox
does, the database is at any time what an admissible history of store operations makes of the
empty one, as long as attempts fit a token. So what the store guarantees about its histories
(exclusive claims, fenced writes, bounded retries) holds of the whole program.\<close>

theorem server_refines_store:
  assumes "alone env" and "reachable env fresh n S" and "tokens_fit (sv_db (sy_server S))"
  shows "\<exists>ops. sv_db (sy_server S) = exec_all (env_step env) ops empty_db \<and>
    all_admissible store_adm (env_step env) ops empty_db"
  using assms(2,3)
proof (induction rule: reachable.induct)
  case (start s)
  show ?case by (intro exI [of _ "[]"]) (simp add: started_def new_server_def)
next
  case (move S a T)
  have run: "sys_run env [a] S = Some T" using move.hyps(3) by simp
  have "tokens_fit (sv_db (sy_server S))" using grown_tokens [OF run_grown [OF assms(1) run] move.prems] .
  from move.IH [OF this] obtain ops where "sv_db (sy_server S) = exec_all (env_step env) ops empty_db"
    "all_admissible store_adm (env_step env) ops empty_db" by blast
  moreover obtain ops' where "sv_db (sy_server T) = exec_all (env_step env) ops' (sv_db (sy_server S))"
    "all_admissible store_adm (env_step env) ops' (sv_db (sy_server S))"
    using run_history [OF assms(1) move.hyps(1) _ run move.prems] move.hyps(2) by auto
  ultimately show ?case by (intro exI [of _ "ops @ ops'"]) (simp add: exec_all_append all_admissible_append)
qed

theorem server_refines_store_witness:
  "\<exists>S ops r. reachable system_env (pool_ready sample_isolate) 2 S \<and> sv_db (sy_server S) = exec_all (env_step system_env) ops empty_db \<and>
     db_rows (sv_db (sy_server S)) = [r] \<and> rw_status r = ''DONE''"
proof -
  obtain S r where S: "reachable system_env (pool_ready sample_isolate) 2 S" "db_rows (sv_db (sy_server S)) = [r]" "rw_status r = ''DONE''"
    "rw_attempt r = 1" by (rule sample_reached)
  then have "tokens_fit (sv_db (sy_server S))" by (simp add: tokens_fit_def)
  from server_refines_store [OF system_alone S(1) this] S show ?thesis by blast
qed

text \<open>C12: a shown verdict is final. Once reading a submission gives DONE, then after anything that
workers, heartbeats, the sweeper, clients, crashes and restarts do, reading it gives the same
verdict, times, tests and version.\<close>

theorem shown_verdict_is_final:
  assumes "alone env" and "reachable env fresh n S" and "list_all (move_ok fresh) as"
    and "sys_run env as S = Some T" and "tokens_fit (sv_db (sy_server T))"
    and "store_get de i (sv_db (sy_server S)) = Some sub" and "sm_status sub = S_Done"
  shows "store_get de i (sv_db (sy_server T)) = Some sub"
proof -
  let ?d = "sv_db (sy_server S)" and ?d' = "sv_db (sy_server T)"
  have fit: "tokens_fit ?d" using grown_tokens [OF run_grown [OF assms(1,4)] assms(5)] .
  have inv: "store_inv ?d" using reachable_safe [OF assms(1,2) fit] by (simp add: sys_ok_def)
  obtain ops where ops: "?d' = exec_all (env_step env) ops ?d" "all_admissible store_adm (env_step env) ops ?d"
    using run_history [OF assms(1-5)] by blast
  obtain r where r: "r \<in> set (db_rows ?d)" "rw_id r = i" "sub = row_to_submission de r"
    using assms(6) find_row_in by (fastforce simp: store_get_def)
  then have "rw_status r = ''DONE''"
    using assms(7) by (auto simp: row_to_submission_def parse_status_def split: if_splits)
  from done_kept [OF inv ops(2) r(1) this] store.exec_all_good [OF inv ops(2)] r(2)
  have "find_row i (db_rows ?d') = Some r" by (simp add: ops(1) find_row_distinct store_inv_def)
  with r(3) show ?thesis by (simp add: store_get_def)
qed

theorem shown_verdict_is_final_witness:
  "\<exists>S T sub. reachable system_env (pool_ready sample_isolate) 2 S \<and> sys_run system_env [Sweeps, Restart sample_pool] S = Some T \<and>
     store_get sample_reader ''s1'' (sv_db (sy_server T)) = Some sub \<and> sm_verdict sub = Some Accepted"
proof -
  obtain S r where S: "reachable system_env (pool_ready sample_isolate) 2 S" "db_rows (sv_db (sy_server S)) = [r]" "rw_id r = ''s1''"
    "rw_status r = ''DONE''" "rw_verdict r = Some (code Accepted)" "rw_attempt r = 1" by (rule sample_reached)
  obtain T where T: "sys_run system_env [Sweeps, Restart sample_pool] S = Some T" by simp
  have ok: "list_all (move_ok (pool_ready sample_isolate)) [Sweeps, Restart sample_pool]"
    by (simp add: sample_pool_ready)
  have "sv_db (sy_server T) = snd (requeue_inflight (sv_db (sweep_store system_env (sy_server S))))"
    using T by (auto simp: restarted_def new_server_def)
  moreover have "db_rows (sv_db (sweep_store system_env (sy_server S))) = [r]"
    using S(2,4)
    by (simp add: sweep_store_def wake_up_def with_store_alone [OF system_alone] store_sweep_def expired_def
        sql_update_def Let_def split_beta)
  ultimately have "db_rows (sv_db (sy_server T)) = [r]"
    using S(4) by (simp add: requeue_inflight_def sql_update_def)
  then have fit: "tokens_fit (sv_db (sy_server T))" using S(6) by (simp add: tokens_fit_def)
  have get: "store_get sample_reader ''s1'' (sv_db (sy_server S)) = Some (row_to_submission sample_reader r)"
    using S(2,3) by (simp add: store_get_def find_row_def)
  have "sm_status (row_to_submission sample_reader r) = S_Done" "sm_verdict (row_to_submission sample_reader r) = Some Accepted"
    using S(4,5) verdict_codec.dec_enc [of Accepted] by (simp_all add: row_to_submission_def)
  with shown_verdict_is_final [OF system_alone S(1) ok T fit get] S(1) T show ?thesis by blast
qed

section \<open>Verdicts\<close>

text \<open>
  The server runs on the isolate backend, as \<open>main\<close> starts it, on any host. Nothing is assumed of the
  programs that run in the boxes or of what the host answers: what is stated is what was done.
\<close>

lemma isolate_fresh: "pool_ready icfg s \<Longrightarrow> pool_inv icfg s \<and> live_boxes s = 0"
  by (simp add: pool_ready_def)

lemma logged_outcomeE:
  assumes "Ok res \<in> logged_outcomes env L t"
  obtains lang c xs where "get_language (en_languages env) (rq_language (task_request t)) = Some lang"
    "session_in L t (session_events (en_judge_config env) lang (task_request t) c xs)"
    "session_complete lang (task_request t) c xs"
    "res = session_result (en_judge_config env) (task_request t) c xs"
proof -
  obtain lang es where l: "get_language (en_languages env) (rq_language (task_request t)) = Some lang" "session_in L t es"
    "yields (judge_script (en_judge_config env) lang (task_request t)) es (Ok res)"
    using assms by (auto simp: logged_outcomes_def)
  from l(3) obtain c xs where "session_complete lang (task_request t) c xs"
    "es = session_events (en_judge_config env) lang (task_request t) c xs"
    "res = session_result (en_judge_config env) (task_request t) c xs" by (rule judge_script_yields)
  with l(1,2) that show thesis by blast
qed

lemma verdict_has_session:
  assumes "alone env" and "en_sandbox env = isolate_ops ho icfg" and "pool_ready icfg s"
    and "list_all (move_ok (pool_ready icfg)) as" and "sys_run env as (started env empty_db s n) = Some S"
    and "tokens_fit (sv_db (sy_server S))"
    and r: "find_row i (db_rows (sv_db (sy_server S))) = Some r" "rw_status r = ''DONE''"
  shows "(rw_verdict r = Some ''IE'' \<and> rw_error r \<noteq> None) \<or>
    (\<exists>p lang src c xs. get_problem (en_problems env) (rw_problem r) = Some p \<and>
       get_language (en_languages env) (rw_language r) = Some lang \<and>
       store_get_source i (sv_db (sy_server S)) = Some src \<and>
       (let job = \<lparr>jb_id = i, jb_problem = rw_problem r, jb_language = rw_language r, jb_source = src,
              jb_attempt = i64_as_u32 (rw_attempt r)\<rparr>;
            req = submission_request job p
        in session_in (sys_log env as (started env empty_db s n)) (Submission_Task job p)
             (session_events (en_judge_config env) lang req c xs) \<and>
           session_complete lang req c xs \<and>
           shows_result env (pr_version p) (session_result (en_judge_config env) req c xs) r))"
proof -
  let ?d = "sv_db (sy_server S)" and ?L = "sys_log env as (started env empty_db s n)"
  have ok: "sys_ok env (logged_outcomes env ?L) S"
    by (rule isolate_shared.started_logged [OF assms(1) assms(2) [symmetric] _ assms(3-6)]) (rule isolate_fresh)
  have in_rows: "r \<in> set (db_rows ?d)" and i: "rw_id r = i" using find_row_in [OF r(1)] by simp_all
  then obtain src where src: "store_get_source i ?d = Some src"
    using source_exists [of ?d i] ok by (auto simp: sys_ok_def)
  define job where "job = \<lparr>jb_id = i, jb_problem = rw_problem r, jb_language = rw_language r, jb_source = src,
    jb_attempt = i64_as_u32 (rw_attempt r)\<rparr>"
  then have job: "job_of_row ?d r = job" using src i by (simp add: job_of_row_def or_default_def)
  from ok in_rows have "authentic env (logged_outcomes env ?L) ?d r" by (simp add: sys_ok_def)
  then show ?thesis
    unfolding authentic_def could_return_def job
  proof (elim disjE exE conjE)
    fix version res p
    assume p: "get_problem (en_problems env) (jb_problem job) = Some p" "version = pr_version p"
      "Ok res \<in> logged_outcomes env ?L (Submission_Task job p)" and shown: "shows_result env version res r"
    from p(3) obtain lang c xs where l: "get_language (en_languages env) (rw_language r) = Some lang"
      "session_in ?L (Submission_Task job p) (session_events (en_judge_config env) lang (submission_request job p) c xs)"
      "session_complete lang (submission_request job p) c xs"
      "res = session_result (en_judge_config env) (submission_request job p) c xs"
      by (rule logged_outcomeE) (simp add: submission_request_def job_def)
    show ?thesis
      unfolding Let_def job_def [symmetric]
      by (rule disjI2, intro exI [of _ p] exI [of _ lang] exI [of _ src] exI [of _ c] exI [of _ xs])
        (use p(1,2) shown src l in \<open>simp add: job_def\<close>)
  qed (use r(2) in simp_all)
qed

text \<open>C2: verdicts are authentic. However the tasks of the running server were interleaved and wherever it
crashed, every finished submission either is marked IE and says why, or there was a session for it
in the sandbox: a box was handed out for this very submission, with its id, stored source, language
and problem, under the attempt it has now; its source was written there, the compiler ran if the
language has one, and the run command of the language was executed on the inputs of the problem's
tests in order, all of them unless judging stops at the first failure; and nobody did anything
else in that box in between. The row shows exactly the result computed from the outcomes of this
session: verdict, time, memory, failed test, compiler output, tests and version. So no submission
ever gets the verdict of another one, or one that was made up.\<close>

theorem verdicts_are_authentic:
  assumes "alone env" and "en_sandbox env = isolate_ops ho icfg" and "pool_ready icfg s"
    and "list_all (move_ok (pool_ready icfg)) as" and "sys_run env as (started env empty_db s n) = Some S"
    and "tokens_fit (sv_db (sy_server S))"
    and "find_row i (db_rows (sv_db (sy_server S))) = Some r" and "rw_status r = ''DONE''"
  shows "(rw_verdict r = Some ''IE'' \<and> rw_error r \<noteq> None) \<or>
    (\<exists>p lang src c xs. get_problem (en_problems env) (rw_problem r) = Some p \<and>
       get_language (en_languages env) (rw_language r) = Some lang \<and>
       store_get_source i (sv_db (sy_server S)) = Some src \<and>
       (let job = \<lparr>jb_id = i, jb_problem = rw_problem r, jb_language = rw_language r, jb_source = src,
              jb_attempt = i64_as_u32 (rw_attempt r)\<rparr>;
            req = submission_request job p
        in session_in (sys_log env as (started env empty_db s n)) (Submission_Task job p)
             (session_events (en_judge_config env) lang req c xs) \<and>
           session_complete lang req c xs \<and>
           shows_result env (pr_version p) (session_result (en_judge_config env) req c xs) r))"
  by (rule verdict_has_session [OF assms])

theorem verdicts_are_authentic_witness:
  "\<exists>as S r p src c xs. sys_run system_env as (started system_env empty_db sample_pool 2) = Some S \<and>
     find_row ''s1'' (db_rows (sv_db (sy_server S))) = Some r \<and> rw_verdict r = Some ''AC'' \<and>
     (let job = \<lparr>jb_id = ''s1'', jb_problem = rw_problem r, jb_language = rw_language r, jb_source = src, jb_attempt = 1\<rparr>
      in session_in (sys_log system_env as (started system_env empty_db sample_pool 2)) (Submission_Task job p)
        (session_events default_judge_config python (submission_request job p) c xs))"
proof -
  obtain as S r where S: "list_all (move_ok (pool_ready sample_isolate)) as" "sys_run system_env as sample_start = Some S"
    "db_rows (sv_db (sy_server S)) = [r]" "rw_id r = ''s1''" "rw_status r = ''DONE''" "rw_verdict r = Some (code Accepted)"
    "rw_attempt r = 1" by (rule sample_run)
  then have fit: "tokens_fit (sv_db (sy_server S))" and row: "find_row ''s1'' (db_rows (sv_db (sy_server S))) = Some r"
    by (simp_all add: tokens_fit_def find_row_def)
  have cfg: "en_judge_config system_env = default_judge_config" by (simp add: system_env_def)
  have lang: "get_language (en_languages system_env) l = Some g \<Longrightarrow> g = python" for l g
    by (auto simp: system_env_def get_language_def split: if_splits)
  have "rw_verdict r \<noteq> Some ''IE''" "i64_as_u32 (rw_attempt r) = 1" using S(6,7) by (simp_all add: i64_as_u32_def)
  with verdicts_are_authentic [OF system_alone system_sandbox sample_pool_ready S(1) S(2)[unfolded sample_start_def] fit row S(5)]
  obtain p src c xs where "let job = \<lparr>jb_id = ''s1'', jb_problem = rw_problem r, jb_language = rw_language r,
      jb_source = src, jb_attempt = 1\<rparr>
    in session_in (sys_log system_env as (started system_env empty_db sample_pool 2)) (Submission_Task job p)
        (session_events default_judge_config python (submission_request job p) c xs)"
    unfolding Let_def cfg by (auto dest: lang)
  with S(2,6) row show ?thesis unfolding sample_start_def by fastforce
qed

text \<open>C3: Accepted is deserved. Whoever reads a submission from the running server and sees Accepted
knows: the problem and the language exist, and in one box that was handed out for this submission,
and in which nobody did anything else in between, its stored source was written, the compiler if
the language has one ended normally, and the run command was executed on the input of every test
of that version of the problem, under the problem's own limits, each time ending normally with an
output that the problem's comparer accepts. No program has to be deterministic for this and no
host reliable.\<close>

theorem accepted_is_deserved:
  assumes "alone env" and "en_sandbox env = isolate_ops ho icfg" and "pool_ready icfg s"
    and "list_all (move_ok (pool_ready icfg)) as" and "sys_run env as (started env empty_db s n) = Some S"
    and "tokens_fit (sv_db (sy_server S))"
    and "store_get de i (sv_db (sy_server S)) = Some sub" and "sm_verdict sub = Some Accepted"
  shows "\<exists>p lang src a c xs. get_problem (en_problems env) (sm_problem sub) = Some p \<and>
    get_language (en_languages env) (sm_language sub) = Some lang \<and>
    store_get_source i (sv_db (sy_server S)) = Some src \<and> sm_problem_version sub = pr_version p \<and>
    (let job = \<lparr>jb_id = i, jb_problem = sm_problem sub, jb_language = sm_language sub, jb_source = src, jb_attempt = a\<rparr>
     in session_in (sys_log env as (started env empty_db s n)) (Submission_Task job p)
          (session_events (en_judge_config env) lang (submission_request job p) c xs)) \<and>
    (c = None \<longleftrightarrow> lg_compile lang = None) \<and> (case c of None \<Rightarrow> True | Some out \<Rightarrow> oc_status out = ExOk) \<and>
    map fst xs = pr_tests p \<and> list_all (\<lambda>(t, out). passes (pr_comparer p) t out) xs"
proof -
  let ?d = "sv_db (sy_server S)"
  obtain r where r: "find_row i (db_rows ?d) = Some r" "sub = row_to_submission de r"
    using assms(7) by (auto simp: store_get_def)
  then obtain k where k: "rw_verdict r = Some k" "from_code k = Some Accepted"
    using assms(8) by (auto simp: row_to_submission_def bind_eq_Some_conv)
  have "reachable env (pool_ready icfg) n S"
    using reachable_run [OF reachable.start [where fresh = "pool_ready icfg", OF assms(3)] assms(4,5)] .
  with reachable_safe [OF assms(1) _ assms(6)] find_row_in [OF r(1)] have "row_ok r"
    by (auto simp: sys_ok_def store_inv_def list_all_iff)
  with k have done_r: "rw_status r = ''DONE''" by (auto simp: row_ok_def)
  have "rw_verdict r \<noteq> Some ''IE''" using k by auto
  with verdict_has_session [OF assms(1-6) r(1) done_r] obtain p lang src c xs where
    p: "get_problem (en_problems env) (rw_problem r) = Some p" "get_language (en_languages env) (rw_language r) = Some lang"
      "store_get_source i ?d = Some src"
    and session: "let job = \<lparr>jb_id = i, jb_problem = rw_problem r, jb_language = rw_language r, jb_source = src,
              jb_attempt = i64_as_u32 (rw_attempt r)\<rparr>;
            req = submission_request job p
        in session_in (sys_log env as (started env empty_db s n)) (Submission_Task job p)
             (session_events (en_judge_config env) lang req c xs) \<and>
           session_complete lang req c xs \<and>
           shows_result env (pr_version p) (session_result (en_judge_config env) req c xs) r"
    by blast
  define job where "job = \<lparr>jb_id = i, jb_problem = rw_problem r, jb_language = rw_language r, jb_source = src,
    jb_attempt = i64_as_u32 (rw_attempt r)\<rparr>"
  let ?req = "submission_request job p"
  have s: "session_in (sys_log env as (started env empty_db s n)) (Submission_Task job p)
      (session_events (en_judge_config env) lang ?req c xs)" "session_complete lang ?req c xs"
    "shows_result env (pr_version p) (session_result (en_judge_config env) ?req c xs) r"
    using session by (simp_all add: Let_def job_def)
  have "jr_verdict (session_result (en_judge_config env) ?req c xs) = Accepted"
    using s(3) k verdict_codec.dec_enc by (auto simp: shows_result_def)
  note acc = session_accepted [OF s(2) this]
  have "rq_tests ?req = pr_tests p" "rq_comparer ?req = pr_comparer p" by (simp_all add: submission_request_def)
  with acc have "map fst xs = pr_tests p" "list_all (\<lambda>(t, out). passes (pr_comparer p) t out) xs"
    by (simp_all add: list_all_iff)
  moreover have "c = None \<longleftrightarrow> lg_compile lang = None" "case c of None \<Rightarrow> True | Some out \<Rightarrow> oc_status out = ExOk"
    using s(2) acc(1) by (auto simp: session_complete_def compiler_failed_def split: option.splits)
  moreover have "sm_problem_version sub = pr_version p" using s(3) by (simp add: r(2) row_to_submission_def shows_result_def)
  ultimately show ?thesis
    using p s(1) unfolding Let_def job_def
    by (intro exI [of _ p] exI [of _ lang] exI [of _ src] exI [of _ "i64_as_u32 (rw_attempt r)"] exI [of _ c] exI [of _ xs])
      (simp add: r(2) row_to_submission_def)
qed

theorem accepted_is_deserved_witness:
  "\<exists>as S sub xs. sys_run system_env as (started system_env empty_db sample_pool 2) = Some S \<and>
     store_get sample_reader ''s1'' (sv_db (sy_server S)) = Some sub \<and> sm_verdict sub = Some Accepted \<and>
     map fst xs = pr_tests sum_problem \<and> list_all (\<lambda>(t, out). passes Tokens t out) xs"
proof -
  obtain as S r where S: "list_all (move_ok (pool_ready sample_isolate)) as" "sys_run system_env as sample_start = Some S"
    "db_rows (sv_db (sy_server S)) = [r]" "rw_id r = ''s1''" "rw_status r = ''DONE''" "rw_verdict r = Some (code Accepted)"
    "rw_attempt r = 1" by (rule sample_run)
  then have fit: "tokens_fit (sv_db (sy_server S))"
    and get: "store_get sample_reader ''s1'' (sv_db (sy_server S)) = Some (row_to_submission sample_reader r)"
    by (simp_all add: tokens_fit_def find_row_def store_get_def)
  have acc: "sm_verdict (row_to_submission sample_reader r) = Some Accepted"
    using S(6) verdict_codec.dec_enc [of Accepted] by (simp add: row_to_submission_def)
  from accepted_is_deserved [OF system_alone system_sandbox sample_pool_ready S(1) S(2)[unfolded sample_start_def] fit get acc]
  obtain p xs where p: "get_problem (en_problems system_env) (sm_problem (row_to_submission sample_reader r)) = Some p"
    and xs: "map fst xs = pr_tests p" "list_all (\<lambda>(t, out). passes (pr_comparer p) t out) xs"
    by (elim exE conjE) (rule that, assumption+)
  have "p = sum_problem" using p by (simp add: system_env_def get_problem_def split: if_splits)
  then have "map fst xs = pr_tests sum_problem" "list_all (\<lambda>(t, out). passes Tokens t out) xs"
    using xs by (simp_all add: sum_problem_def)
  with S(2) get acc show ?thesis unfolding sample_start_def by blast
qed

section \<open>Ownership\<close>

text \<open>The tokens that workers hold, and whether a worker's token is the current one of its submission.\<close>

definition worker_tokens :: "'b worker list \<Rightarrow> (string \<times> u32) list" where
  "worker_tokens xs = concat (map (\<lambda>x. case worker_job x of None \<Rightarrow> [] | Some job \<Rightarrow> [(jb_id job, jb_attempt job)]) xs)"

definition is_owner :: "db \<Rightarrow> 'b worker \<Rightarrow> bool" where
  "is_owner d x \<longleftrightarrow> (case worker_job x of None \<Rightarrow> False
     | Some job \<Rightarrow> list_ex (owned_by (jb_id job) (jb_attempt job)) (db_rows d))"

lemma tokens_distinct:
  assumes "tokens_apart xs"
  shows "distinct (worker_tokens xs)"
  using assms
proof (induction xs)
  case (Cons x xs)
  have "tokens_apart xs"
    using Cons.prems unfolding tokens_apart_def by (metis Suc_less_eq length_Cons nat.inject nth_Cons_Suc)
  moreover have "(jb_id job, jb_attempt job) \<notin> set (worker_tokens xs)" if x: "worker_job x = Some job" for job
  proof
    assume "(jb_id job, jb_attempt job) \<in> set (worker_tokens xs)"
    then obtain y job' where y: "y \<in> set xs" "worker_job y = Some job'" "jb_id job' = jb_id job" "jb_attempt job' = jb_attempt job"
      unfolding worker_tokens_def by (auto split: option.splits dest!: sym [of "Some _"])
    then obtain j where "j < length xs" "xs ! j = y" by (auto simp: in_set_conv_nth)
    with Cons.prems x y show False unfolding tokens_apart_def
      by (metis Suc_less_eq length_Cons nat.distinct(1) nth_Cons_0 nth_Cons_Suc zero_less_Suc)
  qed
  ultimately show ?case using Cons.IH by (auto simp: worker_tokens_def split: option.split)
qed (simp add: worker_tokens_def)

lemma not_owner_writes:
  assumes "\<not> is_owner d x" "worker_job x = Some job"
  shows "store_progress now (jb_id job) (jb_attempt job) st k m lease d = (False, d)"
    "fail_attempt now (jb_id job) (jb_attempt job) mx err d = (None, d)"
    "snd (store_finish ser now (jb_id job) (jb_attempt job) pv jv res d) = d"
proof -
  have "filter (owned_by (jb_id job) (jb_attempt job)) (db_rows d) = []"
    using assms by (simp add: is_owner_def list_ex_iff filter_empty_conv)
  from unowned_writes [OF this] show "store_progress now (jb_id job) (jb_attempt job) st k m lease d = (False, d)"
    "fail_attempt now (jb_id job) (jb_attempt job) mx err d = (None, d)"
    "snd (store_finish ser now (jb_id job) (jb_attempt job) pv jv res d) = d" by simp_all
qed

text \<open>C11: a submission has one owner. In any reachable state of the running server no two workers hold
the same token; a worker whose token is not the current one of its submission, because its lease
expired and somebody else claimed it, changes nothing: its heartbeat is refused, its failure is
not recorded and its result is not applied. This holds whatever the sandbox does.\<close>

theorem submission_has_one_owner:
  assumes "alone env" and "reachable env fresh n S" and "tokens_fit (sv_db (sy_server S))"
  shows "distinct (worker_tokens (sy_workers S)) \<and>
    list_all (\<lambda>x. is_owner (sv_db (sy_server S)) x \<or> (case worker_job x of None \<Rightarrow> True | Some job \<Rightarrow>
      store_progress now (jb_id job) (jb_attempt job) st k m lease (sv_db (sy_server S)) = (False, sv_db (sy_server S)) \<and>
      fail_attempt now (jb_id job) (jb_attempt job) mx err (sv_db (sy_server S)) = (None, sv_db (sy_server S)) \<and>
      snd (store_finish ser now (jb_id job) (jb_attempt job) pv jv res (sv_db (sy_server S))) = sv_db (sy_server S)))
    (sy_workers S)"
proof
  have "tokens_apart (sy_workers S)" using reachable_safe [OF assms] by (simp add: sys_ok_def)
  then show "distinct (worker_tokens (sy_workers S))" by (rule tokens_distinct)
  show "list_all (\<lambda>x. is_owner (sv_db (sy_server S)) x \<or> (case worker_job x of None \<Rightarrow> True | Some job \<Rightarrow>
      store_progress now (jb_id job) (jb_attempt job) st k m lease (sv_db (sy_server S)) = (False, sv_db (sy_server S)) \<and>
      fail_attempt now (jb_id job) (jb_attempt job) mx err (sv_db (sy_server S)) = (None, sv_db (sy_server S)) \<and>
      snd (store_finish ser now (jb_id job) (jb_attempt job) pv jv res (sv_db (sy_server S))) = sv_db (sy_server S)))
    (sy_workers S)"
    using not_owner_writes by (fastforce simp: list_all_iff split: option.split)
qed

text \<open>A worker holds the submission.\<close>

theorem submission_has_one_owner_witness:
  "\<exists>S :: (nat iso_world, u32, submission list) system. reachable system_env (pool_ready sample_isolate) 2 S \<and>
     worker_tokens (sy_workers S) = [(''s1'', 1)] \<and> distinct (worker_tokens (sy_workers S))"
proof -
  let ?S = "sys_at 0 (replicate 2 (At_Loop 0))
    (Wants_Box (Submission_Task posted_job sum_problem) 0) claimed_server"
  have S: "reachable system_env (pool_ready sample_isolate) 2 ?S"
    using reachable_run [OF sample_start_reachable _ sample_claiming] by simp
  have fit: "tokens_fit (sv_db (sy_server ?S))"
    by (simp add: tokens_fit_def sys_at_def claimed_server_def claim_row_def posted_row_def new_row_def)
  have "worker_tokens (sy_workers ?S) = [(''s1'', 1)]"
    by (simp add: worker_tokens_def sys_at_def numeral_2_eq_2 posted_job_def)
  with submission_has_one_owner [OF system_alone S fit] S show ?thesis by blast
qed

section \<open>Turns\<close>

text \<open>C19: no turn goes on forever. Within a turn of a worker, from leaving the start of its loop to being
back there, only finitely many moves of the worker and its heartbeat task are possible, whatever
all the others do to the server in between.\<close>

theorem turns_terminate: "wf {(y, x). turn_step env x y}"
  by (rule wf_turns)

lemma enough_boxes:
  assumes "unat (ic_first_box_id icfg) + unat (ic_slots icfg) < 2 ^ 32" "n \<le> unat (ic_slots icfg)"
  shows "n \<le> card (set (box_ids icfg))"
  using box_ids_count [OF assms(1)] assms(2) by (simp add: distinct_card)

text \<open>C4: every turn completes. With the isolate backend, as many boxes as workers and a range of box ids
that does not wrap, in any reachable state of the running server every worker can move or its
heartbeat task can; in particular no worker ever waits for a box. Moving only these two, the
worker gets back to the start of its loop.\<close>

theorem every_turn_completes:
  assumes "en_sandbox env = isolate_ops ho icfg" and "reachable env (pool_ready icfg) n S"
    and "unat (ic_first_box_id icfg) + unat (ic_slots icfg) < 2 ^ 32" and "n \<le> unat (ic_slots icfg)" and "i < n"
  shows "(worker_move env (sy_workers S ! i) (sy_server S) \<noteq> None \<or>
      heartbeat_move env (sy_workers S ! i) (sy_server S) \<noteq> None) \<and>
    (\<exists>T as streak. own_moves i as \<and> sys_run env as S = Some T \<and> sy_workers T ! i = At_Loop streak)"
proof -
  note boxes = enough_boxes [OF assms(3,4)]
  have "worker_move env (sy_workers S ! i) (sy_server S) \<noteq> None \<or>
      heartbeat_move env (sy_workers S ! i) (sy_server S) \<noteq> None"
    by (rule isolate_shared.never_stuck [OF assms(1) [symmetric] isolate_fresh assms(2) boxes assms(5)])
  moreover obtain T streak where "by_worker env i S T" "sy_workers T ! i = At_Loop streak"
    using isolate_shared.turn_completes [OF assms(1) [symmetric] isolate_fresh boxes assms(5,2)] by blast
  ultimately show ?thesis by (auto simp: by_worker_def)
qed

theorem every_turn_completes_witness:
  "\<exists>T as streak. own_moves 1 as \<and> sys_run sample_base as (started sample_base empty_db sample_pool 2) = Some T \<and>
     sy_workers T ! 1 = At_Loop streak"
proof -
  have env: "en_sandbox sample_base = isolate_ops sample_host sample_isolate" by (simp add: sample_base_def)
  have "reachable sample_base (pool_ready sample_isolate) 2 (started sample_base empty_db sample_pool 2)"
    by (rule reachable.start) (rule sample_pool_ready)
  from every_turn_completes [OF env this sample_ids_fit, of 1] show ?thesis
    by (simp add: sample_isolate_def default_isolate_config_def)
qed

end
