(* ===== verification/Judge_Config.thy ===== *)
theory Judge_Config
  imports Judge_Isolate Judge_Problem
begin

text \<open>
  How the engine's configuration is read: the \<open>serde\<close> attributes of \<open>IsolateConfig\<close> (\<open>isolate.rs\<close>) and
  \<open>JudgeConfig\<close> (\<open>pipeline.rs\<close>), and of \<open>Language\<close> (\<open>language.rs\<close>). The TOML parser, which
  rejects unknown fields and values of another
  type, is a parameter that yields a table of the fields that are present; what is modelled is what
  becomes of the absent ones. And setting up the backend, which both programs do first.
\<close>

section \<open>Tables\<close>

record isolate_table =
  it_isolate_path :: "string option"
  it_use_cgroups :: "bool option"
  it_first_box_id :: "u32 option"
  it_slots :: "u32 option"
  it_meta_dir :: "string option"
  it_extra_dirs :: "string list option"

record judge_table =
  jt_compile_cpu_time_ms :: "u64 option"
  jt_compile_wall_time_ms :: "u64 option"
  jt_compile_memory_kb :: "u64 option"
  jt_compile_processes :: "u32 option"
  jt_compile_output_bytes :: "nat option"
  jt_run_processes :: "u32 option"
  jt_file_size_kb :: "u64 option"
  jt_stdout_bytes :: "nat option"
  jt_stderr_bytes :: "nat option"
  jt_excerpt_bytes :: "nat option"

text \<open>Each field of \<open>IsolateConfig\<close> names its default; \<open>Default\<close> repeats them.\<close>

definition default_isolate_path :: string where "default_isolate_path = ''isolate''"
definition default_slots :: u32 where "default_slots = 2"
definition default_meta_dir :: "string \<Rightarrow> string" where
  "default_meta_dir temp_dir = path_join temp_dir ''codexec-meta''"

definition isolate_config_of :: "string \<Rightarrow> isolate_table \<Rightarrow> isolate_config" where
  "isolate_config_of temp_dir t =
     \<lparr>ic_isolate_path = or_default (it_isolate_path t) default_isolate_path,
      ic_use_cgroups = or_default (it_use_cgroups t) True,
      ic_first_box_id = or_default (it_first_box_id t) 0,
      ic_slots = or_default (it_slots t) default_slots,
      ic_meta_dir = or_default (it_meta_dir t) (default_meta_dir temp_dir),
      ic_extra_dirs = or_default (it_extra_dirs t) []\<rparr>"

text \<open>The fields of \<open>JudgeConfig\<close> take theirs from its \<open>Default\<close>.\<close>

definition judge_config_of :: "judge_table \<Rightarrow> judge_config" where
  "judge_config_of t =
     (let d = default_judge_config
      in \<lparr>jc_compile_cpu_time_ms = or_default (jt_compile_cpu_time_ms t) (jc_compile_cpu_time_ms d),
          jc_compile_wall_time_ms = or_default (jt_compile_wall_time_ms t) (jc_compile_wall_time_ms d),
          jc_compile_memory_kb = or_default (jt_compile_memory_kb t) (jc_compile_memory_kb d),
          jc_compile_processes = or_default (jt_compile_processes t) (jc_compile_processes d),
          jc_compile_output_bytes = or_default (jt_compile_output_bytes t) (jc_compile_output_bytes d),
          jc_run_processes = or_default (jt_run_processes t) (jc_run_processes d),
          jc_file_size_kb = or_default (jt_file_size_kb t) (jc_file_size_kb d),
          jc_stdout_bytes = or_default (jt_stdout_bytes t) (jc_stdout_bytes d),
          jc_stderr_bytes = or_default (jt_stderr_bytes t) (jc_stderr_bytes d),
          jc_excerpt_bytes = or_default (jt_excerpt_bytes t) (jc_excerpt_bytes d)\<rparr>)"

text \<open>A table that is absent altogether has the value of \<open>Default\<close>.\<close>

definition isolate_section :: "string \<Rightarrow> isolate_table option \<Rightarrow> isolate_config" where
  "isolate_section temp_dir t =
     (case t of None \<Rightarrow> default_isolate_config temp_dir | Some t \<Rightarrow> isolate_config_of temp_dir t)"

definition judge_section :: "judge_table option \<Rightarrow> judge_config" where
  "judge_section t = (case t of None \<Rightarrow> default_judge_config | Some t \<Rightarrow> judge_config_of t)"

section \<open>Languages\<close>

text \<open>The table of a language, and the defaults of \<open>Step\<close> and \<open>Language\<close> (\<open>language.rs\<close>).\<close>

record step_table =
  spt_argv :: "string list"
  spt_env :: "(string \<times> string) list option"
  spt_dirs :: "string list option"
  spt_processes :: "u32 option"
  spt_syscall_flags :: "u32 option"

record language_table =
  lt_display_name :: string
  lt_source_file :: string
  lt_compile :: "step_table option"
  lt_run :: step_table
  lt_time_multiplier :: "f64 option"
  lt_address_space_limit :: "bool option"

definition step_of :: "step_table \<Rightarrow> step" where
  "step_of t =
     \<lparr>st_argv = spt_argv t, st_env = or_default (spt_env t) [], st_dirs = or_default (spt_dirs t) [],
      st_processes = spt_processes t, st_syscall_flags = spt_syscall_flags t\<rparr>"

definition one :: f64 where "one = Fin 1"
definition yes :: bool where "yes = True"

definition language_of :: "language_table \<Rightarrow> language" where
  "language_of t =
     \<lparr>lg_id = [], lg_display_name = lt_display_name t, lg_source_file = lt_source_file t,
      lg_compile = map_option step_of (lt_compile t), lg_run = step_of (lt_run t),
      lg_time_multiplier = or_default (lt_time_multiplier t) one,
      lg_address_space_limit = or_default (lt_address_space_limit t) yes\<rparr>"

text \<open>What the parser of \<open>from_toml\<close> makes of a file, given the tables in it, in key order.\<close>

definition registry_of :: "(string \<times> language_table) list \<Rightarrow> registry" where
  "registry_of ts = map (\<lambda>(k, t). (k, language_of t)) ts"

definition registry_len :: "registry \<Rightarrow> nat" where
  "registry_len reg = length reg"

definition registry_is_empty :: "registry \<Rightarrow> bool" where
  "registry_is_empty reg \<longleftrightarrow> reg = []"

lemma registry_is_empty_len: "registry_is_empty reg \<longleftrightarrow> registry_len reg = 0"
  by (simp add: registry_is_empty_def registry_len_def)

section \<open>Writing a configuration down\<close>

definition isolate_table_of :: "isolate_config \<Rightarrow> isolate_table" where
  "isolate_table_of c =
     \<lparr>it_isolate_path = Some (ic_isolate_path c), it_use_cgroups = Some (ic_use_cgroups c),
      it_first_box_id = Some (ic_first_box_id c), it_slots = Some (ic_slots c),
      it_meta_dir = Some (ic_meta_dir c), it_extra_dirs = Some (ic_extra_dirs c)\<rparr>"

definition judge_table_of :: "judge_config \<Rightarrow> judge_table" where
  "judge_table_of c =
     \<lparr>jt_compile_cpu_time_ms = Some (jc_compile_cpu_time_ms c),
      jt_compile_wall_time_ms = Some (jc_compile_wall_time_ms c),
      jt_compile_memory_kb = Some (jc_compile_memory_kb c),
      jt_compile_processes = Some (jc_compile_processes c),
      jt_compile_output_bytes = Some (jc_compile_output_bytes c),
      jt_run_processes = Some (jc_run_processes c), jt_file_size_kb = Some (jc_file_size_kb c),
      jt_stdout_bytes = Some (jc_stdout_bytes c), jt_stderr_bytes = Some (jc_stderr_bytes c),
      jt_excerpt_bytes = Some (jc_excerpt_bytes c)\<rparr>"

lemma or_default_simps [simp]: "or_default None d = d" "or_default (Some v) d = v"
  by (simp_all add: or_default_def)

lemma isolate_table_roundtrip: "isolate_config_of temp_dir (isolate_table_of c) = c"
  by (simp add: isolate_config_of_def isolate_table_of_def)

lemma judge_table_roundtrip: "judge_config_of (judge_table_of c) = c"
  by (simp add: judge_config_of_def judge_table_of_def Let_def)

text \<open>An empty table means what an absent one does: the two lists of defaults in \<open>isolate.rs\<close> agree.\<close>

lemma empty_isolate_table:
  "isolate_config_of temp_dir \<lparr>it_isolate_path = None, it_use_cgroups = None, it_first_box_id = None,
     it_slots = None, it_meta_dir = None, it_extra_dirs = None\<rparr> = isolate_section temp_dir None"
  by (simp add: isolate_config_of_def isolate_section_def default_isolate_config_def default_isolate_path_def
      default_slots_def default_meta_dir_def)

lemma empty_judge_table:
  "judge_config_of \<lparr>jt_compile_cpu_time_ms = None, jt_compile_wall_time_ms = None, jt_compile_memory_kb = None,
     jt_compile_processes = None, jt_compile_output_bytes = None, jt_run_processes = None,
     jt_file_size_kb = None, jt_stdout_bytes = None, jt_stderr_bytes = None, jt_excerpt_bytes = None\<rparr> =
   judge_section None"
  by (simp add: judge_config_of_def judge_section_def Let_def)

end
