(* ===== verification/Server_Boot.thy ===== *)
theory Server_Boot
  imports Server_System_Guarantees Judge_Config
begin

text \<open>
  The start of the server from its command line: the configuration (\<open>crates/server/src/config.rs\<close>),
  opening the database (\<open>Store::open\<close> in \<open>store.rs\<close>), and \<open>main\<close> (\<open>main.rs\<close>) up to the workers it
  spawns. SQLite's connections, files and the TOML parser are parameters. The composition with the
  running server: from the database file that a crash leaves behind at any moment, everything is
  recovered.
\<close>

section \<open>Configuration\<close>

record server_table =
  st_listen :: "string option"
  st_database :: "string option"
  st_problems_dir :: "string option"
  st_languages_file :: "string option"
  st_lease_seconds :: "u64 option"
  st_max_attempts :: "u32 option"
  st_max_source_bytes :: "nat option"
  st_run_queue_capacity :: "nat option"
  st_run_ttl_seconds :: "u64 option"

definition server_config_of :: "server_table \<Rightarrow> server_config" where
  "server_config_of t =
     (let d = default_server_config
      in \<lparr>sc_listen = or_default (st_listen t) (sc_listen d), sc_database = or_default (st_database t) (sc_database d),
          sc_problems_dir = or_default (st_problems_dir t) (sc_problems_dir d),
          sc_languages_file = or_default (st_languages_file t) (sc_languages_file d),
          sc_lease_seconds = or_default (st_lease_seconds t) (sc_lease_seconds d),
          sc_max_attempts = or_default (st_max_attempts t) (sc_max_attempts d),
          sc_max_source_bytes = or_default (st_max_source_bytes t) (sc_max_source_bytes d),
          sc_run_queue_capacity = or_default (st_run_queue_capacity t) (sc_run_queue_capacity d),
          sc_run_ttl_seconds = or_default (st_run_ttl_seconds t) (sc_run_ttl_seconds d)\<rparr>)"

definition server_section :: "server_table option \<Rightarrow> server_config" where
  "server_section t = (case t of None \<Rightarrow> default_server_config | Some t \<Rightarrow> server_config_of t)"

record config_table =
  ct_server :: "server_table option"
  ct_sandbox :: "isolate_table option"
  ct_judge :: "judge_table option"

record config =
  cf_server :: server_config
  cf_sandbox :: isolate_config
  cf_judge :: judge_config

definition config_of :: "string \<Rightarrow> config_table \<Rightarrow> config" where
  "config_of temp_dir t =
     \<lparr>cf_server = server_section (ct_server t), cf_sandbox = isolate_section temp_dir (ct_sandbox t),
      cf_judge = judge_section (ct_judge t)\<rparr>"

datatype config_error = Reading_Config string string | Parsing_Config string string

definition load_config ::
  "(string \<Rightarrow> string + string) \<Rightarrow> (string \<Rightarrow> string + config_table) \<Rightarrow> string \<Rightarrow> string \<Rightarrow>
   config_error + config" where
  "load_config read toml temp_dir path =
     try_then (map_err (Reading_Config path) (read path)) (\<lambda>txt.
     try_then (map_err (Parsing_Config path) (toml txt)) (\<lambda>t. Ok (config_of temp_dir t)))"

text \<open>The first argument, or else the variable \<open>CODEXEC_CONFIG\<close>, or else a fixed name.\<close>

definition config_path :: "string list \<Rightarrow> string option \<Rightarrow> string" where
  "config_path args var =
     (case args of _ # path # _ \<Rightarrow> path | _ \<Rightarrow> or_default var ''codexec.toml'')"

section \<open>Opening the database\<close>

text \<open>
  A connection has the tables of an existing database or, \<open>None\<close>, those of a new file, which has none.
  The statements of \<open>SCHEMA\<close> create what does not exist.
\<close>

record store_host =
  sh_create_dir_all :: "string \<Rightarrow> string + unit"
  sh_connect :: "string \<Rightarrow> string + db option"
  sh_connect_in_memory :: "string + db option"
  sh_busy_timeout :: "string + unit"
  sh_execute_schema :: "string + unit"

datatype store_error =
    Creating_Dir string string
  | Opening_Store string string
  | Preparing_Store string

definition store_init :: "store_host \<Rightarrow> db option \<Rightarrow> store_error + db" where
  "store_init sh conn =
     try_then (map_err Preparing_Store (sh_busy_timeout sh)) (\<lambda>_.
     try_then (map_err Preparing_Store (sh_execute_schema sh)) (\<lambda>_. Ok (or_default conn empty_db)))"

definition store_dir :: "string \<Rightarrow> string option" where
  "store_dir path = Option.bind (path_parent path) (\<lambda>d. if d = [] then None else Some d)"

definition store_open :: "store_host \<Rightarrow> string \<Rightarrow> store_error + db" where
  "store_open sh path =
     try_then (case store_dir path of
         None \<Rightarrow> Ok ()
       | Some dir \<Rightarrow> map_err (Creating_Dir dir) (sh_create_dir_all sh dir)) (\<lambda>_.
     try_then (map_err (Opening_Store path) (sh_connect sh path)) (store_init sh))"

definition store_open_in_memory :: "store_host \<Rightarrow> store_error + db" where
  "store_open_in_memory sh = try_then (map_err Preparing_Store (sh_connect_in_memory sh)) (store_init sh)"

section \<open>From the command line to the running server\<close>

datatype boot_error =
    Boot_Config config_error
  | Boot_Start start_error
  | Boot_Store store_error

record 'h boot_env =
  bt_read :: "string \<Rightarrow> string + string"
  bt_config_toml :: "string \<Rightarrow> string + config_table"
  bt_languages_toml :: "string \<Rightarrow> string + registry"
  bt_problems :: problem_env
  bt_temp_dir :: string
  bt_host :: "'h host_ops"
  bt_store :: store_host

definition boot ::
  "'h boot_env \<Rightarrow> ('h iso_world, u32, 'c, 'r) server_env \<Rightarrow> string list \<Rightarrow> string option \<Rightarrow> 'h \<Rightarrow>
   boot_error + ('h iso_world, u32, 'c, 'r) server_env \<times> ('h iso_world, 'c) server" where
  "boot b base args var h =
     try_then (map_err Boot_Config (load_config (bt_read b) (bt_config_toml b) (bt_temp_dir b) (config_path args var)))
       (\<lambda>cfg. let scfg = cf_server cfg in
     try_then (map_err (\<lambda>e. Boot_Start (Start_Languages e))
       (load_languages (bt_read b) (bt_languages_toml b) (sc_languages_file scfg))) (\<lambda>langs.
     try_then (map_err (\<lambda>e. Boot_Start (Start_Problems e)) (load_problems (bt_problems b) (sc_problems_dir scfg)))
       (\<lambda>problems.
     if langs = [] then Err (Boot_Start (Start_NoLanguages (sc_languages_file scfg)))
     else try_then (map_err (\<lambda>e. Boot_Start (Start_Sandbox e)) (start_sandbox (bt_host b) (cf_sandbox cfg) h)) (\<lambda>pool.
     try_then (map_err Boot_Store (store_open (bt_store b) (sc_database scfg))) (\<lambda>d.
     let (requeued, d') = requeue_inflight d
     in Ok (base\<lparr>en_config := scfg, en_sandbox := isolate_ops (bt_host b) (cf_sandbox cfg), en_languages := langs,
              en_judge_config := cf_judge cfg, en_problems := problems\<rparr>, new_server scfg d' pool))))))"

text \<open>As many workers as the backend has boxes.\<close>

definition spawned :: "isolate_config \<Rightarrow> ('s, 'c) server \<Rightarrow> ('s, 'b, 'c) system" where
  "spawned icfg w = \<lparr>sy_server = w, sy_workers = replicate (unat (ic_slots icfg)) (At_Loop 0)\<rparr>"

section \<open>What the start does\<close>

lemma empty_config_file:
  "config_of temp_dir \<lparr>ct_server = None, ct_sandbox = None, ct_judge = None\<rparr> =
     \<lparr>cf_server = default_server_config, cf_sandbox = default_isolate_config temp_dir, cf_judge = default_judge_config\<rparr>"
  by (simp add: config_of_def server_section_def isolate_section_def judge_section_def)

lemma empty_server_table:
  "server_config_of \<lparr>st_listen = None, st_database = None, st_problems_dir = None, st_languages_file = None,
     st_lease_seconds = None, st_max_attempts = None, st_max_source_bytes = None, st_run_queue_capacity = None,
     st_run_ttl_seconds = None\<rparr> = server_section None"
  by (simp add: server_config_of_def server_section_def Let_def)

lemma store_open_Ok:
  "store_open sh path = Ok d \<longleftrightarrow>
     (\<forall>dir. store_dir path = Some dir \<longrightarrow> sh_create_dir_all sh dir = Ok ()) \<and>
     (\<exists>conn. sh_connect sh path = Ok conn \<and> sh_busy_timeout sh = Ok () \<and> sh_execute_schema sh = Ok () \<and>
        d = or_default conn empty_db)"
  by (auto simp: store_open_def store_init_def try_then_Ok_iff split: option.splits)

text \<open>An existing database is opened as it was left, a new one is empty.\<close>

lemma store_open_existing: "store_open sh path = Ok d \<Longrightarrow> sh_connect sh path = Ok (Some d') \<Longrightarrow> d = d'"
  by (auto simp: store_open_Ok)

lemma store_open_new: "store_open sh path = Ok d \<Longrightarrow> sh_connect sh path = Ok None \<Longrightarrow> d = empty_db"
  by (auto simp: store_open_Ok)

lemma boot_starts:
  assumes "boot b base args var h = Ok (env, w)"
    and cfg: "load_config (bt_read b) (bt_config_toml b) (bt_temp_dir b) (config_path args var) = Ok cfg"
  obtains d where "store_open (bt_store b) (sc_database (cf_server cfg)) = Ok d"
    "start_server (bt_host b) (cf_sandbox cfg) (bt_read b) (bt_languages_toml b) (bt_problems b)
       (base\<lparr>en_config := cf_server cfg, en_judge_config := cf_judge cfg\<rparr>) h d = Ok (env, w)"
proof -
  obtain langs problems pool d where
    parts: "load_languages (bt_read b) (bt_languages_toml b) (sc_languages_file (cf_server cfg)) = Ok langs"
      "load_problems (bt_problems b) (sc_problems_dir (cf_server cfg)) = Ok problems" "langs \<noteq> []"
      "start_sandbox (bt_host b) (cf_sandbox cfg) h = Ok pool"
    and d: "store_open (bt_store b) (sc_database (cf_server cfg)) = Ok d"
    and env: "env = base\<lparr>en_config := cf_server cfg, en_sandbox := isolate_ops (bt_host b) (cf_sandbox cfg),
        en_languages := langs, en_judge_config := cf_judge cfg, en_problems := problems\<rparr>"
      "w = new_server (cf_server cfg) (snd (requeue_inflight d)) pool"
    using assms by (auto simp: boot_def Let_def split_beta try_then_Ok_iff split: if_splits)
  show thesis
    by (rule that [OF d]) (simp add: start_server_def parts env Let_def split_beta)
qed

lemma start_env:
  assumes "start_server ho icfg read toml penv base h d = Ok (env, w)"
  shows "en_config env = en_config base" "en_sandbox env = isolate_ops ho icfg"
    "\<exists>pool. start_sandbox ho icfg h = Ok pool \<and> w = new_server (en_config base) (snd (requeue_inflight d)) pool"
  using assms by (auto simp: start_server_def Let_def split_beta try_then_Ok_iff split: if_splits)

lemma keeps_done_get:
  assumes "keeps_done d d'" "distinct (map rw_id (db_rows d'))"
    and "store_get de i d = Some sub" "sm_status sub = S_Done"
  shows "store_get de i d' = Some sub"
proof -
  obtain r where r: "r \<in> set (db_rows d)" "rw_id r = i" "sub = row_to_submission de r"
    using assms(3) find_row_in by (fastforce simp: store_get_def)
  then have "rw_status r = ''DONE''"
    using assms(4) by (auto simp: row_to_submission_def parse_status_def split: if_splits)
  with assms(1) r have "r \<in> set (db_rows d')" by (simp add: keeps_done_def)
  with assms(2) r show ?thesis by (auto simp: store_get_def find_row_distinct)
qed

text \<open>
  Booting on the database that a running server leaves is the move \<open>Restart\<close> of the running system,
  which therefore models what \<open>main\<close> does.
\<close>

lemma boot_is_restart:
  assumes boot: "boot b base args var h = Ok (env, w)"
    and cfg: "load_config (bt_read b) (bt_config_toml b) (bt_temp_dir b) (config_path args var) = Ok cfg"
    and ids: "unat (ic_first_box_id (cf_sandbox cfg)) + unat (ic_slots (cf_sandbox cfg)) < 2 ^ 32"
    and left: "sh_connect (bt_store b) (sc_database (cf_server cfg)) = Ok (Some (sv_db (sy_server S)))"
  shows "\<exists>pool. pool_ready (cf_sandbox cfg) pool \<and>
    restarted env pool (sy_server S) = w\<lparr>sv_access := sv_access (sy_server S)\<rparr>"
proof -
  obtain d where d: "store_open (bt_store b) (sc_database (cf_server cfg)) = Ok d"
    and st: "start_server (bt_host b) (cf_sandbox cfg) (bt_read b) (bt_languages_toml b) (bt_problems b)
       (base\<lparr>en_config := cf_server cfg, en_judge_config := cf_judge cfg\<rparr>) h d = Ok (env, w)"
    by (rule boot_starts [OF boot cfg])
  obtain pool where pool: "start_sandbox (bt_host b) (cf_sandbox cfg) h = Ok pool"
    and w: "w = new_server (cf_server cfg) (snd (requeue_inflight d)) pool"
    using start_env(3) [OF st] by auto
  have "d = sv_db (sy_server S)" by (rule store_open_existing [OF d left])
  with start_sandbox_ready [OF pool ids] start_env(1) [OF st] w show ?thesis
    by (auto simp: restarted_def new_server_def)
qed

section \<open>After a crash\<close>

text \<open>C1: nothing is lost in a crash. Let a server have run in any way, with any number of workers and
under any interleaving, and stop at any moment, with submissions waiting, half judged or done. When
the program is started again and finds the database file of that moment, a worker that is left
alone brings every submission to a verdict, within as many turns as there are submissions times
the configured attempts and whatever the host does; what was shown as DONE before the crash
reads the same, no submission is lost or invented, and all boxes are free again.\<close>

theorem crash_recovery:
  assumes before: "alone before" "reachable before fresh n S"
    and boot: "boot b base args var h = Ok (env, w)"
    and cfg: "load_config (bt_read b) (bt_config_toml b) (bt_temp_dir b) (config_path args var) = Ok cfg"
    and left: "sh_connect (bt_store b) (sc_database (cf_server cfg)) = Ok (Some (sv_db (sy_server S)))"
    and ids: "unat (ic_first_box_id (cf_sandbox cfg)) + unat (ic_slots (cf_sandbox cfg)) < 2 ^ 32"
    and base: "alone base" "writes_json base"
    and attempts: "\<forall>r \<in> set (db_rows (sv_db (sy_server S))). rw_attempt r < k"
      "uint (sc_max_attempts (cf_server cfg)) \<le> k" "k < 2 ^ 32 - 1"
    and turns: "length (db_rows (sv_db (sy_server S))) * max 1 (unat (sc_max_attempts (cf_server cfg))) \<le> m"
  shows "\<exists>ts s' w'. worker_loop env m 0 w = Some (ts, s', w') \<and>
    map rw_id (db_rows (sv_db w')) = map rw_id (db_rows (sv_db (sy_server S))) \<and>
    list_all (\<lambda>r. rw_status r = ''DONE'' \<and> (\<exists>v. rw_verdict r = Some (code v))) (db_rows (sv_db w')) \<and>
    live_boxes (sv_sandbox w') = 0 \<and>
    (\<forall>i sub. store_get de i (sv_db (sy_server S)) = Some sub \<longrightarrow> sm_status sub = S_Done \<longrightarrow>
       store_get de i (sv_db w') = Some sub)"
proof -
  let ?d = "sv_db (sy_server S)"
  have "tokens_fit ?d" using attempts by (fastforce simp: tokens_fit_def)
  then have inv: "store_inv ?d" using reachable_safe [OF before] by (simp add: sys_ok_def)
  obtain d where d: "store_open (bt_store b) (sc_database (cf_server cfg)) = Ok d"
    and st: "start_server (bt_host b) (cf_sandbox cfg) (bt_read b) (bt_languages_toml b) (bt_problems b)
       (base\<lparr>en_config := cf_server cfg, en_judge_config := cf_judge cfg\<rparr>) h d = Ok (env, w)"
    by (rule boot_starts [OF boot cfg])
  have "d = ?d" by (rule store_open_existing [OF d left])
  note st = st [unfolded this]
  have "\<exists>ts s' w'. worker_loop env m 0 w = Some (ts, s', w') \<and> keeps_done ?d (sv_db w') \<and>
    map rw_id (db_rows (sv_db w')) = map rw_id (db_rows ?d) \<and>
    list_all (\<lambda>r. rw_status r = ''DONE'' \<and> (\<exists>v. rw_verdict r = Some (code v))) (db_rows (sv_db w')) \<and>
    live_boxes (sv_sandbox w') = 0"
    by (rule restart_judges_everything [OF st ids _ _ inv attempts(1)])
      (use base attempts turns in \<open>simp_all add: alone_def writes_json_def\<close>)
  then obtain ts s' w' where w': "worker_loop env m 0 w = Some (ts, s', w')" "keeps_done ?d (sv_db w')"
    "map rw_id (db_rows (sv_db w')) = map rw_id (db_rows ?d)"
    "list_all (\<lambda>r. rw_status r = ''DONE'' \<and> (\<exists>v. rw_verdict r = Some (code v))) (db_rows (sv_db w'))"
    "live_boxes (sv_sandbox w') = 0" by blast
  have "distinct (map rw_id (db_rows (sv_db w')))" using inv w'(3) by (simp add: store_inv_def)
  with w' keeps_done_get [OF w'(2)] show ?thesis by blast
qed

text \<open>A server that crashed right after a worker claimed its only submission.\<close>

definition sample_boot :: "nat boot_env" where
  "sample_boot = \<lparr>bt_read = (\<lambda>_. Ok []),
     bt_config_toml = (\<lambda>_. Ok \<lparr>ct_server = None, ct_sandbox = None, ct_judge = None\<rparr>),
     bt_languages_toml = (\<lambda>_. Ok [(''rust'', sample_language)]), bt_problems = sample_env\<lparr>pe_read_dir := (\<lambda>_. Ok [])\<rparr>,
     bt_temp_dir = ''/tmp'', bt_host = sample_host,
     bt_store = \<lparr>sh_create_dir_all = (\<lambda>_. Ok ()), sh_connect = (\<lambda>_. Ok (Some (sv_db claimed_server))),
       sh_connect_in_memory = Ok None, sh_busy_timeout = Ok (), sh_execute_schema = Ok ()\<rparr>\<rparr>"

abbreviation sample_crashed :: "(nat iso_world, u32, submission list) system" where
  "sample_crashed \<equiv> sys_at 0 (replicate 2 (At_Loop 0))
     (Wants_Box (Submission_Task posted_job sum_problem) 0) claimed_server"

lemma sample_crashed_reachable: "reachable system_env (pool_ready sample_isolate) 2 sample_crashed"
  using reachable_run [OF sample_start_reachable _ sample_claiming] by simp

lemma sample_boot_config:
  "load_config (bt_read sample_boot) (bt_config_toml sample_boot) (bt_temp_dir sample_boot) path =
     Ok \<lparr>cf_server = default_server_config, cf_sandbox = sample_isolate, cf_judge = default_judge_config\<rparr>"
  by (simp add: load_config_def sample_boot_def empty_config_file sample_isolate_def)

lemma sample_boots: "\<exists>env w. boot sample_boot sample_base [] None 0 = Ok (env, w)"
proof -
  have "load_problems (sample_env\<lparr>pe_read_dir := (\<lambda>_. Ok [])\<rparr>) x = Ok []" for x
    by (simp add: load_problems_def List.map_filter_def)
  moreover have "case start_sandbox sample_host sample_isolate 0 of Ok pool \<Rightarrow> True | Err e \<Rightarrow> False" by code_simp
  moreover have "load_languages (\<lambda>_. Ok []) (\<lambda>_. Ok [(''rust'', sample_language)]) x =
      Ok [(''rust'', sample_language\<lparr>lg_id := ''rust''\<rparr>)]" for x
    by (simp add: load_languages_def sample_registry_loads)
  moreover have "store_open (bt_store sample_boot) x = Ok (sv_db claimed_server)" for x
    by (simp add: store_open_Ok sample_boot_def)
  ultimately show ?thesis
    by (simp add: boot_def sample_boot_config) (auto simp: sample_boot_def Let_def split_beta split: sum.splits)
qed

theorem crash_recovery_witness:
  "\<exists>env w ts s' w'. boot sample_boot sample_base [] None 0 = Ok (env, w) \<and>
     worker_loop env 3 0 w = Some (ts, s', w') \<and> map rw_id (db_rows (sv_db w')) = [''s1''] \<and>
     list_all (\<lambda>r. rw_status r = ''DONE'') (db_rows (sv_db w'))"
proof -
  obtain env w where boot: "boot sample_boot sample_base [] None 0 = Ok (env, w)" using sample_boots by blast
  have base: "alone sample_base" "writes_json sample_base"
    by (simp_all add: alone_def writes_json_def sample_base_def sample_writer_def)
  have db: "sv_db (sy_server sample_crashed) = sv_db claimed_server" by (simp add: sys_at_def)
  have left: "sh_connect (bt_store sample_boot) x = Ok (Some (sv_db (sy_server sample_crashed)))" for x
    by (simp add: db) (simp add: sample_boot_def)
  have rows: "map rw_id (db_rows (sv_db claimed_server)) = [''s1'']" "length (db_rows (sv_db claimed_server)) = 1"
    "\<forall>r \<in> set (db_rows (sv_db claimed_server)). rw_attempt r < 3"
    by (simp_all add: claimed_server_def claim_row_def posted_row_def new_row_def)
  have "\<exists>ts s' w'. worker_loop env 3 0 w = Some (ts, s', w') \<and>
      map rw_id (db_rows (sv_db w')) = map rw_id (db_rows (sv_db (sy_server sample_crashed))) \<and>
      list_all (\<lambda>r. rw_status r = ''DONE'' \<and> (\<exists>v. rw_verdict r = Some (code v))) (db_rows (sv_db w'))"
    using crash_recovery [OF system_alone sample_crashed_reachable boot sample_boot_config left _ base,
        where k = 3 and m = 3 and de = sample_reader] sample_ids_fit rows
    by (simp add: db default_server_config_def) (elim exE conjE, intro exI conjI, assumption+)
  with boot rows(1) show ?thesis by (fastforce simp: db list_all_iff)
qed

end
