(* ===== verification/Cli_Main.thy ===== *)
theory Cli_Main
  imports Judge_Guarantees Judge_Problem_Guarantees
begin

text \<open>
  \<open>crates/cli/src/main.rs\<close>: judging one source file, and checking that the files in a problem's
  \<open>solutions/\<close> get the verdicts their names promise. What is printed is a list of records, one for
  each line or result the tool prints; their text, the arguments and the configuration that is read
  before the command runs are in \<open>Cli_Text\<close>.
\<close>

section \<open>Data\<close>

datatype cli_error =
    Cli_Problem problem_error
  | Cli_Reading string string
  | Cli_NoLanguage string
  | Cli_NoSolutions string string
  | Cli_Judge judge_error
  | Cli_NoProblems
  | Cli_Failures nat

datatype cli_line =
    L_Result bool judge_result
  | L_Problem string nat string
  | L_Skip string
  | L_Solution bool string verdict judge_result
  | L_Compiler string
  | L_NoAccepted

section \<open>One source file\<close>

text \<open>The first language, in the order of their ids, whose source file has the extension.\<close>

definition language_has_extension :: "registry \<Rightarrow> string \<Rightarrow> string \<Rightarrow> bool" where
  "language_has_extension langs ext i =
     (case get_language langs i of
        None \<Rightarrow> False
      | Some l \<Rightarrow> Option.bind (extension (lg_source_file l)) to_str = Some ext)"

definition source_extension :: "string \<Rightarrow> string" where
  "source_extension source =
     (case Option.bind (extension source) to_str of Some e \<Rightarrow> e | None \<Rightarrow> [])"

definition language_for :: "registry \<Rightarrow> string \<Rightarrow> cli_error + string" where
  "language_for langs source =
     (case find (language_has_extension langs (source_extension source)) (language_ids langs) of
        Some i \<Rightarrow> Ok i
      | None \<Rightarrow> Err (Cli_NoLanguage (source_extension source)))"

definition cli_request :: "problem \<Rightarrow> string \<Rightarrow> string \<Rightarrow> bool \<Rightarrow> judge_request" where
  "cli_request p lang src stop =
     \<lparr>rq_language = lang, rq_source = src, rq_tests = pr_tests p,
      rq_time_limit_ms = pr_time_limit_ms p, rq_memory_limit_kb = pr_memory_limit_kb p,
      rq_comparer = pr_comparer p, rq_stop_on_first_failure = stop,
      rq_capture_output = False, rq_show_failed_input = True\<rparr>"

text \<open>As in \<open>Judge::judge\<close>, \<open>None\<close> is a call that waits for a box.\<close>

definition cli_run ::
  "('s, 'b) sandbox \<Rightarrow> problem_env \<Rightarrow> registry \<Rightarrow> judge_config \<Rightarrow> problem \<Rightarrow> string \<Rightarrow> string \<Rightarrow> bool \<Rightarrow>
   's \<Rightarrow> ((cli_error + judge_result) \<times> 's) option" where
  "cli_run sb env langs cfg p lang source stop s =
     (case pe_read_to_string env source of
        Err e \<Rightarrow> Some (Err (Cli_Reading source e), s)
      | Ok src \<Rightarrow>
          map_option (\<lambda>(r, s', _). (map_err Cli_Judge r, s'))
            (judge sb langs cfg (cli_request p lang src stop) False s))"

text \<open>\<open>Cmd::Judge\<close>; \<open>Ok\<close> carries the exit code.\<close>

definition judge_command ::
  "('s, 'b) sandbox \<Rightarrow> problem_env \<Rightarrow> registry \<Rightarrow> judge_config \<Rightarrow> string \<Rightarrow> string option \<Rightarrow> bool \<Rightarrow> bool \<Rightarrow>
   string \<Rightarrow> 's \<Rightarrow> ((cli_error + nat) \<times> 's \<times> cli_line list) option" where
  "judge_command sb env langs cfg dir lang every json source s =
     (case try_then (map_err Cli_Problem (load_problem env dir)) (\<lambda>p.
           try_then (case lang of Some l \<Rightarrow> Ok l | None \<Rightarrow> language_for langs source) (\<lambda>l. Ok (p, l))) of
        Err e \<Rightarrow> Some (Err e, s, [])
      | Ok (p, l) \<Rightarrow>
          map_option (\<lambda>(r, s'). case r of
              Err e \<Rightarrow> (Err e, s', [])
            | Ok res \<Rightarrow> (Ok (if jr_verdict res \<noteq> Accepted then 1 else 0), s', [L_Result json res]))
            (cli_run sb env langs cfg p l source (\<not> every) s))"

section \<open>Checking a problem\<close>

definition label_separator :: "char \<Rightarrow> bool" where
  "label_separator c \<longleftrightarrow> c = CHR ''-'' \<or> c = CHR ''_'' \<or> c = CHR ''.''"

definition expected_verdict :: "string \<Rightarrow> verdict option" where
  "expected_verdict file =
     Option.bind (Option.bind (file_stem file) to_str) (\<lambda>stem.
     from_code (map ascii_uppercase (hd (split_on label_separator stem))))"

text \<open>The files of \<open>solutions/\<close>; paths in one directory are ordered by the bytes of their names.\<close>

definition solution_files :: "problem_env \<Rightarrow> string \<Rightarrow> (string + string) list \<Rightarrow> string list" where
  "solution_files env solutions es =
     sort (filter (pe_is_file env) (map (path_join solutions) (List.map_filter ok_value es)))"

fun check_files ::
  "('s, 'b) sandbox \<Rightarrow> problem_env \<Rightarrow> registry \<Rightarrow> judge_config \<Rightarrow> problem \<Rightarrow> string list \<Rightarrow> nat \<Rightarrow> nat \<Rightarrow>
   's \<Rightarrow> cli_line list \<Rightarrow> ((cli_error + nat \<times> nat) \<times> 's \<times> cli_line list) option" where
  "check_files sb env langs cfg p [] accepted failures s out = Some (Ok (accepted, failures), s, out)"
| "check_files sb env langs cfg p (file # files) accepted failures s out =
     (let name = from_utf8_lossy (or_default (file_name file) [])
      in case expected_verdict file of
           None \<Rightarrow> check_files sb env langs cfg p files accepted failures s (out @ [L_Skip name])
         | Some want \<Rightarrow>
             (case language_for langs file of
                Err e \<Rightarrow> Some (Err e, s, out)
              | Ok lang \<Rightarrow>
                  (case cli_run sb env langs cfg p lang file True s of
                     None \<Rightarrow> None
                   | Some (Err e, s') \<Rightarrow> Some (Err e, s', out)
                   | Some (Ok res, s') \<Rightarrow>
                       (let ok = (jr_verdict res = want)
                        in check_files sb env langs cfg p files
                             (accepted + of_bool (ok \<and> want = Accepted)) (failures + of_bool (\<not> ok)) s'
                             (out @ [L_Solution ok name want res] @
                               (case jr_compile_output res of
                                  Some txt \<Rightarrow> if ok then [] else [L_Compiler txt]
                                | None \<Rightarrow> []))))))"

text \<open>The version has 64 characters, so that printing the first 12 of them does not panic.\<close>

definition check_problem ::
  "('s, 'b) sandbox \<Rightarrow> problem_env \<Rightarrow> registry \<Rightarrow> judge_config \<Rightarrow> string \<Rightarrow> 's \<Rightarrow> cli_line list \<Rightarrow>
   ((cli_error + nat) \<times> 's \<times> cli_line list) option" where
  "check_problem sb env langs cfg dir s out =
     (case load_problem env dir of
        Err e \<Rightarrow> Some (Err (Cli_Problem e), s, out)
      | Ok p \<Rightarrow>
          (let out = out @ [L_Problem (pr_slug p) (length (pr_tests p)) (take 12 (pr_version p))];
               solutions = path_join dir ''solutions''
           in case pe_read_dir env solutions of
                Err e \<Rightarrow> Some (Err (Cli_NoSolutions dir e), s, out)
              | Ok es \<Rightarrow>
                  map_option (\<lambda>(r, s', out').
                      case r of
                        Err e \<Rightarrow> (Err e, s', out')
                      | Ok (accepted, failures) \<Rightarrow>
                          if accepted = 0 then (Ok (failures + 1), s', out' @ [L_NoAccepted])
                          else (Ok failures, s', out'))
                    (check_files sb env langs cfg p (solution_files env solutions es) 0 0 s out)))"

text \<open>\<open>Cmd::CheckProblem\<close>.\<close>

fun check_problems ::
  "('s, 'b) sandbox \<Rightarrow> problem_env \<Rightarrow> registry \<Rightarrow> judge_config \<Rightarrow> string list \<Rightarrow> nat \<Rightarrow> 's \<Rightarrow> cli_line list \<Rightarrow>
   ((cli_error + nat) \<times> 's \<times> cli_line list) option" where
  "check_problems sb env langs cfg [] failures s out = Some (Ok failures, s, out)"
| "check_problems sb env langs cfg (dir # dirs) failures s out =
     (case check_problem sb env langs cfg dir s out of
        None \<Rightarrow> None
      | Some (Err e, s', out') \<Rightarrow> Some (Err e, s', out')
      | Some (Ok n, s', out') \<Rightarrow> check_problems sb env langs cfg dirs (failures + n) s' out')"

definition check_command ::
  "('s, 'b) sandbox \<Rightarrow> problem_env \<Rightarrow> registry \<Rightarrow> judge_config \<Rightarrow> string list \<Rightarrow> 's \<Rightarrow>
   ((cli_error + unit) \<times> 's \<times> cli_line list) option" where
  "check_command sb env langs cfg dirs s =
     (if dirs = [] then Some (Err Cli_NoProblems, s, [])
      else map_option (\<lambda>(r, s', out).
          (try_then r (\<lambda>failures. if failures > 0 then Err (Cli_Failures failures) else Ok ()), s', out))
        (check_problems sb env langs cfg dirs 0 s []))"

section \<open>Reports\<close>

text \<open>
  What checking one problem comes to: the files whose names promise a verdict, each with the promise
  and the result it got from the judge, in a run that started when the backend was \<open>ready\<close>.
\<close>

type_synonym report = "(string \<times> verdict \<times> judge_result) list"

definition judged_as ::
  "('s, 'b) sandbox \<Rightarrow> ('s \<Rightarrow> bool) \<Rightarrow> problem_env \<Rightarrow> registry \<Rightarrow> judge_config \<Rightarrow> problem \<Rightarrow> string \<Rightarrow>
   judge_error + judge_result \<Rightarrow> bool" where
  "judged_as sb ready env langs cfg p file r \<longleftrightarrow>
     (\<exists>i src s s' ps. language_for langs file = Ok i \<and> pe_read_to_string env file = Ok src \<and> ready s \<and>
        judge sb langs cfg (cli_request p i src True) False s = Some (r, s', ps))"

definition labelled :: "string list \<Rightarrow> (string \<times> verdict) list" where
  "labelled files = List.map_filter (\<lambda>f. map_option (Pair f) (expected_verdict f)) files"

definition broken_promises :: "report \<Rightarrow> nat" where
  "broken_promises xs = length (filter (\<lambda>(f, want, res). jr_verdict res \<noteq> want) xs)"

definition references :: "report \<Rightarrow> nat" where
  "references xs = length (filter (\<lambda>(f, want, res). want = Accepted \<and> jr_verdict res = Accepted) xs)"

definition report_failures :: "report \<Rightarrow> nat" where
  "report_failures xs = broken_promises xs + (if references xs = 0 then 1 else 0)"

definition solution_line :: "string \<times> verdict \<times> judge_result \<Rightarrow> cli_line" where
  "solution_line x = (case x of (f, want, res) \<Rightarrow>
     L_Solution (jr_verdict res = want) (from_utf8_lossy (or_default (file_name f) [])) want res)"

fun is_solution_line :: "cli_line \<Rightarrow> bool" where
  "is_solution_line (L_Solution ok name want res) \<longleftrightarrow> True"
| "is_solution_line l \<longleftrightarrow> False"

definition problem_checked ::
  "('s, 'b) sandbox \<Rightarrow> ('s \<Rightarrow> bool) \<Rightarrow> problem_env \<Rightarrow> registry \<Rightarrow> judge_config \<Rightarrow> string \<Rightarrow> report \<Rightarrow> bool" where
  "problem_checked sb ready env langs cfg dir xs \<longleftrightarrow>
     (\<exists>p es. load_problem env dir = Ok p \<and> pe_read_dir env (path_join dir ''solutions'') = Ok es \<and>
        map (\<lambda>(f, want, res). (f, want)) xs = labelled (solution_files env (path_join dir ''solutions'') es) \<and>
        list_all (\<lambda>(f, want, res). judged_as sb ready env langs cfg p f (Ok res)) xs)"

text \<open>Why a check could not be brought to its end.\<close>

definition file_error ::
  "('s, 'b) sandbox \<Rightarrow> ('s \<Rightarrow> bool) \<Rightarrow> problem_env \<Rightarrow> registry \<Rightarrow> judge_config \<Rightarrow> problem \<Rightarrow> string \<Rightarrow> cli_error \<Rightarrow> bool" where
  "file_error sb ready env langs cfg p f e \<longleftrightarrow> expected_verdict f \<noteq> None \<and>
     (case e of
        Cli_NoLanguage ext \<Rightarrow> language_for langs f = Err e
      | Cli_Reading g msg \<Rightarrow> g = f \<and> pe_read_to_string env f = Err msg
      | Cli_Judge je \<Rightarrow> judged_as sb ready env langs cfg p f (Err je)
      | _ \<Rightarrow> False)"

definition problem_error ::
  "('s, 'b) sandbox \<Rightarrow> ('s \<Rightarrow> bool) \<Rightarrow> problem_env \<Rightarrow> registry \<Rightarrow> judge_config \<Rightarrow> string \<Rightarrow> cli_error \<Rightarrow> bool" where
  "problem_error sb ready env langs cfg dir e \<longleftrightarrow>
     (case load_problem env dir of
        Err pe \<Rightarrow> e = Cli_Problem pe
      | Ok p \<Rightarrow>
          (case pe_read_dir env (path_join dir ''solutions'') of
             Err msg \<Rightarrow> e = Cli_NoSolutions dir msg
           | Ok es \<Rightarrow> \<exists>f \<in> set (solution_files env (path_join dir ''solutions'') es).
               file_error sb ready env langs cfg p f e))"

end
