(* ===== verification/Cli_Text.thy ===== *)
theory Cli_Text
  imports Cli_Main Judge_Config Judge_Isolate_Guarantees
begin

text \<open>
  The rest of \<open>crates/cli/src/main.rs\<close>: the engine's configuration, the arguments, \<open>main\<close> with its exit
  code, and the text that is printed for the records of \<open>Cli_Main\<close>. The argument parser yields a
  \<open>cli\<close>; the TOML parser and the JSON writer are parameters.
\<close>

section \<open>Text\<close>

text \<open>Width and padding count characters: every byte of a string that does not continue one.\<close>

definition char_count :: "string \<Rightarrow> nat" where
  "char_count s = length (filter (\<lambda>c. \<not> cont (byte c)) s)"

definition pad_right :: "nat \<Rightarrow> string \<Rightarrow> string" where
  "pad_right n s = s @ replicate (n - char_count s) (CHR '' '')"

definition pad_left :: "nat \<Rightarrow> string \<Rightarrow> string" where
  "pad_left n s = replicate (n - char_count s) (CHR '' '') @ s"

definition show_u64 :: "u64 \<Rightarrow> string" where
  "show_u64 w = show_nat (unat w)"

definition println :: "string \<Rightarrow> string" where
  "println s = s @ [newline]"

definition last_line :: "string \<Rightarrow> string" where
  "last_line s = (case rev (str_lines s) of [] \<Rightarrow> [] | l # _ \<Rightarrow> l)"

text \<open>\<open>Display\<close> of a verdict is its code.\<close>

definition verdict_text :: "verdict \<Rightarrow> string" where
  "verdict_text v = code v"

definition print_test :: "test_result \<Rightarrow> string" where
  "print_test t =
     println (''  '' @ pad_right 12 (tr_name t) @ '' '' @ pad_right 4 (code (tr_verdict t)) @ '' '' @
       pad_left 6 (show_u64 (tr_time_ms t)) @ '' ms '' @ pad_left 8 (show_u64 (tr_memory_kb t)) @ '' kB  '' @
       or_default (tr_message t) []) @
     (case tr_stderr t of None \<Rightarrow> [] | Some err \<Rightarrow> println (''    stderr: '' @ last_line err))"

definition print_result :: "judge_result \<Rightarrow> string" where
  "print_result res =
     println (''verdict: '' @ verdict_text (jr_verdict res) @ ''   time: '' @ show_u64 (jr_time_ms res) @ '' ms   memory: '' @
       show_u64 (jr_memory_kb res) @ '' kB'') @
     (case jr_compile_output res of None \<Rightarrow> [] | Some out \<Rightarrow> println (''--- compiler ---'' @ newline # out)) @
     concat (map print_test (jr_tests res)) @
     (if length (jr_tests res) < jr_tests_total res
      then println (''  ('' @ show_nat (length (jr_tests res)) @ '' of '' @ show_nat (jr_tests_total res) @ '' tests run)'')
      else [])"

definition print_solution :: "bool \<Rightarrow> string \<Rightarrow> verdict \<Rightarrow> judge_result \<Rightarrow> string" where
  "print_solution ok name want res =
     println (''  '' @ (if ok then ''ok  '' else ''FAIL'') @ '' '' @ pad_right 24 name @ '' want '' @
       pad_right 3 (code want) @ '' got '' @ pad_right 3 (code (jr_verdict res)) @ '' '' @
       pad_left 6 (show_u64 (jr_time_ms res)) @ '' ms '' @ pad_left 8 (show_u64 (jr_memory_kb res)) @ '' kB'' @
       (case jr_failed_test res of None \<Rightarrow> [] | Some t \<Rightarrow> ''  (first failing test: '' @ t @ '')''))"

fun print_line :: "(judge_result \<Rightarrow> string) \<Rightarrow> cli_line \<Rightarrow> string" where
  "print_line to_json (L_Result json res) = (if json then println (to_json res) else print_result res)"
| "print_line to_json (L_Problem slug n v) =
     println (slug @ '' ('' @ show_nat n @ '' tests, version '' @ v @ '')'')"
| "print_line to_json (L_Skip name) = println (''  SKIP '' @ name @ '': file name does not start with a verdict code'')"
| "print_line to_json (L_Solution ok name want res) = print_solution ok name want res"
| "print_line to_json (L_Compiler out) = println out"
| "print_line to_json L_NoAccepted = println ''  FAIL no accepted reference solution; the tests are unverified''"

definition print_lines :: "(judge_result \<Rightarrow> string) \<Rightarrow> cli_line list \<Rightarrow> string" where
  "print_lines to_json ls = concat (map (print_line to_json) ls)"

section \<open>The engine's configuration\<close>

record engine_config =
  ec_sandbox :: isolate_config
  ec_judge :: judge_config

datatype engine_error =
    Engine_Io string
  | Engine_Toml string
  | Engine_Tables string

text \<open>
  Only two tables of the configuration are kept before they are read, so that the server's part of
  the file can have any shape. \<open>'v\<close> are TOML values.
\<close>

definition engine_tables :: "(string \<times> 'v) list \<Rightarrow> (string \<times> 'v) list" where
  "engine_tables table = filter (\<lambda>(k, v). k = ''sandbox'' \<or> k = ''judge'') table"

definition engine_config_of :: "string \<Rightarrow> isolate_table option \<times> judge_table option \<Rightarrow> engine_config" where
  "engine_config_of temp_dir t =
     \<lparr>ec_sandbox = isolate_section temp_dir (fst t), ec_judge = judge_section (snd t)\<rparr>"

record ('h, 'v) cli_env =
  ce_exists :: "string \<Rightarrow> bool"
  ce_toml :: "string \<Rightarrow> string + (string \<times> 'v) list"
  ce_try_into :: "(string \<times> 'v) list \<Rightarrow> string + isolate_table option \<times> judge_table option"
  ce_languages_toml :: "string \<Rightarrow> string + registry"
  ce_problems :: problem_env
  ce_temp_dir :: string
  ce_host :: "'h host_ops"
  ce_to_json :: "judge_result \<Rightarrow> string"

definition load_engine :: "('h, 'v) cli_env \<Rightarrow> string \<Rightarrow> engine_error + engine_config" where
  "load_engine env path =
     (if ce_exists env path
      then try_then (map_err Engine_Io (pe_read_to_string (ce_problems env) path)) (\<lambda>txt.
           try_then (map_err Engine_Toml (ce_toml env txt)) (\<lambda>table.
           try_then (map_err Engine_Tables (ce_try_into env (engine_tables table))) (\<lambda>t.
           Ok (engine_config_of (ce_temp_dir env) t))))
      else Ok (engine_config_of (ce_temp_dir env) (None, None)))"

section \<open>\<open>main\<close>\<close>

datatype cmd =
    Cmd_Judge string "string option" bool bool string
  | Cmd_Check "string list"

record cli =
  cl_config :: string
  cl_languages :: string
  cl_command :: cmd

datatype main_error =
    Main_Config engine_error
  | Main_Languages language_error
  | Main_Sandbox sandbox_error
  | Main_Command cli_error

definition cli_setup ::
  "('h, 'v) cli_env \<Rightarrow> cli \<Rightarrow> 'h \<Rightarrow> main_error + engine_config \<times> registry \<times> 'h iso_world" where
  "cli_setup env cli h =
     try_then (map_err Main_Config (load_engine env (cl_config cli))) (\<lambda>eng.
     try_then (map_err Main_Languages
       (load_languages (pe_read_to_string (ce_problems env)) (ce_languages_toml env) (cl_languages cli))) (\<lambda>langs.
     try_then (map_err Main_Sandbox (start_sandbox (ce_host env) (ec_sandbox eng) h)) (\<lambda>pool.
     Ok (eng, langs, pool))))"

fun run_command ::
  "('h, 'v) cli_env \<Rightarrow> engine_config \<Rightarrow> registry \<Rightarrow> cmd \<Rightarrow> 'h iso_world \<Rightarrow>
   ((cli_error + nat) \<times> 'h iso_world \<times> cli_line list) option" where
  "run_command env eng langs (Cmd_Judge dir lang every json source) s =
     judge_command (isolate_ops (ce_host env) (ec_sandbox eng)) (ce_problems env) langs (ec_judge eng)
       dir lang every json source s"
| "run_command env eng langs (Cmd_Check dirs) s =
     map_option (\<lambda>(r, s', out). (try_then r (\<lambda>_. Ok 0), s', out))
       (check_command (isolate_ops (ce_host env) (ec_sandbox eng)) (ce_problems env) langs (ec_judge eng) dirs s)"

text \<open>What \<open>main\<close> returns or exits with, and all it prints; \<open>None\<close> is a run that waits for a box.\<close>

definition cli_main :: "('h, 'v) cli_env \<Rightarrow> cli \<Rightarrow> 'h \<Rightarrow> ((main_error + nat) \<times> string) option" where
  "cli_main env cli h =
     (case cli_setup env cli h of
        Err e \<Rightarrow> Some (Err e, [])
      | Ok (eng, langs, pool) \<Rightarrow>
          map_option (\<lambda>(r, s', out). (map_err Main_Command r, print_lines (ce_to_json env) out))
            (run_command env eng langs (cl_command cli) pool))"

text \<open>An error that \<open>main\<close> returns is the exit code 1.\<close>

definition exit_code :: "main_error + nat \<Rightarrow> nat" where
  "exit_code r = (case r of Err e \<Rightarrow> 1 | Ok c \<Rightarrow> c)"

section \<open>The tool always ends\<close>

text \<open>A backend that has a box whenever the last one was given back.\<close>

locale ready_sandbox =
  fixes sb :: "('s, 'b) sandbox" and ready :: "'s \<Rightarrow> bool"
  assumes has_box: "ready s \<Longrightarrow> sb_acquire sb s \<noteq> None"
    and stays: "ready s \<Longrightarrow> judge sb langs cfg req l s = Some (r, s', ps) \<Longrightarrow> ready s'"
begin

lemma judge_ends:
  assumes "ready s"
  obtains r s' ps where "judge sb langs cfg req l s = Some (r, s', ps)" "ready s'"
proof -
  obtain a where "sb_acquire sb s = Some a" using has_box [OF assms] by blast
  from judge_returns [OF this] stays [OF assms] that show thesis by blast
qed

lemma run_ends:
  assumes "ready s"
  obtains r s' where "cli_run sb env langs cfg p l source stop s = Some (r, s')" "ready s'"
proof (cases "pe_read_to_string env source")
  case (Inr src)
  obtain r s' ps where "judge sb langs cfg (cli_request p l src stop) False s = Some (r, s', ps)" "ready s'"
    by (rule judge_ends [OF assms])
  with Inr that show thesis by (simp add: cli_run_def)
qed (use assms that in \<open>simp add: cli_run_def\<close>)

lemma judge_command_ends:
  assumes "ready s"
  obtains r s' ls where "judge_command sb env langs cfg dir lang every json source s = Some (r, s', ls)"
proof (cases "try_then (map_err Cli_Problem (load_problem env dir)) (\<lambda>p.
           try_then (case lang of Some l \<Rightarrow> Ok l | None \<Rightarrow> language_for langs source) (\<lambda>l. Ok (p, l)))")
  case (Inr pl)
  obtain p l where pl: "pl = (p, l)" by fastforce
  obtain r s' where "cli_run sb env langs cfg p l source (\<not> every) s = Some (r, s')" by (rule run_ends [OF assms])
  with Inr pl that show thesis by (cases r) (simp_all add: judge_command_def)
qed (use that in \<open>simp add: judge_command_def\<close>)

definition files_report ::
  "problem_env \<Rightarrow> registry \<Rightarrow> judge_config \<Rightarrow> problem \<Rightarrow> string list \<Rightarrow> nat \<Rightarrow> nat \<Rightarrow> cli_line list \<Rightarrow>
   cli_error + nat \<times> nat \<Rightarrow> cli_line list \<Rightarrow> bool" where
  "files_report env langs cfg p files a n out r out' \<longleftrightarrow>
     (case r of
        Err e \<Rightarrow> \<exists>f \<in> set files. file_error sb ready env langs cfg p f e
      | Ok (b, m) \<Rightarrow> \<exists>xs. map (\<lambda>(f, want, res). (f, want)) xs = labelled files \<and>
          list_all (\<lambda>(f, want, res). judged_as sb ready env langs cfg p f (Ok res)) xs \<and>
          b = a + references xs \<and> m = n + broken_promises xs \<and>
          filter is_solution_line out' = filter is_solution_line out @ map solution_line xs)"

lemma files_report_skip:
  assumes "files_report env langs cfg p files a n (out @ [L_Skip name]) r out'" "expected_verdict f = None"
  shows "files_report env langs cfg p (f # files) a n out r out'"
  using assms by (auto simp: files_report_def labelled_def map_filter_simps split: sum.splits prod.splits)

lemma files_report_error:
  "f \<in> set files \<Longrightarrow> file_error sb ready env langs cfg p f e \<Longrightarrow> files_report env langs cfg p files a n out (Err e) out'"
  by (auto simp: files_report_def)

lemma files_report_solution:
  assumes "files_report env langs cfg p files (a + of_bool (jr_verdict res = want \<and> want = Accepted))
      (n + of_bool (jr_verdict res \<noteq> want)) out1 r out'"
    and "filter is_solution_line out1 = filter is_solution_line out @ [solution_line (f, want, res)]"
    and "expected_verdict f = Some want" "judged_as sb ready env langs cfg p f (Ok res)"
  shows "files_report env langs cfg p (f # files) a n out r out'"
proof (cases r)
  case (Inl e)
  with assms(1) show ?thesis by (auto simp: files_report_def)
next
  case (Inr bm)
  obtain b m where bm: "bm = (b, m)" by fastforce
  with Inr assms(1) obtain xs where xs: "map (\<lambda>(f, want, res). (f, want)) xs = labelled files"
    "list_all (\<lambda>(f, want, res). judged_as sb ready env langs cfg p f (Ok res)) xs"
    "b = a + of_bool (jr_verdict res = want \<and> want = Accepted) + references xs"
    "m = n + of_bool (jr_verdict res \<noteq> want) + broken_promises xs"
    "filter is_solution_line out' = filter is_solution_line out1 @ map solution_line xs"
    by (auto simp: files_report_def)
  let ?xs = "(f, want, res) # xs"
  have "map (\<lambda>(f, want, res). (f, want)) ?xs = labelled (f # files)"
    using xs(1) assms(3) by (simp add: labelled_def map_filter_simps)
  moreover have "b = a + references ?xs" "m = n + broken_promises ?xs"
    using xs(3,4) by (auto simp: references_def broken_promises_def)
  ultimately show ?thesis
    using xs(2,5) assms(2,4) by (auto simp: files_report_def Inr bm intro!: exI [of _ ?xs])
qed

lemma check_files_report:
  assumes "ready s"
  shows "\<exists>r s' out'. check_files sb env langs cfg p files a n s out = Some (r, s', out') \<and> ready s' \<and>
    files_report env langs cfg p files a n out r out'"
  using assms
proof (induction files arbitrary: a n s out)
  case Nil
  then show ?case
    by (auto simp: files_report_def labelled_def List.map_filter_def references_def broken_promises_def)
next
  case (Cons sol files)
  show ?case
  proof (cases "expected_verdict sol")
    case None
    with Cons.IH [OF Cons.prems, of a n "out @ [L_Skip (from_utf8_lossy (or_default (file_name sol) []))]"]
    show ?thesis by (auto simp: Let_def intro: files_report_skip)
  next
    case (Some want)
    show ?thesis
    proof (cases "language_for langs sol")
      case (Inl e)
      then have "file_error sb ready env langs cfg p sol e"
        by (auto simp: file_error_def Some language_for_def split: option.splits)
      with Some Inl Cons.prems show ?thesis by (simp add: Let_def files_report_error [OF list.set_intros(1)])
    next
      case lang: (Inr l)
      show ?thesis
      proof (cases "pe_read_to_string env sol")
        case (Inl msg)
        then have "file_error sb ready env langs cfg p sol (Cli_Reading sol msg)" by (simp add: file_error_def Some)
        with Some lang Inl Cons.prems show ?thesis by (simp add: Let_def cli_run_def files_report_error [OF list.set_intros(1)])
      next
        case src: (Inr src)
        obtain r s1 ps where j: "judge sb langs cfg (cli_request p l src True) False s = Some (r, s1, ps)" "ready s1"
          by (rule judge_ends [OF Cons.prems])
        with lang src Cons.prems have judged: "judged_as sb ready env langs cfg p sol r"
          by (auto simp: judged_as_def)
        show ?thesis
        proof (cases r)
          case (Inl e)
          with judged have "file_error sb ready env langs cfg p sol (Cli_Judge e)" by (simp add: file_error_def Some)
          with Some lang src j Inl show ?thesis by (simp add: Let_def cli_run_def files_report_error [OF list.set_intros(1)])
        next
          case (Inr res)
          let ?ok = "jr_verdict res = want"
          let ?a = "a + of_bool (?ok \<and> want = Accepted)" and ?n = "n + of_bool (\<not> ?ok)"
            and ?out = "out @ [L_Solution ?ok (from_utf8_lossy (or_default (file_name sol) [])) want res] @
              (case jr_compile_output res of Some t \<Rightarrow> if ?ok then [] else [L_Compiler t] | None \<Rightarrow> [])"
          have "check_files sb env langs cfg p (sol # files) a n s out = check_files sb env langs cfg p files ?a ?n s1 ?out"
            using Some lang src j Inr by (simp add: Let_def cli_run_def)
          moreover have "filter is_solution_line ?out = filter is_solution_line out @ [solution_line (sol, want, res)]"
            by (simp add: solution_line_def split: option.split)
          ultimately show ?thesis
            using Cons.IH [OF j(2), of ?a ?n ?out] files_report_solution [OF _ _ Some] judged Inr by fastforce
        qed
      qed
    qed
  qed
qed

lemma check_problem_report:
  assumes "ready s"
  shows "\<exists>r s' out'. check_problem sb env langs cfg dir s out = Some (r, s', out') \<and> ready s' \<and>
    (case r of
       Err e \<Rightarrow> problem_error sb ready env langs cfg dir e
     | Ok m \<Rightarrow> \<exists>xs. problem_checked sb ready env langs cfg dir xs \<and> m = report_failures xs \<and>
         filter is_solution_line out' = filter is_solution_line out @ map solution_line xs)"
proof (cases "load_problem env dir")
  case (Inl e)
  with assms show ?thesis by (simp add: check_problem_def problem_error_def)
next
  case p: (Inr p)
  let ?sol = "path_join dir ''solutions''"
  show ?thesis
  proof (cases "pe_read_dir env ?sol")
    case (Inl e)
    with p assms show ?thesis by (simp add: check_problem_def problem_error_def Let_def)
  next
    case es: (Inr es)
    let ?out = "out @ [L_Problem (pr_slug p) (length (pr_tests p)) (take 12 (pr_version p))]"
    from check_files_report [OF assms, of env langs cfg p "solution_files env ?sol es" 0 0 ?out]
    obtain r s' out' where
      run: "check_files sb env langs cfg p (solution_files env ?sol es) 0 0 s ?out = Some (r, s', out')" "ready s'"
      and r: "files_report env langs cfg p (solution_files env ?sol es) 0 0 ?out r out'"
      by (elim exE conjE)
    have eq: "check_problem sb env langs cfg dir s out =
        Some (case r of
          Err e \<Rightarrow> (Err e, s', out')
        | Ok (b, m) \<Rightarrow> if b = 0 then (Ok (m + 1), s', out' @ [L_NoAccepted]) else (Ok m, s', out'))"
      by (simp add: check_problem_def Let_def p es run)
    show ?thesis
    proof (cases r)
      case (Inl e)
      with r p es run(2) show ?thesis by (simp add: eq problem_error_def files_report_def)
    next
      case (Inr bm)
      obtain b m where "bm = (b, m)" by fastforce
      with Inr r obtain xs where xs: "map (\<lambda>(f, want, res). (f, want)) xs = labelled (solution_files env ?sol es)"
        "list_all (\<lambda>(f, want, res). judged_as sb ready env langs cfg p f (Ok res)) xs"
        "r = Ok (references xs, broken_promises xs)"
        "filter is_solution_line out' = filter is_solution_line out @ map solution_line xs"
        by (auto simp: files_report_def)
      then have "problem_checked sb ready env langs cfg dir xs" using p es by (auto simp: problem_checked_def)
      with xs(3,4) run(2) show ?thesis by (auto simp: eq report_failures_def intro!: exI [of _ xs])
    qed
  qed
qed

lemma check_problems_report:
  assumes "ready s"
  shows "\<exists>r s' out'. check_problems sb env langs cfg dirs n s out = Some (r, s', out') \<and> ready s' \<and>
    (case r of
       Err e \<Rightarrow> \<exists>dir \<in> set dirs. problem_error sb ready env langs cfg dir e
     | Ok m \<Rightarrow> \<exists>reports. list_all2 (problem_checked sb ready env langs cfg) dirs reports \<and>
         m = n + sum_list (map report_failures reports) \<and>
         filter is_solution_line out' = filter is_solution_line out @ map solution_line (concat reports))"
  using assms
proof (induction dirs arbitrary: n s out)
  case (Cons dir dirs)
  from check_problem_report [OF Cons.prems, of env langs cfg dir out] obtain r s1 out1 where
    one: "check_problem sb env langs cfg dir s out = Some (r, s1, out1)" "ready s1"
    and r: "case r of
       Err e \<Rightarrow> problem_error sb ready env langs cfg dir e
     | Ok m \<Rightarrow> \<exists>xs. problem_checked sb ready env langs cfg dir xs \<and> m = report_failures xs \<and>
         filter is_solution_line out1 = filter is_solution_line out @ map solution_line xs"
    by (elim exE conjE)
  show ?case
  proof (cases r)
    case (Inl e)
    with one r show ?thesis by auto
  next
    case (Inr k)
    with r obtain xs where xs: "problem_checked sb ready env langs cfg dir xs" "k = report_failures xs"
      "filter is_solution_line out1 = filter is_solution_line out @ map solution_line xs" by auto
    have rest: "check_problems sb env langs cfg (dir # dirs) n s out = check_problems sb env langs cfg dirs (n + k) s1 out1"
      using one Inr by simp
    from Cons.IH [OF one(2), of "n + k" out1] obtain q s' out' where
      q: "check_problems sb env langs cfg dirs (n + k) s1 out1 = Some (q, s', out')" "ready s'"
      and IH: "case q of
         Err e \<Rightarrow> \<exists>dir \<in> set dirs. problem_error sb ready env langs cfg dir e
       | Ok m \<Rightarrow> \<exists>reports. list_all2 (problem_checked sb ready env langs cfg) dirs reports \<and>
           m = n + k + sum_list (map report_failures reports) \<and>
           filter is_solution_line out' = filter is_solution_line out1 @ map solution_line (concat reports)"
      by (elim exE conjE)
    show ?thesis
    proof (cases q)
      case ok: (Inr m)
      with IH obtain reports where "list_all2 (problem_checked sb ready env langs cfg) dirs reports"
        "m = n + k + sum_list (map report_failures reports)"
        "filter is_solution_line out' = filter is_solution_line out1 @ map solution_line (concat reports)" by auto
      with xs show ?thesis unfolding rest q(1) ok using q(2) by (auto intro!: exI [of _ "xs # reports"])
    qed (use rest q IH in auto)
  qed
qed simp

end

interpretation isolate_ready: ready_sandbox "isolate_ops ho icfg" "\<lambda>s. pool_ready icfg s \<and> box_ids icfg \<noteq> []"
  for ho :: "'h host_ops" and icfg
  using isolate_has_box isolate_stays_ready by unfold_locales blast+

section \<open>What the exit code says\<close>

lemma judge_command_cases:
  assumes "judge_command sb env langs cfg dir lang every json source s = Some (r, s', ls)"
  obtains (fails) e where "r = Err e" "ls = []"
  | (judges) p l src res ps where "load_problem env dir = Ok p" "pe_read_to_string env source = Ok src"
      "judge sb langs cfg (cli_request p l src (\<not> every)) False s = Some (Ok res, s', ps)"
      "r = Ok (if jr_verdict res \<noteq> Accepted then 1 else 0)" "ls = [L_Result json res]"
      "case lang of Some i \<Rightarrow> l = i | None \<Rightarrow> language_for langs source = Ok l"
  using assms
  by (auto simp: judge_command_def cli_run_def try_then_Ok_iff split: sum.splits option.splits if_splits)

lemma printed_verdict: "take 11 (print_result res) = ''verdict: AC'' \<longleftrightarrow> jr_verdict res = Accepted"
  by (cases "jr_verdict res") (simp_all add: print_result_def println_def verdict_text_def)

lemma setup_ready:
  assumes "cli_setup env cli h = Ok (eng, langs, pool)"
    and "case load_engine env (cl_config cli) of Err e \<Rightarrow> True
      | Ok eng \<Rightarrow> unat (ic_first_box_id (ec_sandbox eng)) + unat (ic_slots (ec_sandbox eng)) < 2 ^ 32"
  shows "pool_ready (ec_sandbox eng) pool \<and> box_ids (ec_sandbox eng) \<noteq> []"
  using assms start_sandbox_ready by (fastforce simp: cli_setup_def try_then_Ok_iff)

text \<open>C22: the exit status tells the verdict. \<open>codexec judge\<close> on the isolate backend always ends, whatever the
host does. It ends with status 0 exactly when the line it prints says AC, and then the problem and
the source were read, and with the configured engine the run command of the language was executed
on the input of every test, in order, ended normally and satisfied the problem's comparer.\<close>

theorem exit_status_tells_verdict:
  assumes "cl_command cli = Cmd_Judge dir lang every False source"
    and "case load_engine env (cl_config cli) of Err e \<Rightarrow> True
      | Ok eng \<Rightarrow> unat (ic_first_box_id (ec_sandbox eng)) + unat (ic_slots (ec_sandbox eng)) < 2 ^ 32"
  shows "\<exists>r out. cli_main env cli h = Some (r, out) \<and>
    (exit_code r = 0 \<longleftrightarrow> take 11 out = ''verdict: AC'') \<and>
    (exit_code r = 0 \<longrightarrow> (\<exists>eng p src l lg bx s1 s2 xs.
       load_engine env (cl_config cli) = Ok eng \<and> load_problem (ce_problems env) dir = Ok p \<and>
       pe_read_to_string (ce_problems env) source = Ok src \<and>
       run_all (isolate_ops (ce_host env) (ec_sandbox eng)) bx
         (run_spec (ec_judge eng) lg (cli_request p l src (\<not> every))) (cli_request p l src (\<not> every)) False
         (pr_tests p) s1 = (xs, None, s2) \<and>
       map fst xs = pr_tests p \<and> (\<forall>(t, out) \<in> set xs. passes (pr_comparer p) t out)))"
proof (cases "cli_setup env cli h")
  case (Inl e)
  then show ?thesis by (simp add: cli_main_def exit_code_def)
next
  case (Inr x)
  obtain eng langs pool where x: "x = (eng, langs, pool)" by (cases x)
  with Inr have set_up: "cli_setup env cli h = Ok (eng, langs, pool)" by simp
  then have eng: "load_engine env (cl_config cli) = Ok eng" by (auto simp: cli_setup_def try_then_Ok_iff)
  obtain r s' ls where j: "judge_command (isolate_ops (ce_host env) (ec_sandbox eng)) (ce_problems env) langs (ec_judge eng)
      dir lang every False source pool = Some (r, s', ls)"
    by (rule isolate_ready.judge_command_ends [OF setup_ready [OF set_up assms(2)]])
  then have main: "cli_main env cli h = Some (map_err Main_Command r, print_lines (ce_to_json env) ls)"
    by (simp add: cli_main_def set_up assms(1))
  from j show ?thesis
  proof (cases rule: judge_command_cases)
    case (fails e)
    then show ?thesis by (simp add: main exit_code_def print_lines_def)
  next
    case (judges p l src res ps)
    let ?req = "cli_request p l src (\<not> every)"
    have req: "rq_tests ?req = pr_tests p" "rq_comparer ?req = pr_comparer p" by (simp_all add: cli_request_def)
    have status: "exit_code (map_err Main_Command r) = 0 \<longleftrightarrow> jr_verdict res = Accepted"
      using judges(4) by (simp add: exit_code_def)
    have printed: "print_lines (ce_to_json env) ls = print_result res" using judges(5) by (simp add: print_lines_def)
    show ?thesis
      using accepted_means_every_test_passed [OF judges(3), unfolded req] judges(1,2) eng
      by (simp add: main status printed printed_verdict) blast
  qed
qed

text \<open>The tool asked to judge the sample problem, on a host where every program prints 3.\<close>

definition sample_cli_env :: "(nat, unit) cli_env" where
  "sample_cli_env = \<lparr>ce_exists = (\<lambda>_. False), ce_toml = (\<lambda>_. Ok []), ce_try_into = (\<lambda>_. Ok (None, None)),
     ce_languages_toml = (\<lambda>_. Ok sample_registry),
     ce_problems = sample_env\<lparr>pe_read_to_string := (\<lambda>p. Ok ''print(3)'')\<rparr>,
     ce_temp_dir = ''/tmp'', ce_host = three_host, ce_to_json = (\<lambda>res. [])\<rparr>"

definition sample_cli :: cli where
  "sample_cli = \<lparr>cl_config = ''codexec.toml'', cl_languages = ''languages.toml'',
     cl_command = Cmd_Judge ''p/a-plus-b'' (Some ''python'') False False ''ac.py''\<rparr>"

lemma sample_registry_read: "from_toml (\<lambda>_. Ok sample_registry) c = Ok [(''python'', python)]"
proof -
  have "check_language python = None" by code_simp
  then show ?thesis by (simp add: from_toml_def sample_registry_def python_def Let_def)
qed

lemma three_set_up:
  "cli_setup sample_cli_env sample_cli 0 =
     Ok (engine_config_of ''/tmp'' (None, None), [(''python'', python)], sample_pool)"
proof -
  have "start_sandbox three_host sample_isolate 0 = Ok sample_pool" by code_simp
  then show ?thesis
    by (simp add: cli_setup_def load_engine_def sample_cli_env_def engine_config_of_def isolate_section_def
        load_languages_def sample_registry_read flip: sample_isolate_def)
qed

lemma three_problem:
  obtains p n i where "load_problem (ce_problems sample_cli_env) ''p/a-plus-b'' = Ok p"
    "pr_tests p = [\<lparr>tc_name = n, tc_input = i, tc_expected = Some ''3''\<rparr>]" "pr_comparer p = Tokens"
proof -
  have "case load_problem (ce_problems sample_cli_env) ''p/a-plus-b'' of Err e \<Rightarrow> False
     | Ok p \<Rightarrow> pr_tests p = [\<lparr>tc_name = ''01'', tc_input = ''1 2'', tc_expected = Some ''3''\<rparr>] \<and> pr_comparer p = Tokens"
    by code_simp
  with that show thesis by (auto split: sum.splits)
qed

theorem exit_status_tells_verdict_witness:
  "\<exists>r out. cli_main sample_cli_env sample_cli 0 = Some (r, out) \<and> exit_code r = 0 \<and> take 11 out = ''verdict: AC''"
proof -
  have cmd: "cl_command sample_cli = Cmd_Judge ''p/a-plus-b'' (Some ''python'') False False ''ac.py''"
    by (simp add: sample_cli_def)
  have ids: "case load_engine sample_cli_env (cl_config sample_cli) of Err e \<Rightarrow> True
      | Ok eng \<Rightarrow> unat (ic_first_box_id (ec_sandbox eng)) + unat (ic_slots (ec_sandbox eng)) < 2 ^ 32"
    using sample_ids_fit by (simp add: load_engine_def sample_cli_env_def engine_config_of_def isolate_section_def sample_isolate_def)
  obtain r out where m: "cli_main sample_cli_env sample_cli 0 = Some (r, out)"
    "exit_code r = 0 \<longleftrightarrow> take 11 out = ''verdict: AC''"
    using exit_status_tells_verdict [OF cmd ids, of 0] by (elim exE conjE) (rule that)
  obtain p n i where p: "load_problem (ce_problems sample_cli_env) ''p/a-plus-b'' = Ok p"
    "pr_tests p = [\<lparr>tc_name = n, tc_input = i, tc_expected = Some ''3''\<rparr>]" "pr_comparer p = Tokens"
    by (rule three_problem)
  let ?req = "cli_request p ''python'' ''print(3)'' True"
  have "rq_tests ?req = [\<lparr>tc_name = n, tc_input = i, tc_expected = Some ''3''\<rparr>]" "rq_comparer ?req = Tokens"
    "rq_language ?req = ''python''" using p by (simp_all add: cli_request_def)
  from three_judged [OF this] obtain res s' ps where
    j: "judge (isolate_ops three_host sample_isolate) [(''python'', python)] default_judge_config ?req False sample_pool =
      Some (Ok res, s', ps)" "jr_verdict res = Accepted" by blast
  have env: "ce_host sample_cli_env = three_host" "pe_read_to_string (ce_problems sample_cli_env) x = Ok ''print(3)''" for x
    by (simp_all add: sample_cli_env_def)
  have "exit_code r = 0"
    using m(1) p(1) j
    by (auto simp add: cli_main_def three_set_up cmd env judge_command_def cli_run_def engine_config_of_def
        isolate_section_def judge_section_def exit_code_def simp flip: sample_isolate_def)
  with m show ?thesis by blast
qed

section \<open>What check-problem says\<close>

lemma no_failures:
  "report_failures xs = 0 \<longleftrightarrow>
     list_all (\<lambda>(f, want, res). jr_verdict res = want) xs \<and> list_ex (\<lambda>(f, want, res). want = Accepted) xs"
  by (fastforce simp: report_failures_def broken_promises_def references_def filter_empty_conv list_all_iff list_ex_iff
      split: if_splits)

lemma problem_error_kinds:
  "problem_error sb ready env langs cfg dir e \<Longrightarrow> e \<noteq> Cli_NoProblems \<and> e \<noteq> Cli_Failures k"
  by (auto simp: problem_error_def file_error_def split: sum.splits)

text \<open>C21: \<open>codexec check-problem\<close> on the isolate backend verifies the tests of problems. It always ends,
whatever the host and the programs do. It succeeds, with status 0, only if it was given at least
one problem and for each of them the problem loaded, \<open>solutions/\<close> was read, every file there whose
name promises a verdict was judged with the problem's tests on the configured engine and got
exactly that verdict, and some file promised and got \<open>ac\<close>. It fails with the number of failures
exactly when all of these files were judged and a verdict was not the promised one, which counts
for each such file, or a problem had no accepted solution, which counts once for it. The lines it
prints are these results. Anything else it ends with is an error that did occur: a problem or
directory or file that could not be read, a file in no known language, or a failing judge.\<close>

theorem check_problem_verifies_tests:
  assumes "cl_command cli = Cmd_Check dirs" and "cli_setup env cli h = Ok (eng, langs, pool)"
    and "unat (ic_first_box_id (ec_sandbox eng)) + unat (ic_slots (ec_sandbox eng)) < 2 ^ 32"
  defines "sb \<equiv> isolate_ops (ce_host env) (ec_sandbox eng)"
    and "ready \<equiv> \<lambda>s. pool_ready (ec_sandbox eng) s \<and> box_ids (ec_sandbox eng) \<noteq> []"
  shows "\<exists>r s out. run_command env eng langs (Cmd_Check dirs) pool = Some (r, s, out) \<and>
    cli_main env cli h = Some (map_err Main_Command r, print_lines (ce_to_json env) out) \<and>
    (case r of
       Ok status \<Rightarrow> status = 0 \<and> dirs \<noteq> [] \<and> (\<exists>reports.
         list_all2 (problem_checked sb ready (ce_problems env) langs (ec_judge eng)) dirs reports \<and>
         list_all (\<lambda>xs. list_all (\<lambda>(f, want, res). jr_verdict res = want) xs \<and>
           list_ex (\<lambda>(f, want, res). want = Accepted) xs) reports \<and>
         filter is_solution_line out = map solution_line (concat reports))
     | Err e \<Rightarrow>
         (case e of
            Cli_NoProblems \<Rightarrow> dirs = []
          | Cli_Failures k \<Rightarrow> 0 < k \<and> (\<exists>reports.
              list_all2 (problem_checked sb ready (ce_problems env) langs (ec_judge eng)) dirs reports \<and>
              k = sum_list (map report_failures reports) \<and>
              filter is_solution_line out = map solution_line (concat reports))
          | _ \<Rightarrow> list_ex (\<lambda>dir. problem_error sb ready (ce_problems env) langs (ec_judge eng) dir e) dirs))"
proof -
  have main: "cli_main env cli h =
      map_option (\<lambda>(r, s', out). (map_err Main_Command r, print_lines (ce_to_json env) out))
        (run_command env eng langs (Cmd_Check dirs) pool)"
    by (simp add: cli_main_def assms(1,2))
  have "load_engine env (cl_config cli) = Ok eng" using assms(2) by (auto simp: cli_setup_def try_then_Ok_iff)
  with setup_ready [OF assms(2)] assms(3)
  have pool: "pool_ready (ec_sandbox eng) pool \<and> box_ids (ec_sandbox eng) \<noteq> []" by simp
  obtain r s out where run: "check_problems sb (ce_problems env) langs (ec_judge eng) dirs 0 pool [] = Some (r, s, out)"
    and r: "case r of
       Err e \<Rightarrow> \<exists>dir \<in> set dirs. problem_error sb ready (ce_problems env) langs (ec_judge eng) dir e
     | Ok m \<Rightarrow> \<exists>reports. list_all2 (problem_checked sb ready (ce_problems env) langs (ec_judge eng)) dirs reports \<and>
         m = sum_list (map report_failures reports) \<and> filter is_solution_line out = map solution_line (concat reports)"
    using isolate_ready.check_problems_report [OF pool, of "ce_host env" "ce_problems env" langs "ec_judge eng" dirs 0 "[]",
        folded sb_def ready_def]
    by (elim exE conjE) (erule that, simp split: sum.splits)
  show ?thesis
  proof (cases "dirs = []")
    case True
    then show ?thesis by (simp add: main check_command_def)
  next
    case False
    have cmd: "run_command env eng langs (Cmd_Check dirs) pool =
        Some (try_then (try_then r (\<lambda>failures. if failures > 0 then Err (Cli_Failures failures) else Ok ())) (\<lambda>_. Ok 0), s, out)"
      using run False by (simp add: check_command_def sb_def)
    show ?thesis
    proof (cases r)
      case (Inl e)
      with r obtain dir where dir: "dir \<in> set dirs" "problem_error sb ready (ce_problems env) langs (ec_judge eng) dir e" by auto
      with problem_error_kinds [OF dir(2)] Inl show ?thesis
        by (cases e) (auto simp: main cmd list_ex_iff simp del: run_command.simps)
    next
      case (Inr m)
      with r obtain reports where
        reports: "list_all2 (problem_checked sb ready (ce_problems env) langs (ec_judge eng)) dirs reports"
          "m = sum_list (map report_failures reports)" "filter is_solution_line out = map solution_line (concat reports)"
        by auto
      show ?thesis
      proof (cases "m = 0")
        case True
        with reports(2) have "list_all (\<lambda>xs. report_failures xs = 0) reports" by (auto simp: list_all_iff)
        with True Inr reports False show ?thesis by (auto simp: main cmd no_failures simp del: run_command.simps)
      next
        case False
        with Inr reports show ?thesis by (auto simp: main cmd simp del: run_command.simps)
      qed
    qed
  qed
qed

definition sample_solutions :: problem_env where
  "sample_solutions = sample_env
     \<lparr>pe_read_dir := (\<lambda>p. if p = ''p/a-plus-b/solutions'' then Ok [Ok ''notes.txt'', Ok ''ac-loop.py'']
        else pe_read_dir sample_env p),
      pe_read_to_string := (\<lambda>p. Ok ''print(3)''), pe_is_file := (\<lambda>_. True)\<rparr>"

text \<open>A problem with one solution, which prints 3.\<close>

lemma sample_check_report:
  obtains res s' out where "run_command (sample_cli_env\<lparr>ce_problems := sample_solutions\<rparr>)
      (engine_config_of ''/tmp'' (None, None)) [(''python'', python)] (Cmd_Check [''p/a-plus-b'']) sample_pool =
        Some (Ok 0, s', out)"
    "filter is_solution_line out = [L_Solution True ''ac-loop.py'' Accepted res]" "jr_verdict res = Accepted"
proof -
  let ?file = "''p/a-plus-b/solutions/ac-loop.py''" and ?langs = "[(''python'', python)]"
  have "case load_problem sample_solutions ''p/a-plus-b'' of Err e \<Rightarrow> False
     | Ok p \<Rightarrow> pr_tests p = [\<lparr>tc_name = ''01'', tc_input = ''1 2'', tc_expected = Some ''3''\<rparr>] \<and> pr_comparer p = Tokens"
    by code_simp
  then obtain p where p: "load_problem sample_solutions ''p/a-plus-b'' = Ok p"
    "pr_tests p = [\<lparr>tc_name = ''01'', tc_input = ''1 2'', tc_expected = Some ''3''\<rparr>]" "pr_comparer p = Tokens"
    by (auto split: sum.splits)
  have names: "path_join ''p/a-plus-b'' ''solutions'' = ''p/a-plus-b/solutions''"
    "solution_files sample_solutions ''p/a-plus-b/solutions'' [Ok ''notes.txt'', Ok ''ac-loop.py''] =
      [?file, ''p/a-plus-b/solutions/notes.txt'']"
    "expected_verdict ?file = Some Accepted" "expected_verdict ''p/a-plus-b/solutions/notes.txt'' = None"
    "language_for ?langs ?file = Ok ''python''"
    "from_utf8_lossy (or_default (file_name ?file) []) = ''ac-loop.py''"
    by code_simp+
  let ?req = "cli_request p ''python'' ''print(3)'' True"
  have "rq_tests ?req = [\<lparr>tc_name = ''01'', tc_input = ''1 2'', tc_expected = Some ''3''\<rparr>]" "rq_comparer ?req = Tokens"
    "rq_language ?req = ''python''" using p by (simp_all add: cli_request_def)
  from three_judged [OF this] obtain res s' ps where
    j: "judge (isolate_ops three_host sample_isolate) ?langs default_judge_config ?req False sample_pool = Some (Ok res, s', ps)"
    and acc: "jr_verdict res = Accepted" by blast
  have env: "pe_read_dir sample_solutions ''p/a-plus-b/solutions'' = Ok [Ok ''notes.txt'', Ok ''ac-loop.py'']"
    "pe_read_to_string sample_solutions ?file = Ok ''print(3)''"
    "ec_sandbox (engine_config_of ''/tmp'' (None, None)) = sample_isolate"
    "ec_judge (engine_config_of ''/tmp'' (None, None)) = default_judge_config"
    by (simp_all add: sample_solutions_def engine_config_of_def isolate_section_def judge_section_def sample_isolate_def)
  have "run_command (sample_cli_env\<lparr>ce_problems := sample_solutions\<rparr>) (engine_config_of ''/tmp'' (None, None)) ?langs
      (Cmd_Check [''p/a-plus-b'']) sample_pool =
    Some (Ok 0, s', [L_Problem (pr_slug p) 1 (take 12 (pr_version p)), L_Solution True ''ac-loop.py'' Accepted res] @
      (L_Skip (from_utf8_lossy (or_default (file_name ''p/a-plus-b/solutions/notes.txt'') [])) # []))"
    using j acc p(2)
    by (simp add: env check_command_def check_problem_def p(1) names Let_def cli_run_def sample_cli_env_def
        split: option.split)
  then show thesis by (rule that [where res = res]) (simp_all add: acc)
qed

theorem check_problem_verifies_tests_witness:
  "\<exists>out res reports. cli_main (sample_cli_env\<lparr>ce_problems := sample_solutions\<rparr>)
      (sample_cli\<lparr>cl_command := Cmd_Check [''p/a-plus-b'']\<rparr>) 0 = Some (Ok 0, out) \<and>
    map solution_line (concat reports) = [L_Solution True ''ac-loop.py'' Accepted res] \<and> jr_verdict res = Accepted \<and>
    list_all (\<lambda>xs. list_ex (\<lambda>(f, want, res). want = Accepted) xs) reports"
proof -
  let ?env = "sample_cli_env\<lparr>ce_problems := sample_solutions\<rparr>"
    and ?cli = "sample_cli\<lparr>cl_command := Cmd_Check [''p/a-plus-b'']\<rparr>"
  obtain res s' out where run: "run_command ?env (engine_config_of ''/tmp'' (None, None)) [(''python'', python)]
      (Cmd_Check [''p/a-plus-b'']) sample_pool = Some (Ok 0, s', out)"
    "filter is_solution_line out = [L_Solution True ''ac-loop.py'' Accepted res]" "jr_verdict res = Accepted"
    by (rule sample_check_report)
  have set_up: "cli_setup ?env ?cli 0 = Ok (engine_config_of ''/tmp'' (None, None), [(''python'', python)], sample_pool)"
    using three_set_up
    by (simp add: cli_setup_def load_engine_def sample_cli_env_def sample_cli_def load_languages_def sample_registry_read
        sample_solutions_def)
  have cmd: "cl_command ?cli = Cmd_Check [''p/a-plus-b'']" by simp
  have ids: "unat (ic_first_box_id (ec_sandbox (engine_config_of ''/tmp'' (None, None)))) +
      unat (ic_slots (ec_sandbox (engine_config_of ''/tmp'' (None, None)))) < 2 ^ 32"
    using sample_ids_fit by (simp add: engine_config_of_def isolate_section_def sample_isolate_def)
  from check_problem_verifies_tests [OF cmd set_up ids] run(1) obtain reports where
    main: "cli_main ?env ?cli 0 = Some (Ok 0, print_lines (ce_to_json ?env) out)"
    and reports: "list_all (\<lambda>xs. list_all (\<lambda>(f, want, res). jr_verdict res = want) xs \<and>
        list_ex (\<lambda>(f, want, res). want = Accepted) xs) reports"
      "filter is_solution_line out = map solution_line (concat reports)"
    by (auto simp del: run_command.simps)
  have "list_all (\<lambda>xs. list_ex (\<lambda>(f, want, res). want = Accepted) xs) reports"
    using reports(1) by (simp add: list_all_iff)
  with main reports(2) run(2,3) show ?thesis by metis
qed

end
