(* ===== verification/Judge_Tests.thy ===== *)
theory Judge_Tests
  imports Judge_Config Judge_Isolate_Guarantees "HOL-Library.Code_Target_Nat"
begin

text \<open>
  The unit tests of \<open>crates/judge/src\<close>, run on the model. Each test function of the source is a
  proposition with the same inputs and the same assertions, and its lemma evaluates the model on
  them: where the authors wrote down what the code does, the definitions here do the same.
\<close>

definition is_ok :: "'e + 'a \<Rightarrow> bool" where
  "is_ok r = (case r of Ok a \<Rightarrow> True | Err e \<Rightarrow> False)"

definition is_err :: "'e + 'a \<Rightarrow> bool" where
  "is_err r = (case r of Ok a \<Rightarrow> False | Err e \<Rightarrow> True)"

definition starts_with :: "string \<Rightarrow> string \<Rightarrow> bool" where
  "starts_with s pre \<longleftrightarrow> take (length pre) s = pre"

abbreviation nl :: string where "nl \<equiv> [newline]"

section \<open>Evaluation\<close>

text \<open>
  Equations that are faster to evaluate: small integers are exact doubles, deciding overflow by
  powers of two below 64 first keeps the numbers small, milliseconds print without arithmetic on
  doubles, and visible ends need no trimming.
\<close>

lemma f64_of_rat_code [code]:
  "f64_of_rat x =
     (let (p, q) = quotient_of x
      in if q = 1 \<and> 0 \<le> p \<and> p < 9007199254740992 then Fin x
         else (let v = round_mag \<bar>x\<bar>; y = (if x < 0 then - v else v)
               in if v < 18446744073709551616 then Fin y
                  else if 2 ^ 1024 \<le> v then Inf (x < 0) else Fin y))"
proof -
  have "v < 2 ^ 1024" if "v < 18446744073709551616" for v :: rat
    using that by (rule less_trans) simp
  then have general: "f64_of_rat x =
    (let v = round_mag \<bar>x\<bar>; y = (if x < 0 then - v else v)
     in if v < 18446744073709551616 then Fin y else if 2 ^ 1024 \<le> v then Inf (x < 0) else Fin y)"
    by (auto simp: f64_of_rat_def Let_def not_less)
  obtain p q where pq: "quotient_of x = (p, q)" by fastforce
  have small: "f64_of_rat x = Fin x" if q: "q = 1" and p: "0 \<le> p" "p < 9007199254740992"
  proof -
    from pq q have x: "x = of_nat (nat p)" using quotient_of_div [OF pq] p by simp
    have "nat p < 2 ^ 53" using p by simp
    from f64_of_nat_exact [OF this] x show ?thesis by simp
  qed
  show ?thesis
    unfolding pq Let_def prod.case using small general [unfolded Let_def]
    by (metis (no_types, lifting))
qed

lemma secs_code [code]:
  "secs d =
     (let m = d div 1000000
      in if m * 1000000 = d \<and> m < 1125899906842624 then millis_text m else fixed3 (as_secs_f64 d))"
proof -
  have "secs d = millis_text m" if "m * 1000000 = d" "m < 1125899906842624" for m
    using secs_millis [of m] that by (simp add: secs_def)
  then show ?thesis by (auto simp: Let_def secs_def)
qed

lemma f64_as_u64_code [code]:
  "f64_as_u64 NaN = 0"
  "f64_as_u64 (Inf n) = (if n then 0 else - 1)"
  "f64_as_u64 (Fin x) =
     (if x < 0 then 0 else if x < 18446744073709551616 then word_of_int \<lfloor>x\<rfloor> else - 1)"
  by (simp_all add: not_less)

lemma trim_code [code]:
  "trim s = (if s = [] \<or> visible (hd s) \<and> visible (last s) then s else trim_end (trim_start s))"
  using trim_visible [of s] by (auto simp: trim_def)

section \<open>\<open>compare.rs\<close>\<close>

definition lines_ignore_trailing_whitespace :: bool where
  "lines_ignore_trailing_whitespace \<longleftrightarrow>
     is_ok (compare Lines (''1 2'' @ nl @ ''3'' @ nl) (''1 2  '' @ [CHR 0x0D] @ nl @ ''3'')) \<and>
     is_ok (compare Lines (''1 2'' @ nl @ ''3'' @ nl) (''1 2'' @ nl @ ''3'' @ nl @ nl @ nl)) \<and>
     is_ok (compare Lines [] nl)"

definition lines_detect_differences :: bool where
  "lines_detect_differences \<longleftrightarrow>
     compare Lines (''1'' @ nl @ ''2'' @ nl) (''1'' @ nl @ ''3'' @ nl) = Err ''line 2 differs'' \<and>
     is_err (compare Lines (''1'' @ nl @ ''2'' @ nl) (''1'' @ nl)) \<and>
     is_err (compare Lines (''1 2'' @ nl) (''1  2'' @ nl)) \<and>
     is_err (compare Lines ('' 1'' @ nl) (''1'' @ nl))"

definition tokens_ignore_layout :: bool where
  "tokens_ignore_layout \<longleftrightarrow>
     is_ok (compare Tokens (''1 2'' @ nl @ ''3'' @ nl) (''1'' @ nl @ ''2   3'')) \<and>
     is_err (compare Tokens ''1 2 3'' ''1 2'') \<and>
     is_err (compare Tokens ''1 2'' ''1 2 3'') \<and>
     is_err (compare Tokens ''abc'' ''abd'')"

text \<open>\<open>1e-6\<close> is the double nearest to it.\<close>

definition float_tolerance :: "f64 \<Rightarrow> bool" where
  "float_tolerance eps \<longleftrightarrow>
     is_ok (compare (Float eps) ''0.3333333'' ''0.33333334'') \<and>
     is_ok (compare (Float eps) ''1000000.0'' ''1000000.5'') \<and>
     is_err (compare (Float eps) ''0.5'' ''0.6'') \<and>
     is_ok (compare (Float eps) ''yes 1.0'' ''yes 1.0000001'') \<and>
     is_err (compare (Float eps) ''yes'' ''no'') \<and>
     is_err (compare (Float eps) ''1.0'' ''nan'')"

lemma compare_tests:
  "lines_ignore_trailing_whitespace" "lines_detect_differences" "tokens_ignore_layout"
  by code_simp+

definition millionth :: f64 where
  "millionth = f64_of_rat (1 / 1000000)"

lemma millionth_parsed: "parse_f64 ''1e-6'' = Some millionth"
  by code_simp

lemma float_test1: "is_ok (compare (Float millionth) ''0.3333333'' ''0.33333334'')"
  by code_simp
lemma float_test2: "is_ok (compare (Float millionth) ''1000000.0'' ''1000000.5'')"
  by code_simp
lemma float_test3: "is_err (compare (Float millionth) ''0.5'' ''0.6'')"
  by code_simp
lemma float_test4: "is_ok (compare (Float millionth) ''yes 1.0'' ''yes 1.0000001'')"
  by code_simp
lemma float_test5: "is_err (compare (Float millionth) ''yes'' ''no'')"
  by code_simp
lemma float_test6: "is_err (compare (Float millionth) ''1.0'' ''nan'')"
  by code_simp

lemma float_tolerance_test: "float_tolerance millionth"
  unfolding float_tolerance_def
  using float_test1 float_test2 float_test3 float_test4 float_test5 float_test6 by blast

section \<open>\<open>sandbox.rs\<close>\<close>

definition file_names :: bool where
  "file_names \<longleftrightarrow>
     is_ok (validate_file_name ''main.py'') \<and> is_ok (validate_file_name ''Main_1-x.rs'') \<and>
     list_all (\<lambda>bad. is_err (validate_file_name bad))
       [[], ''.'', ''..'', ''.hidden'', ''a/b'', ''../x'', [CHR ''a'', CHR 0x5C, CHR ''b''], ''a b'',
        [CHR ''a'', CHR 0x00, CHR ''b'']]"

lemma sandbox_tests: "file_names"
  by code_simp

section \<open>\<open>isolate.rs\<close>\<close>

definition test_limits :: exec_limits where
  "test_limits =
     \<lparr>el_cpu_time = from_millis 1500, el_extra_time = from_millis 500, el_wall_time = from_millis 4000,
      el_memory_kb = 262144, el_processes = 64, el_file_size_kb = 65536, el_stdout_bytes = 1024,
      el_stderr_bytes = 1024, el_address_space_limit = True\<rparr>"

definition test_spec :: exec_spec where
  "test_spec =
     \<lparr>es_argv = [''./main'', ''arg''], es_env = [(''GOMAXPROCS'', ''1'')], es_dirs = [''/gocache=/var/cache/go''],
      es_limits = test_limits, es_stderr_to_stdout = False, es_syscall_flags = Some 65531\<rparr>"

definition args_cgroup_mode :: "string \<Rightarrow> bool" where
  "args_cgroup_mode temp_dir \<longleftrightarrow>
     (let a = build_run_args ((default_isolate_config temp_dir)\<lparr>ic_extra_dirs := [''/etc/alternatives'']\<rparr>)
                ''/m/box-0.meta'' test_spec;
          sep = length (takeWhile (\<lambda>x. x \<noteq> ''--'') a)
      in ''--cg-mem=262144'' \<in> set a \<and> \<not> list_ex (\<lambda>x. starts_with x ''--mem='') a \<and>
         ''--time=1.500'' \<in> set a \<and> ''--wall-time=4.000'' \<in> set a \<and> ''--syscalls=65531'' \<in> set a \<and>
         ''--dir=/etc/alternatives'' \<in> set a \<and> ''--dir=/gocache=/var/cache/go'' \<in> set a \<and>
         ''--env=GOMAXPROCS=1'' \<in> set a \<and>
         sep < length a \<and> a ! (sep - 1) = ''--run'' \<and> drop (sep + 1) a = [''./main'', ''arg''])"

definition args_rlimit_mode_respects_address_space_flag :: "string \<Rightarrow> bool" where
  "args_rlimit_mode_respects_address_space_flag temp_dir \<longleftrightarrow>
     (let cfg = (default_isolate_config temp_dir)\<lparr>ic_use_cgroups := False\<rparr>;
          s = test_spec\<lparr>es_limits := test_limits\<lparr>el_address_space_limit := False\<rparr>\<rparr>
      in ''--mem=262144'' \<in> set (build_run_args cfg ''/m'' test_spec) \<and>
         \<not> list_ex (\<lambda>x. starts_with x ''--mem='' \<or> starts_with x ''--cg-mem='') (build_run_args cfg ''/m'' s))"

text \<open>Lines of a meta file.\<close>

definition meta_of :: "string list \<Rightarrow> (string \<times> string) list" where
  "meta_of ls = parse_meta (concat (map (\<lambda>l. l @ nl) ls))"

definition interpret_ok :: "(string \<Rightarrow> string) \<Rightarrow> bool" where
  "interpret_ok dbg \<longleftrightarrow>
     interpret_meta dbg (meta_of [''time:0.013'', ''time-wall:0.016'', ''max-rss:8344'', ''exitcode:0''])
       (Some 0) test_limits True False = Ok (ExOk, 13, 16, 8344)"

definition has_status :: "string + (exec_status \<times> u64 \<times> u64 \<times> u64) \<Rightarrow> exec_status \<Rightarrow> bool" where
  "has_status r st \<longleftrightarrow> (case r of Ok (s, numbers) \<Rightarrow> s = st | Err e \<Rightarrow> False)"

definition interpret_failures :: "(string \<Rightarrow> string) \<Rightarrow> bool" where
  "interpret_failures dbg \<longleftrightarrow>
     (let tle = meta_of [''status:TO'', ''message:Time limit exceeded'', ''killed:1'', ''time:0.600'',
            ''time-wall:0.601'', ''max-rss:7948''];
          wall = meta_of [''status:TO'', ''message:Time limit exceeded (wall clock)'', ''time:0.011'', ''max-rss:10''];
          sig = meta_of [''time:0.015'', ''max-rss:9028'', ''exitsig:11'', ''status:SG''];
          re = meta_of [''time:0.015'', ''max-rss:9028'', ''exitcode:3'', ''status:RE''];
          oom = meta_of [''time:0.2'', ''max-rss:200000'', ''cg-oom-killed:1'', ''exitsig:9'', ''status:SG''];
          near = meta_of [''time:0.161'', ''max-rss:252604'', ''exitcode:1'', ''status:RE''];
          ole = meta_of [''time:0.1'', ''max-rss:100'', ''exitcode:0'']
      in has_status (interpret_meta dbg tle (Some 1) test_limits True False) TimeLimit \<and>
         has_status (interpret_meta dbg wall (Some 1) test_limits True False) WallTimeLimit \<and>
         has_status (interpret_meta dbg sig (Some 1) test_limits True False) (Signaled 11) \<and>
         has_status (interpret_meta dbg re (Some 1) test_limits True False) (NonZeroExit 3) \<and>
         has_status (interpret_meta dbg oom (Some 1) test_limits True False) MemoryLimit \<and>
         has_status (interpret_meta dbg near (Some 1) test_limits False False) MemoryLimit \<and>
         has_status (interpret_meta dbg near (Some 1) test_limits True False) (NonZeroExit 1) \<and>
         has_status (interpret_meta dbg ole (Some 0) test_limits True True) OutputLimit)"

definition interpret_sandbox_errors :: "(string \<Rightarrow> string) \<Rightarrow> bool" where
  "interpret_sandbox_errors dbg \<longleftrightarrow>
     (let xx = meta_of [''status:XX'', ''message:Cannot run proxy'']
      in is_err (interpret_meta dbg xx (Some 2) test_limits True False) \<and>
         is_err (interpret_meta dbg xx (Some 1) test_limits True False) \<and>
         is_err (interpret_meta dbg [] (Some 0) test_limits True False) \<and>
         is_err (interpret_meta dbg (meta_of [''time:0.1'']) None test_limits True False))"

lemma args_tests: "args_cgroup_mode temp_dir" "args_rlimit_mode_respects_address_space_flag temp_dir"
  by code_simp+

lemma meta_time_limit:
  "meta_of [''status:TO'', ''message:Time limit exceeded'', ''killed:1'', ''time:0.600'', ''time-wall:0.601'',
     ''max-rss:7948''] =
   [(''status'', ''TO''), (''message'', ''Time limit exceeded''), (''killed'', ''1''), (''time'', ''0.600''),
    (''time-wall'', ''0.601''), (''max-rss'', ''7948'')]"
  by code_simp

lemma meta_wall:
  "meta_of [''status:TO'', ''message:Time limit exceeded (wall clock)'', ''time:0.011'', ''max-rss:10''] =
   [(''status'', ''TO''), (''message'', ''Time limit exceeded (wall clock)''), (''time'', ''0.011''), (''max-rss'', ''10'')]"
  by code_simp

lemma meta_signal:
  "meta_of [''time:0.015'', ''max-rss:9028'', ''exitsig:11'', ''status:SG''] =
   [(''time'', ''0.015''), (''max-rss'', ''9028''), (''exitsig'', ''11''), (''status'', ''SG'')]"
  by code_simp

lemma meta_exit:
  "meta_of [''time:0.015'', ''max-rss:9028'', ''exitcode:3'', ''status:RE''] =
   [(''time'', ''0.015''), (''max-rss'', ''9028''), (''exitcode'', ''3''), (''status'', ''RE'')]"
  by code_simp

lemma meta_oom:
  "meta_of [''time:0.2'', ''max-rss:200000'', ''cg-oom-killed:1'', ''exitsig:9'', ''status:SG''] =
   [(''time'', ''0.2''), (''max-rss'', ''200000''), (''cg-oom-killed'', ''1''), (''exitsig'', ''9''), (''status'', ''SG'')]"
  by code_simp

lemma meta_near:
  "meta_of [''time:0.161'', ''max-rss:252604'', ''exitcode:1'', ''status:RE''] =
   [(''time'', ''0.161''), (''max-rss'', ''252604''), (''exitcode'', ''1''), (''status'', ''RE'')]"
  by code_simp

lemma meta_output:
  "meta_of [''time:0.1'', ''max-rss:100'', ''exitcode:0''] =
   [(''time'', ''0.1''), (''max-rss'', ''100''), (''exitcode'', ''0'')]"
  by code_simp

lemmas test_metas = meta_time_limit meta_wall meta_signal meta_exit meta_oom meta_near meta_output

lemma read_numbers:
  "parse_u64 ''9028'' = Some 9028" "parse_u64 ''200000'' = Some 200000" "parse_u64 ''252604'' = Some 252604"
  "parse_u64 ''100'' = Some 100" "parse_u64 ''7948'' = Some 7948" "parse_u64 ''10'' = Some 10"
  "parse_i32 ''11'' = Some 11" "parse_i32 ''3'' = Some 3" "parse_i32 ''1'' = Some 1"
  "str_contains ''Time limit exceeded (wall clock)'' ''wall''" "\<not> str_contains ''Time limit exceeded'' ''wall''"
  by code_simp+

lemma test_limit_memory: "el_memory_kb test_limits = 262144"
  by (simp add: test_limits_def)

lemma interpret_failures_test: "interpret_failures dbg"
  unfolding interpret_failures_def Let_def test_metas
  by (intro conjI) (simp_all add: has_status_def interpret_meta_def out_of_memory_def meta_memory_kb_def
    meta_kb_def meta_i32_def test_limit_memory sat_mul_def read_numbers)

lemma interpret_ok_test: "interpret_ok dbg"
  by code_simp

lemma interpret_errors_test: "interpret_sandbox_errors dbg"
  by code_simp

text \<open>Reading from a slice: as much as the buffer of 64 KiB holds, then the end.\<close>

fun slice_reads :: "nat \<Rightarrow> bytes \<Rightarrow> read_event list" where
  "slice_reads 0 data = []"
| "slice_reads (Suc n) data = Chunk (take 65536 data) # slice_reads n (drop 65536 data)"

definition capped_reader_drains_everything :: bool where
  "capped_reader_drains_everything \<longleftrightarrow>
     (let data = replicate 200000 (CHR ''x'') in
      (case read_capped (slice_reads 5 data) 1000 of
         Err e \<Rightarrow> False | Ok (kept, truncated) \<Rightarrow> length kept = 1000 \<and> truncated) \<and>
      (case read_capped (slice_reads 5 (take 10 data)) 1000 of
         Err e \<Rightarrow> False | Ok (kept, truncated) \<Rightarrow> length kept = 10 \<and> \<not> truncated))"

lemma slice_until_eof: "length data \<le> n * 65536 \<Longrightarrow> until_eof (slice_reads n data) = Ok data"
proof (induction n arbitrary: data)
  case (Suc n)
  then have "until_eof (slice_reads n (drop 65536 data)) = Ok (drop 65536 data)" by simp
  then show ?case using append_take_drop_id [of 65536 data] by (cases "data = []") auto
qed simp

lemma slice_capped:
  "length data \<le> n * 65536 \<Longrightarrow>
   read_capped (slice_reads n data) cap = Ok (take cap data, cap < length data)"
  by (simp add: read_capped_def read_loop_spec slice_until_eof)

lemma capped_reader_test: "capped_reader_drains_everything"
  by (simp add: capped_reader_drains_everything_def Let_def slice_capped del: slice_reads.simps)

end
