(* ===== verification/Judge_Pipeline_Tests.thy ===== *)
theory Judge_Pipeline_Tests
  imports Judge_Tests
begin

text \<open>
  The unit tests of \<open>language.rs\<close> and \<open>pipeline.rs\<close>, run on the model: the tables of the TOML texts
  in the source are given as the parser returns them, and the scripted sandbox is the model of
  \<open>mock.rs\<close>.
\<close>

section \<open>\<open>language.rs\<close>\<close>

definition plain_step :: "string list \<Rightarrow> step_table" where
  "plain_step argv =
     \<lparr>spt_argv = argv, spt_env = None, spt_dirs = None, spt_processes = None, spt_syscall_flags = None\<rparr>"

definition sample_go :: language_table where
  "sample_go =
     \<lparr>lt_display_name = ''Go'', lt_source_file = ''main.go'',
      lt_compile = Some ((plain_step [''/usr/local/go/bin/go'', ''build'', ''-o'', ''main'', ''main.go''])
        \<lparr>spt_env := Some [(''GOCACHE'', ''/gocache'')],
         spt_dirs := Some [''/gocache=/var/cache/codexec/gocache''], spt_syscall_flags := Some 65531\<rparr>),
      lt_run = (plain_step [''./main''])\<lparr>spt_env := Some [(''GOMAXPROCS'', ''1'')]\<rparr>,
      lt_time_multiplier = None, lt_address_space_limit = Some False\<rparr>"

definition sample_python :: language_table where
  "sample_python =
     \<lparr>lt_display_name = ''Python 3'', lt_source_file = ''main.py'', lt_compile = None,
      lt_run = plain_step [''/usr/bin/python3'', ''main.py''], lt_time_multiplier = Some (Fin 3),
      lt_address_space_limit = None\<rparr>"

definition loaded :: "(string \<times> language_table) list \<Rightarrow> language_error + registry" where
  "loaded ts = from_toml (\<lambda>_. Ok (registry_of ts)) []"

definition parses_registry :: bool where
  "parses_registry \<longleftrightarrow>
     (case loaded [(''go'', sample_go), (''python'', sample_python)] of
        Err e \<Rightarrow> False
      | Ok reg \<Rightarrow> registry_len reg = 2 \<and>
          (case get_language reg ''go'' of
             None \<Rightarrow> False
           | Some go \<Rightarrow> lg_id go = ''go'' \<and> \<not> lg_address_space_limit go \<and>
               Option.bind (lg_compile go) st_syscall_flags = Some 65531) \<and>
          (case get_language reg ''python'' of
             None \<Rightarrow> False
           | Some py \<Rightarrow> lg_compile py = None \<and> lg_time_multiplier py = Fin 3 \<and> lg_address_space_limit py))"

text \<open>The unknown field of the third entry is refused by the parser, which is not in the repository.\<close>

definition rejects_bad_entries :: bool where
  "rejects_bad_entries \<longleftrightarrow>
     is_err (loaded [(''go'', sample_go), (''python'', sample_python\<lparr>lt_source_file := ''../main.py''\<rparr>)]) \<and>
     is_err (loaded [(''go'', sample_go), (''python'', sample_python\<lparr>lt_time_multiplier := Some (Fin (1 / 2))\<rparr>)])"

lemma language_tests: "parses_registry" "rejects_bad_entries"
  by code_simp+

section \<open>\<open>pipeline.rs\<close>\<close>

definition test_langs :: registry where
  "test_langs =
     (case loaded
        [(''python'',
          \<lparr>lt_display_name = ''Python'', lt_source_file = ''main.py'', lt_compile = None,
           lt_run = plain_step [''python3'', ''main.py''], lt_time_multiplier = Some (Fin 3),
           lt_address_space_limit = None\<rparr>),
         (''rust'',
          \<lparr>lt_display_name = ''Rust'', lt_source_file = ''main.rs'',
           lt_compile = Some (plain_step [''rustc'', ''main.rs'']),
           lt_run = plain_step [''./main''], lt_time_multiplier = None,
           lt_address_space_limit = None\<rparr>)] of
        Err e \<Rightarrow> [] | Ok reg \<Rightarrow> reg)"

definition test_judge ::
  "mock_sandbox \<Rightarrow> judge_request \<Rightarrow> bool \<Rightarrow>
   ((judge_error + judge_result) \<times> mock_state \<times> progress list) option" where
  "test_judge m req listening = judge (mock_ops m) test_langs default_judge_config req listening mock_init"

definition tests3 :: "test_case list" where
  "tests3 =
     map (\<lambda>i. \<lparr>tc_name = ''0'' @ show_nat i, tc_input = show_nat i @ nl,
               tc_expected = Some (show_nat (i * 2) @ nl)\<rparr>) [1, 2, 3]"

definition test_req :: "string \<Rightarrow> test_case list \<Rightarrow> judge_request" where
  "test_req lang tests =
     \<lparr>rq_language = lang, rq_source = ''src'', rq_tests = tests, rq_time_limit_ms = 1000,
      rq_memory_limit_kb = 262144, rq_comparer = Lines, rq_stop_on_first_failure = True,
      rq_capture_output = False, rq_show_failed_input = False\<rparr>"

text \<open>The inputs are numbers without a sign.\<close>

definition doubler :: "exec_spec \<Rightarrow> bytes \<Rightarrow> exec_outcome" where
  "doubler spec stdin =
     (let n = (case parse_unsigned 63 (trim (from_utf8_lossy stdin)) of Some n \<Rightarrow> n | None \<Rightarrow> 0)
      in mock_ok (show_nat (n * 2) @ nl))"

definition accepted_runs_every_test_and_applies_multiplier :: bool where
  "accepted_runs_every_test_and_applies_multiplier \<longleftrightarrow>
     (case test_judge (Scripted doubler) (test_req ''python'' tests3) True of
        Some (Ok res, s, events) \<Rightarrow>
          jr_verdict res = Accepted \<and> length (jr_tests res) = 3 \<and> jr_failed_test res = None \<and>
          length (mk_calls s) = 3 \<and>
          el_cpu_time (es_limits (hd (mk_calls s))) = from_millis 3000 \<and>
          el_wall_time (es_limits (hd (mk_calls s))) = from_millis 7000 \<and>
          mk_files s = [(''main.py'', ''src'')] \<and> mk_released s = 1 \<and>
          hd events = P_Running 0 3 \<and> last events = P_Running 3 3
      | _ \<Rightarrow> False)"

definition wrong_on_two :: "exec_spec \<Rightarrow> bytes \<Rightarrow> exec_outcome" where
  "wrong_on_two spec stdin = (if stdin = ''2'' @ nl then mock_ok (''999'' @ nl) else doubler spec stdin)"

definition stops_at_first_failure :: bool where
  "stops_at_first_failure \<longleftrightarrow>
     (case test_judge (Scripted wrong_on_two) ((test_req ''python'' tests3)\<lparr>rq_show_failed_input := True\<rparr>) False of
        Some (Ok res, s, events) \<Rightarrow>
          jr_verdict res = WrongAnswer \<and> jr_failed_test res = Some ''02'' \<and>
          length (jr_tests res) = 2 \<and> length (mk_calls s) = 2 \<and>
          tr_input (jr_tests res ! 1) = Some (''2'' @ nl) \<and>
          tr_expected (jr_tests res ! 1) = Some (''4'' @ nl) \<and>
          tr_input (jr_tests res ! 0) = None
      | _ \<Rightarrow> False)"

definition always_nope :: "exec_spec \<Rightarrow> bytes \<Rightarrow> exec_outcome" where
  "always_nope spec stdin = mock_ok (''nope'' @ nl)"

definition hidden_tests_stay_hidden_by_default :: bool where
  "hidden_tests_stay_hidden_by_default \<longleftrightarrow>
     (case test_judge (Scripted always_nope) (test_req ''python'' tests3) False of
        Some (Ok res, s, events) \<Rightarrow>
          jr_verdict res = WrongAnswer \<and> tr_input (hd (jr_tests res)) = None \<and>
          tr_expected (hd (jr_tests res)) = None \<and> tr_stdout (hd (jr_tests res)) = None
      | _ \<Rightarrow> False)"

definition runs_all_tests_when_asked :: bool where
  "runs_all_tests_when_asked \<longleftrightarrow>
     (case test_judge (Scripted always_nope)
             ((test_req ''python'' tests3)\<lparr>rq_stop_on_first_failure := False\<rparr>) False of
        Some (Ok res, s, events) \<Rightarrow> length (jr_tests res) = 3 \<and> jr_failed_test res = Some ''01''
      | _ \<Rightarrow> False)"

text \<open>The script panics when it is asked to run anything but the compiler: here it then answers
  with a status that the assertions exclude.\<close>

definition failing_compiler :: "exec_spec \<Rightarrow> bytes \<Rightarrow> exec_outcome" where
  "failing_compiler spec stdin =
     (if hd (es_argv spec) = ''rustc'' then mock_with_status (NonZeroExit 1) ''error[E0425]: nope''
      else mock_with_status TimeLimit '''')"

definition compile_error_short_circuits :: bool where
  "compile_error_short_circuits \<longleftrightarrow>
     (case test_judge (Scripted failing_compiler) (test_req ''rust'' tests3) False of
        Some (Ok res, s, events) \<Rightarrow>
          jr_verdict res = CompileError \<and>
          (case jr_compile_output res of Some t \<Rightarrow> str_contains t ''E0425'' | None \<Rightarrow> False) \<and>
          jr_tests res = [] \<and> es_stderr_to_stdout (hd (mk_calls s)) \<and> mk_released s = 1
      | _ \<Rightarrow> False)"

definition with_verdict :: "exec_status \<Rightarrow> verdict \<Rightarrow> bool" where
  "with_verdict st want \<longleftrightarrow>
     (case test_judge (Scripted (\<lambda>_ _. mock_with_status st [])) (test_req ''python'' tests3) False of
        Some (Ok res, s, events) \<Rightarrow> jr_verdict res = want
      | _ \<Rightarrow> False)"

definition status_mapping :: bool where
  "status_mapping \<longleftrightarrow>
     with_verdict TimeLimit TimeLimitExceeded \<and> with_verdict WallTimeLimit TimeLimitExceeded \<and>
     with_verdict MemoryLimit MemoryLimitExceeded \<and> with_verdict OutputLimit OutputLimitExceeded \<and>
     with_verdict (Signaled 11) RuntimeError \<and> with_verdict (NonZeroExit 2) RuntimeError"

definition run_mode_captures_output_without_comparison :: bool where
  "run_mode_captures_output_without_comparison \<longleftrightarrow>
     (case test_judge (Scripted (\<lambda>_ stdin. mock_ok (''echo:'' @ from_utf8_lossy stdin)))
             ((test_req ''python'' [\<lparr>tc_name = ''custom'', tc_input = ''hi'', tc_expected = None\<rparr>])
                \<lparr>rq_capture_output := True\<rparr>) False of
        Some (Ok res, s, events) \<Rightarrow>
          jr_verdict res = Accepted \<and> tr_stdout (hd (jr_tests res)) = Some ''echo:hi'' \<and>
          tr_expected (hd (jr_tests res)) = None
      | _ \<Rightarrow> False)"

definition sandbox_failure_is_an_error_not_a_verdict :: bool where
  "sandbox_failure_is_an_error_not_a_verdict \<longleftrightarrow>
     (case test_judge (Failing ''isolate exploded'') (test_req ''python'' tests3) False of
        Some (Err (Sandbox_Failed e), s, events) \<Rightarrow> mk_released s = 1
      | _ \<Rightarrow> False) \<and>
     (case test_judge (Failing ''isolate exploded'') (test_req ''cobol'' tests3) False of
        Some (Err (UnknownLanguage l), s, events) \<Rightarrow> True
      | _ \<Rightarrow> False)"

definition excerpt_truncates :: bool where
  "excerpt_truncates \<longleftrightarrow>
     excerpt ''abc'' 10 = ''abc'' \<and>
     (let long = excerpt (replicate 5000 (CHR ''x'')) 10
      in starts_with long (''xxxxxxxxxx'' @ nl) \<and> str_contains long ''5000 bytes'')"

lemma accepted_test: "accepted_runs_every_test_and_applies_multiplier"
  by code_simp
lemma first_failure_test: "stops_at_first_failure"
  by code_simp
lemma hidden_test: "hidden_tests_stay_hidden_by_default"
  by code_simp
lemma all_tests_test: "runs_all_tests_when_asked"
  by code_simp
lemma compile_error_test: "compile_error_short_circuits"
  by code_simp
lemma status_mapping_test: "status_mapping"
  by code_simp
lemma run_mode_test: "run_mode_captures_output_without_comparison"
  by code_simp
lemma sandbox_failure_test: "sandbox_failure_is_an_error_not_a_verdict"
  by code_simp


lemma excerpt_long:
  "excerpt (replicate 5000 (CHR ''x'')) 10 = ''xxxxxxxxxx'' @ nl @ ''... [truncated, 5000 bytes total]''"
proof -
  have "from_utf8_lossy (replicate 10 (CHR ''x'')) = ''xxxxxxxxxx''" "show_nat 5000 = ''5000''"
    by code_simp+
  then show ?thesis by (simp add: excerpt_def)
qed

lemma excerpt_test: "excerpt_truncates"
proof -
  have "excerpt ''abc'' 10 = ''abc''"
    "starts_with (''xxxxxxxxxx'' @ nl @ ''... [truncated, 5000 bytes total]'') (''xxxxxxxxxx'' @ nl)"
    "str_contains (''xxxxxxxxxx'' @ nl @ ''... [truncated, 5000 bytes total]'') ''5000 bytes''"
    by code_simp+
  then show ?thesis unfolding excerpt_truncates_def Let_def excerpt_long by blast
qed

end
