(* ===== verification/Judge_Problem_Tests.thy ===== *)
theory Judge_Problem_Tests
  imports Judge_Tests Judge_Problem_Guarantees
begin

text \<open>
  The unit tests of \<open>problem.rs\<close>, run on the model. The directory is a list of files with their
  contents, \<open>write\<close> replaces one of them, and the parser knows the three manifests of the tests.
\<close>

type_synonym tree = "(string \<times> bytes) list"

definition tree_write :: "string \<Rightarrow> string \<Rightarrow> string \<Rightarrow> tree \<Rightarrow> tree" where
  "tree_write dir rel body = AList.update (path_join dir rel) body"

definition tree_read :: "tree \<Rightarrow> string \<Rightarrow> string + bytes" where
  "tree_read fs p = (case map_of fs p of None \<Rightarrow> Err ''not found'' | Some b \<Rightarrow> Ok b)"

text \<open>The entries of a directory: the first component of every path below it, once.\<close>

definition tree_list :: "tree \<Rightarrow> string \<Rightarrow> string + (string + string) list" where
  "tree_list fs dir =
     (let below = filter (\<lambda>p. starts_with p (dir @ ''/'')) (map fst fs)
      in if below = [] then Err ''not found''
         else Ok (map Inr (remdups (map (\<lambda>p. takeWhile (\<lambda>c. c \<noteq> CHR ''/'') (drop (length dir + 1) p)) below))))"

definition title_only :: "string \<Rightarrow> manifest_table" where
  "title_only t =
     \<lparr>mt_title = t, mt_difficulty = None, mt_time_limit_ms = None, mt_memory_limit_mb = None,
      mt_comparer = None, mt_samples = None, mt_show_failed_input = None, mt_tags = None\<rparr>"

definition toml_sum :: string where
  "toml_sum = ''title = \"A+B\"'' @ nl @ ''samples = [\"01\"]'' @ nl @ ''comparer = \"tokens\"'' @ nl"

definition toml_plain :: string where
  "toml_plain = ''title = \"P\"'' @ nl"

definition toml_bad_sample :: string where
  "toml_bad_sample = ''title = \"P\"'' @ nl @ ''samples = [\"nope\"]'' @ nl"

definition test_toml :: "string \<Rightarrow> string + manifest_table" where
  "test_toml t =
     (if t = toml_sum then Ok ((title_only ''A+B'')\<lparr>mt_samples := Some [''01''], mt_comparer := Some Tokens\<rparr>)
      else if t = toml_plain then Ok (title_only ''P'')
      else if t = toml_bad_sample then Ok ((title_only ''P'')\<lparr>mt_samples := Some [''nope'']\<rparr>)
      else Err ''another text'')"

definition tree_env :: "(bytes \<Rightarrow> bytes) \<Rightarrow> (f64 \<Rightarrow> string) \<Rightarrow> tree \<Rightarrow> problem_env" where
  "tree_env sha dbg fs =
     \<lparr>pe_read_to_string = tree_read fs, pe_read = tree_read fs, pe_read_dir = tree_list fs,
      pe_is_file = (\<lambda>p. p \<in> set (map fst fs)), pe_toml = test_toml, pe_sha256 = sha,
      pe_debug_str = id, pe_debug_f64 = dbg\<rparr>"

definition sum_tree :: tree where
  "sum_tree =
     fold (\<lambda>(rel, body). tree_write ''/load/a-plus-b'' rel body)
       [(''problem.toml'', toml_sum), (''statement.md'', ''Add.''), (''tests/01.in'', ''1 2'' @ nl),
        (''tests/01.out'', ''3'' @ nl), (''tests/02.in'', ''5 5'' @ nl), (''tests/02.out'', ''10'' @ nl)] []"

definition changed_tree :: tree where
  "changed_tree = tree_write ''/load/a-plus-b'' ''tests/02.out'' (''11'' @ nl) sum_tree"

definition loads_and_versions :: "(bytes \<Rightarrow> bytes) \<Rightarrow> (f64 \<Rightarrow> string) \<Rightarrow> bool" where
  "loads_and_versions sha dbg \<longleftrightarrow>
     (case load_problem (tree_env sha dbg sum_tree) ''/load/a-plus-b'' of
        Err e \<Rightarrow> False
      | Ok p \<Rightarrow>
          pr_slug p = ''a-plus-b'' \<and> length (pr_tests p) = 2 \<and> length (problem_samples p) = 1 \<and>
          pr_comparer p = Tokens \<and> pr_memory_limit_kb p = 256 * 1024 \<and> length (pr_version p) = 64 \<and>
          (case load_problem (tree_env sha dbg changed_tree) ''/load/a-plus-b'' of
             Err e \<Rightarrow> False | Ok q \<Rightarrow> pr_version q \<noteq> pr_version p)) \<and>
     (case load_problems (tree_env sha dbg changed_tree) ''/load'' of
        Err e \<Rightarrow> False | Ok ps \<Rightarrow> problem_count ps = 1)"

definition rejects_missing_out_and_bad_sample :: "(bytes \<Rightarrow> bytes) \<Rightarrow> (f64 \<Rightarrow> string) \<Rightarrow> bool" where
  "rejects_missing_out_and_bad_sample sha dbg \<longleftrightarrow>
     (let t1 = tree_write ''/bad/p1'' ''tests/01.in'' (''1'' @ nl)
                 (tree_write ''/bad/p1'' ''problem.toml'' toml_plain []);
          t2 = tree_write ''/bad/p1'' ''tests/01.out'' (''1'' @ nl) t1;
          t3 = tree_write ''/bad/p1'' ''problem.toml'' toml_bad_sample t2
      in is_err (load_problem (tree_env sha dbg t1) ''/bad/p1'') \<and>
         is_ok (load_problem (tree_env sha dbg t2) ''/bad/p1'') \<and>
         is_err (load_problem (tree_env sha dbg t3) ''/bad/p1''))"

lemma rejects_test: "rejects_missing_out_and_bad_sample sha dbg"
  by code_simp

definition sum_tests :: "string \<Rightarrow> test_case list" where
  "sum_tests out =
     [\<lparr>tc_name = ''01'', tc_input = ''1 2'' @ nl, tc_expected = Some (''3'' @ nl)\<rparr>,
      \<lparr>tc_name = ''02'', tc_input = ''5 5'' @ nl, tc_expected = Some (out @ nl)\<rparr>]"

definition sum_problem :: "(bytes \<Rightarrow> bytes) \<Rightarrow> (f64 \<Rightarrow> string) \<Rightarrow> string \<Rightarrow> problem" where
  "sum_problem sha dbg out =
     \<lparr>pr_slug = ''a-plus-b'', pr_title = ''A+B'', pr_difficulty = ''medium'', pr_tags = [],
      pr_time_limit_ms = 1000, pr_memory_limit_kb = 262144, pr_comparer = Tokens,
      pr_show_failed_input = False, pr_statement = ''Add.'', pr_tests = sum_tests out,
      pr_sample_names = [''01''],
      pr_version = concat (map hex_byte (sha (hash_input dbg 1000 256 Tokens (sum_tests out))))\<rparr>"

lemma sum_loaded:
  "load_problem (tree_env sha dbg sum_tree) ''/load/a-plus-b'' = Ok (sum_problem sha dbg ''10'')"
  by code_simp

lemma changed_loaded:
  "load_problem (tree_env sha dbg changed_tree) ''/load/a-plus-b'' = Ok (sum_problem sha dbg ''11'')"
  by code_simp

lemma changed_set_loaded:
  "load_problems (tree_env sha dbg changed_tree) ''/load'' = Ok [(''a-plus-b'', sum_problem sha dbg ''11'')]"
  by code_simp

text \<open>Of SHA-256 the test needs that a digest has 32 bytes and that the two hashed texts do not collide.\<close>

lemma loads_and_versions_test:
  assumes "\<And>x. length (sha x) = 32"
    and "sha (hash_input dbg 1000 256 Tokens (sum_tests ''11'')) \<noteq>
         sha (hash_input dbg 1000 256 Tokens (sum_tests ''10''))"
  shows "loads_and_versions sha dbg"
proof -
  have "length (concat (map hex_byte bs)) = 2 * length bs" for bs
    by (induction bs) (simp_all add: hex_byte_def)
  with assms show ?thesis
    unfolding loads_and_versions_def sum_loaded changed_loaded changed_set_loaded
    by (simp add: sum_problem_def sum_tests_def problem_samples_def problem_count_def hex_inject)
qed

end
