(* ===== verification/Server_Tests.thy ===== *)
theory Server_Tests
  imports Server_Runs "HOL-Library.Code_Target_Nat"
begin

text \<open>
  The unit tests of \<open>store.rs\<close> and \<open>runs.rs\<close>, run on the model. The ids are those of a generator
  whose ids grow, the clock of a test stands still, and the result documents are not read.
\<close>

section \<open>\<open>store.rs\<close>\<close>

definition new_sub :: "string \<Rightarrow> string option \<Rightarrow> new_submission" where
  "new_sub problem key =
     \<lparr>nw_user_id = ''local'', nw_problem = problem, nw_problem_version = ''v1'', nw_language = ''python'',
      nw_source = ''print(1)'', nw_tests_total = 3, nw_idempotency_key = key\<rparr>"

definition test_result_of :: "verdict \<Rightarrow> judge_result" where
  "test_result_of v =
     \<lparr>jr_verdict = v, jr_time_ms = 12, jr_memory_kb = 3456, jr_failed_test = None,
      jr_compile_output = None, jr_tests = [], jr_tests_total = 3\<rparr>"

definition test_clock :: i64 where "test_clock = 1000"

definition t_insert :: "string \<Rightarrow> string \<Rightarrow> string option \<Rightarrow> (db, store_error, submission \<times> bool) io" where
  "t_insert i problem key = store_insert (\<lambda>_. None) i test_clock (new_sub problem key)"

definition t_claim :: "i64 \<Rightarrow> (db, store_error, job option) io" where
  "t_claim lease_ms = claim_next test_clock lease_ms"

definition t_get :: "string \<Rightarrow> db \<Rightarrow> submission option" where
  "t_get i d = store_get (\<lambda>_. None) i d"

definition t_finish :: "string \<Rightarrow> u32 \<Rightarrow> verdict \<Rightarrow> (db, store_error, bool) io" where
  "t_finish i attempt v =
     store_finish (\<lambda>_. Ok ''[]'') test_clock i attempt ''v2'' ''j'' (test_result_of v)"

definition t_list :: "string option \<Rightarrow> u32 \<Rightarrow> db \<Rightarrow> submission list" where
  "t_list problem limit d = store_list (\<lambda>_. None) problem limit d"

definition queue_is_fifo_and_claims_are_exclusive :: bool where
  "queue_is_fifo_and_claims_are_exclusive \<longleftrightarrow>
     (let (a, d1) = t_insert ''a'' ''p1'' None empty_db;
          (b, d2) = t_insert ''b'' ''p2'' None d1;
          (j1, d3) = t_claim 60000 d2;
          (j2, d4) = t_claim 60000 d3;
          (j3, d5) = t_claim 60000 d4
      in queue_depth d2 = 2 \<and>
         (case (a, b, j1, j2) of
            (Ok (a, _), Ok (b, _), Ok (Some j1), Ok (Some j2)) \<Rightarrow>
              jb_id j1 = sm_id a \<and> jb_id j2 = sm_id b \<and> jb_attempt j1 = 1 \<and> jb_source j1 = ''print(1)'' \<and>
              map_option sm_status (t_get (sm_id a) d5) = Some S_Compiling
          | _ \<Rightarrow> False) \<and>
         j3 = Ok None)"

definition idempotency_key_returns_the_original :: bool where
  "idempotency_key_returns_the_original \<longleftrightarrow>
     (let (r1, d1) = t_insert ''a'' ''p'' (Some ''k1'') empty_db;
          (r2, d2) = t_insert ''b'' ''p'' (Some ''k1'') d1
      in (case (r1, r2) of
            (Ok (first, created), Ok (second, created_again)) \<Rightarrow>
              created \<and> \<not> created_again \<and> sm_id first = sm_id second
          | _ \<Rightarrow> False) \<and> queue_depth d2 = 1)"

definition finish_is_fenced_by_attempt_and_idempotent :: bool where
  "finish_is_fenced_by_attempt_and_idempotent \<longleftrightarrow>
     (let (r, d1) = t_insert ''a'' ''p'' None empty_db;
          (j, d2) = t_claim 60000 d1
      in case j of
           Ok (Some job) \<Rightarrow>
             (let (f1, d3) = t_finish ''a'' (jb_attempt job + 1) WrongAnswer d2;
                  (f2, d4) = t_finish ''a'' (jb_attempt job) Accepted d3;
                  (f3, d5) = t_finish ''a'' (jb_attempt job) WrongAnswer d4
              in f1 = Ok False \<and> f2 = Ok True \<and> f3 = Ok False \<and>
                 (case t_get ''a'' d5 of
                    None \<Rightarrow> False
                  | Some got \<Rightarrow> sm_status got = S_Done \<and> sm_verdict got = Some Accepted \<and>
                      sm_problem_version got = ''v2'' \<and> sm_time_ms got = Some 12) \<and>
                 \<not> fst (store_progress test_clock ''a'' (jb_attempt job) S_Running 1 3 1000 d5))
         | _ \<Rightarrow> False)"

definition expired_leases_are_requeued_then_failed :: bool where
  "expired_leases_are_requeued_then_failed \<longleftrightarrow>
     (let (r, d1) = t_insert ''a'' ''p'' None empty_db;
          (j1, d2) = t_claim (- 1) d1;
          (report1, d3) = store_sweep test_clock 2 d2;
          (j2, d4) = t_claim (- 1) d3;
          (report2, d5) = store_sweep test_clock 2 d4
      in (case (j1, j2) of
            (Ok (Some j1), Ok (Some j2)) \<Rightarrow> jb_attempt j1 = 1 \<and> jb_attempt j2 = 2
          | _ \<Rightarrow> False) \<and>
         report1 = \<lparr>sp_requeued = 1, sp_failed = 0\<rparr> \<and> report2 = \<lparr>sp_requeued = 0, sp_failed = 1\<rparr> \<and>
         map_option (\<lambda>got. (sm_status got, sm_verdict got)) (t_get ''a'' d5) =
           Some (S_Done, Some InternalError))"

definition live_leases_are_left_alone_and_heartbeats_extend_them :: bool where
  "live_leases_are_left_alone_and_heartbeats_extend_them \<longleftrightarrow>
     (let (r, d1) = t_insert ''a'' ''p'' None empty_db;
          (j, d2) = t_claim 60000 d1;
          (report, d3) = store_sweep test_clock 3 d2
      in case j of
           Ok (Some job) \<Rightarrow>
             (let (alive, d4) = store_progress test_clock ''a'' (jb_attempt job) S_Running 2 3 60000 d3
              in report = \<lparr>sp_requeued = 0, sp_failed = 0\<rparr> \<and> alive \<and>
                 map_option (\<lambda>got. (sm_status got, sm_tests_done got)) (t_get ''a'' d4) =
                   Some (S_Running, 2))
         | _ \<Rightarrow> False)"

definition fail_attempt_requeues_then_gives_up :: bool where
  "fail_attempt_requeues_then_gives_up \<longleftrightarrow>
     (let (r, d1) = t_insert ''a'' ''p'' None empty_db;
          (j1, d2) = t_claim 60000 d1;
          (s1, d3) = fail_attempt test_clock ''a'' 1 2 ''boom'' d2;
          (j2, d4) = t_claim 60000 d3;
          (s2, d5) = fail_attempt test_clock ''a'' 2 2 ''boom'' d4
      in (case (j1, j2) of
            (Ok (Some j1), Ok (Some j2)) \<Rightarrow> jb_attempt j1 = 1 \<and> jb_attempt j2 = 2
          | _ \<Rightarrow> False) \<and>
         s1 = Some S_Queued \<and> s2 = Some S_Done \<and>
         Option.bind (t_get ''a'' d5) sm_verdict = Some InternalError)"

definition restart_requeues_inflight_and_list_filters :: bool where
  "restart_requeues_inflight_and_list_filters \<longleftrightarrow>
     (let (r1, d1) = t_insert ''a'' ''p1'' None empty_db;
          (r2, d2) = t_insert ''b'' ''p2'' None d1;
          (j, d3) = t_claim 60000 d2;
          (n, d4) = requeue_inflight d3
      in (case j of Ok (Some job) \<Rightarrow> True | _ \<Rightarrow> False) \<and> n = 1 \<and> queue_depth d4 = 2 \<and>
         length (t_list (Some ''p2'') 10 d4) = 1 \<and> length (t_list None 10 d4) = 2 \<and>
         sm_problem (hd (t_list None 1 d4)) = ''p2'')"

lemma fifo_test: "queue_is_fifo_and_claims_are_exclusive"
  by code_simp
lemma idempotency_test: "idempotency_key_returns_the_original"
  by code_simp
lemma finish_test: "finish_is_fenced_by_attempt_and_idempotent"
  by code_simp
lemma expired_test: "expired_leases_are_requeued_then_failed"
  by code_simp
lemma live_test: "live_leases_are_left_alone_and_heartbeats_extend_them"
  by code_simp
lemma fail_attempt_test: "fail_attempt_requeues_then_gives_up"
  by code_simp
lemma restart_test: "restart_requeues_inflight_and_list_filters"
  by code_simp

section \<open>\<open>runs.rs\<close>\<close>

definition test_run_job :: run_job where
  "test_run_job =
     \<lparr>rj_id = [], rj_language = ''python'', rj_source = ''print(1)'', rj_tests = [],
      rj_time_limit_ms = 1000, rj_memory_limit_kb = 1024, rj_comparer = Lines\<rparr>"

definition bounded_fifo_with_ttl :: bool where
  "bounded_fifo_with_ttl \<longleftrightarrow>
     (let (a, s1) = run_submit ''a'' test_clock 0 test_run_job (run_store_new 2 (from_millis 0));
          (b, s2) = run_submit ''b'' test_clock 0 test_run_job s1;
          (c, s3) = run_submit ''c'' test_clock 0 test_run_job s2;
          (j, s4) = run_pop s3;
          s5 = run_complete ''a'' (Err ''sandbox down'') s4;
          (n, s6) = run_prune 0 s5
      in map_sum id rr_id a = Ok ''a'' \<and> map_sum id rr_id b = Ok ''b'' \<and> c = Err QueueFull \<and>
         map_option rj_id j = Some ''a'' \<and>
         map_option rr_status (run_get ''a'' s4) = Some S_Running \<and>
         Option.bind (run_get ''a'' s5) rr_error = Some ''sandbox down'' \<and>
         n = 1 \<and> run_get ''a'' s6 = None \<and> run_get ''b'' s6 \<noteq> None)"

lemma runs_test: "bounded_fifo_with_ttl"
  by code_simp

end
