(* ===== verification/Spec2Isabelle.thy ===== *)
theory Spec2Isabelle
  imports Judge_Guarantees Judge_Isolate_Guarantees Judge_Isolate_Wire Judge_Problem_Guarantees
    Server_Reads Server_Run_Guarantees Server_Queue_Refinement Server_Boot Cli_Text
    Judge_Pipeline_Tests Judge_Problem_Tests Server_Tests
begin

text \<open>
  Codexec, an online judge. The engine (\<open>crates/judge\<close>) compiles a program and runs it on a problem's
  tests inside a sandbox; the server (\<open>crates/server\<close>) keeps submissions in a database that is also
  the work queue, judges them in workers and answers over HTTP; the tool (\<open>crates/cli\<close>) judges from
  the command line. This development models all three and proves what their users rely on: a verdict
  is what the tests say, it is judged once, it is never lost, and it reaches whoever waits for it.

  \<^bold>\<open>Parts and theories.\<close>

  \<^item> \<open>Prelude\<close>, \<open>Bytes\<close>, \<open>Rust_F64\<close>, \<open>Rust_Path\<close>: the language and its library as far as the source
    uses them. Strings are their UTF-8 bytes, \<open>f64\<close> is a rational rounded to 53 bits or one of the
    special values, \<open>Result\<close> is a sum and \<open>?\<close> is \<open>try_then\<close>.
  \<^item> \<open>Judge_Verdict\<close> (\<open>verdict.rs\<close>), \<open>Judge_Sandbox\<close> (\<open>sandbox.rs\<close>), \<open>Judge_Mock\<close> (\<open>mock.rs\<close>),
    \<open>Judge_Compare\<close> (\<open>compare.rs\<close>), \<open>Judge_Language\<close> (\<open>language.rs\<close>), \<open>Judge_Pipeline\<close> (\<open>pipeline.rs\<close>):
    the engine. The trait \<open>Sandbox\<close> is the record \<open>sandbox\<close> of its operations; its contract is the
    locale \<open>sandbox_provider\<close>, which \<open>mock.rs\<close> and \<open>isolate.rs\<close> are proved to keep.
    \<open>Judge_Pipeline_Facts\<close> separates what is executed from what is reported, \<open>Judge_Guarantees\<close>
    has the properties of judging. \<open>Judge_Script\<close> has the same pipeline as a tree of single sandbox
    operations (\<open>judge_script\<close>), proved to be \<open>judge_in_box\<close> when nothing comes in between, and what it
    returns for any replies it gets (\<open>yields\<close>): a session of box operations and the result of it.
  \<^item> \<open>Judge_Isolate\<close> (\<open>isolate.rs\<close>): the pool of boxes, the life of a box, the command line and the
    meta file; \<open>Judge_Isolate_Facts\<close> and \<open>_Guarantees\<close> are about the pool, \<open>_Wire\<close> about the two
    formats. \<open>Judge_Config\<close>: how its configuration and that of the pipeline are read.
  \<^item> \<open>Judge_Problem\<close> (\<open>problem.rs\<close>): problems, their versions and problem sets, with
    \<open>Judge_Problem_Guarantees\<close>.
  \<^item> \<open>Server_Store\<close> (\<open>store.rs\<close>): the tables and every operation on them. \<open>Server_Store_Facts\<close> proves
    the invariant, \<open>Server_Queue\<close> what each operation can do to a job, \<open>Server_Queue_Guarantees\<close>,
    \<open>Server_Recovery\<close> and \<open>Server_Reads\<close> have claims and tokens, sweeps and retries, and what is read
    back; \<open>Server_Queue_Refinement\<close> has an abstract queue whose every operation the store's
    operation is, seen through \<open>queue_of\<close>.
  \<^item> \<open>Server_Runs\<close> (\<open>runs.rs\<close>) and \<open>Server_Events\<close> (\<open>events.rs\<close>): the lane of runs and the hub.
  \<^item> \<open>Server_App\<close> (\<open>lib.rs\<close>, \<open>config.rs\<close>), \<open>Server_Worker\<close> (\<open>worker.rs\<close>), \<open>Server_Http\<close> (\<open>http.rs\<close>): the
    server. \<open>Server_Worker_Facts\<close> and \<open>_Guarantees\<close> have the worker as a client of the store and the
    two lanes; \<open>Server_Judging\<close>, \<open>Server_Liveness\<close>, \<open>Server_Http_Guarantees\<close> and
    \<open>Server_Run_Guarantees\<close> compose worker, judge, store, lane and hub.
  \<^item> \<open>Server_System\<close> (\<open>worker.rs\<close> with the handlers of \<open>http.rs\<close>): all tasks of the running server
    together, interleaved. \<open>Server_System_Facts\<close> proves the invariant of its reachable states,
    \<open>Server_System_Boxes\<close> that boxes are not shared, \<open>Server_System_Turns\<close> that turns end;
    \<open>Server_System_Log\<close> has the log of what was done in the boxes, with the backend's replies, and
    shows that every result was computed from a session in it. \<open>Server_System_Guarantees\<close> has the
    properties; those about verdicts speak of this log and the isolate backend, and suppose nothing
    of the programs that are judged or of the host.
  \<^item> \<open>Server_Main\<close>, \<open>Server_Boot\<close> (\<open>server/src/main.rs\<close>, \<open>config.rs\<close>, \<open>Store::open\<close>): starting the server,
    from its command line to the workers it spawns, and what a restart recovers.
  \<^item> \<open>Cli_Main\<close>, \<open>Cli_Text\<close> (\<open>cli/src/main.rs\<close>): the commands \<open>judge\<close> and \<open>check-problem\<close>; the tool's
    configuration, its exit status and the text it prints. Both commands are proved on the isolate
    backend, where they always end; what they report is what was judged.
  \<^item> \<open>Judge_Tests\<close>, \<open>Judge_Pipeline_Tests\<close>, \<open>Judge_Problem_Tests\<close>, \<open>Server_Tests\<close>: the unit tests of the
    source as propositions about the model, each evaluated. They check the definitions against
    what the authors wrote down and are no properties themselves.

  \<^bold>\<open>How they interact.\<close> A handler of \<open>http.rs\<close> inserts a submission and wakes a worker. A turn of the
  worker's loop claims the oldest submission, which gives it a token (the id and the attempt), runs
  the judge, writes each progress event as a heartbeat and then the result or the failure, always
  under its token, and publishes the state it reads back. The sweeper requeues what has lost its
  lease. Judging takes a box of the sandbox and gives it back.

  \<^bold>\<open>State and interleaving.\<close> The store's mutex makes each access one step. The program is modelled at
  two grains. The handlers of \<open>worker.rs\<close> and \<open>http.rs\<close> are functions of the server, in which what
  other tasks do to the store between two accesses is the argument \<open>en_others\<close>, an arbitrary list of
  store operations for each access, and so is the clock; \<open>alone\<close> is a task that nobody interferes
  with. In \<open>Server_System\<close> the tasks are there themselves, so \<open>en_others\<close> is empty: a record holds
  the server and one machine for each worker with the heartbeat task of its submission, and a move
  is one access of one of them to the store, the run lane, the hub or its box, a step of the
  sweeper, a client's request, or a crash at any moment followed by a restart that keeps only the
  database. Publishing a submission, which reads it and hands it to the hub, is one move, and so is
  a request. \<open>reachable\<close> are the states after any sequence of moves from the empty database; the
  configuration, languages and problems are the same after a restart. The turns of the first model
  are proved to be moves of the second.

  \<^bold>\<open>What the groups of lemmas show.\<close> Judging: it implements its specification, Accepted means every
  test passed (for a backend whose programs are functions, as that of \<open>mock.rs\<close>), the first failure
  decides, hidden tests stay hidden, boxes come back. Comparing: each
  comparer decides equality of normal forms, and the tolerant one accepts all it should. Storing:
  the invariant, the refinement of an abstract queue, exclusive claims, dead tokens, final verdicts,
  bounded retries. Serving: the verdict of the judge is stored and published, failures are
  retried or end in IE, neither lane starves, every submission gets a verdict, also after a restart,
  requests are refused precisely, accepted ones are durable, subscribers get the verdict. The
  running system: its database refines the store's histories, no two workers own a submission, a
  verdict shown was computed from executions of the stored source on the tests' inputs in one
  undisturbed box and stays, workers are never stuck; after a
  crash in any of its states, starting again recovers everything. Problems and tool: what loading
  guarantees, what a version identifies, when \<open>check-problem\<close> passes.

  \<^bold>\<open>Bounds.\<close> Words have the width of the source and wrap as release builds do; SQLite's columns are
  \<open>int\<close> with the source's casts. The loops of the source are structural recursions; the worker's
  endless loop is a number of turns, and \<open>Server_Boot\<close> says how many suffice: the
  number of submissions times the attempts. Waiting for a box is \<open>None\<close>. Attempts stay below
  \<open>2 ^ 32 - 1\<close> (\<open>tokens_fit\<close>), so that a token holds them. \<open>main\<close> spawns as many workers as the
  backend has boxes, which is the hypothesis \<open>n \<le> unat (ic_slots icfg)\<close>.

  \<^bold>\<open>Parameters.\<close> The host's processes and files, the \<open>isolate\<close> binary, TOML, JSON, SHA-256, \<open>Debug\<close>
  texts, clocks, UUIDs and tokio's broadcast channels are arguments; what is relied on is a named
  hypothesis (\<open>writes_json\<close>, \<open>debug_ok\<close>, \<open>delivers\<close>, \<open>inj_on\<close> of the hash).

  \<^bold>\<open>Not modelled.\<close> Failures of SQLite after the database was opened; binding the socket, routing,
  parsing and serialising, which axum and serde do; spawning, sleeping, shutting down and logging,
  which tokio and tracing do; parsing arguments, which clap does.
\<close>

end
